(* ===== verification/Prelude.thy ===== *)
theory Prelude
  imports Main "HOL-Library.Word"
begin

text \<open>
  The vocabulary the components share: Rust's \<^verbatim>\<open>Result\<close> and the combinators the sources
  use on it, I/O errors, strings as the bytes of their UTF-8 encoding (so that
  \<^term>\<open>length\<close> is Rust's \<^verbatim>\<open>str::len\<close>), the string operations of the standard library the
  sources call, decimal and hexadecimal printing, and big-endian byte strings. The generic
  lemmas here are declared to the simplifier or collected in \<open>result_simps\<close> and
  \<open>byte_simps\<close>.
\<close>

named_theorems result_simps \<open>unfolding of the Result combinators\<close>
named_theorems byte_simps \<open>conversions between numbers and byte strings\<close>

section \<open>Results\<close>

datatype ('a, 'e) result = Ok 'a | Err 'e

type_synonym byte = "8 word"
type_synonym bytes = "byte list"

text \<open>\<open>and_then\<close> is the \<^verbatim>\<open>?\<close> operator: the first error ends the function.\<close>

definition and_then :: "('a, 'e) result \<Rightarrow> ('a \<Rightarrow> ('b, 'e) result) \<Rightarrow> ('b, 'e) result" where
  "and_then r f = (case r of Ok x \<Rightarrow> f x | Err e \<Rightarrow> Err e)"

definition map_err :: "('e \<Rightarrow> 'f) \<Rightarrow> ('a, 'e) result \<Rightarrow> ('a, 'f) result" where
  "map_err f r = (case r of Ok x \<Rightarrow> Ok x | Err e \<Rightarrow> Err (f e))"

definition map_ok :: "('a \<Rightarrow> 'b) \<Rightarrow> ('a, 'e) result \<Rightarrow> ('b, 'e) result" where
  "map_ok f r = (case r of Ok x \<Rightarrow> Ok (f x) | Err e \<Rightarrow> Err e)"

definition ok_or :: "'a option \<Rightarrow> 'e \<Rightarrow> ('a, 'e) result" where
  "ok_or m e = (case m of Some x \<Rightarrow> Ok x | None \<Rightarrow> Err e)"

definition is_ok :: "('a, 'e) result \<Rightarrow> bool" where
  "is_ok r = (case r of Ok _ \<Rightarrow> True | Err _ \<Rightarrow> False)"

text \<open>Fallible \<^verbatim>\<open>collect\<close> of an iterator: left to right, stopping at the first error.\<close>

fun collect_result :: "('a \<Rightarrow> ('b, 'e) result) \<Rightarrow> 'a list \<Rightarrow> ('b list, 'e) result" where
  "collect_result f [] = Ok []"
| "collect_result f (x # xs) =
     (case f x of Err e \<Rightarrow> Err e
      | Ok y \<Rightarrow> (case collect_result f xs of Err e \<Rightarrow> Err e | Ok ys \<Rightarrow> Ok (y # ys)))"

datatype error_kind = InvalidData | InvalidInput | UnexpectedEof | Interrupted | TimedOut | WriteZero | OtherKind

datatype io_error = IoError error_kind string | OsError int

section \<open>Strings\<close>

fun strip_prefix :: "'a list \<Rightarrow> 'a list \<Rightarrow> 'a list option" where
  "strip_prefix [] s = Some s"
| "strip_prefix (p # ps) [] = None"
| "strip_prefix (p # ps) (c # s) = (if p = c then strip_prefix ps s else None)"

fun split_on :: "'a \<Rightarrow> 'a list \<Rightarrow> 'a list list" where
  "split_on d [] = [[]]"
| "split_on d (c # s) =
     (if c = d then [] # split_on d s
      else (case split_on d s of [] \<Rightarrow> [[c]] | w # ws \<Rightarrow> (c # w) # ws))"

fun join :: "'a list \<Rightarrow> 'a list list \<Rightarrow> 'a list" where
  "join sep [] = []"
| "join sep [w] = w"
| "join sep (w # v # ws) = w @ sep @ join sep (v # ws)"

text \<open>\<^verbatim>\<open>trim_start_matches(c)\<close> of a single character.\<close>

definition trim_start_matches :: "'a \<Rightarrow> 'a list \<Rightarrow> 'a list" where
  "trim_start_matches c s = dropWhile (\<lambda>x. x = c) s"

text \<open>
  The UTF-8 encodings of the code points with the \<^verbatim>\<open>White_Space\<close> property, which
  \<^verbatim>\<open>str::trim\<close> removes at both ends. UTF-8 is self-synchronising, so a prefix or suffix of a
  valid string that equals one of these encodings is that character.
\<close>

definition whitespace_encodings :: "string list" where
  "whitespace_encodings =
     map (\<lambda>n. [char_of (n :: nat)]) [9, 10, 11, 12, 13, 32] @
     map (map (\<lambda>n. char_of (n :: nat)))
       ([[0xC2, 0x85], [0xC2, 0xA0], [0xE1, 0x9A, 0x80]] @
        map (\<lambda>n. [0xE2, 0x80, n])
          [0x80, 0x81, 0x82, 0x83, 0x84, 0x85, 0x86, 0x87, 0x88, 0x89, 0x8A, 0xA8, 0xA9, 0xAF] @
        [[0xE2, 0x81, 0x9F], [0xE3, 0x80, 0x80]])"

fun strip_any :: "'a list list \<Rightarrow> 'a list \<Rightarrow> 'a list option" where
  "strip_any [] s = None"
| "strip_any (e # es) s = (case strip_prefix e s of Some r \<Rightarrow> Some r | None \<Rightarrow> strip_any es s)"

text \<open>Each round removes at least one character, so the length of the string is enough fuel.\<close>

fun strip_all :: "nat \<Rightarrow> 'a list list \<Rightarrow> 'a list \<Rightarrow> 'a list" where
  "strip_all 0 es s = s"
| "strip_all (Suc n) es s = (case strip_any es s of Some r \<Rightarrow> strip_all n es r | None \<Rightarrow> s)"

definition trim_start :: "string \<Rightarrow> string" where
  "trim_start s = strip_all (length s) whitespace_encodings s"

definition trim_end :: "string \<Rightarrow> string" where
  "trim_end s = rev (strip_all (length s) (map rev whitespace_encodings) (rev s))"

definition trim :: "string \<Rightarrow> string" where
  "trim s = trim_end (trim_start s)"

definition code :: "char \<Rightarrow> nat" where
  "code c = of_char c"

definition is_ascii_digit :: "char \<Rightarrow> bool" where
  "is_ascii_digit c \<longleftrightarrow> 48 \<le> code c \<and> code c \<le> 57"

definition is_ascii_alphanumeric :: "char \<Rightarrow> bool" where
  "is_ascii_alphanumeric c \<longleftrightarrow>
     is_ascii_digit c \<or> (65 \<le> code c \<and> code c \<le> 90) \<or> (97 \<le> code c \<and> code c \<le> 122)"

section \<open>Numbers in decimal and hexadecimal\<close>

definition digit_char :: "nat \<Rightarrow> char" where
  "digit_char d = char_of (if d < 10 then 48 + d else 87 + d)"

fun radix_str :: "nat \<Rightarrow> nat \<Rightarrow> string" where
  "radix_str b n =
     (if b < 2 \<or> n < b then [digit_char n] else radix_str b (n div b) @ [digit_char (n mod b)])"

declare radix_str.simps [simp del]

abbreviation dec_str :: "nat \<Rightarrow> string" where
  "dec_str \<equiv> radix_str 10"

abbreviation hex_str :: "nat \<Rightarrow> string" where
  "hex_str \<equiv> radix_str 16"

definition int_str :: "int \<Rightarrow> string" where
  "int_str i = (if i < 0 then ''-'' @ dec_str (nat (- i)) else dec_str (nat i))"

definition digit_value :: "char \<Rightarrow> nat" where
  "digit_value c = code c - 48"

text \<open>The number a string of decimal digits denotes.\<close>

definition dec_value :: "string \<Rightarrow> nat" where
  "dec_value s = foldl (\<lambda>n c. 10 * n + digit_value c) 0 s"

text \<open>
  \<^verbatim>\<open>str::parse\<close> of an unsigned integer type with largest value \<open>m\<close>: an optional plus sign,
  then at least one digit, and no overflow.
\<close>

definition parse_uint :: "nat \<Rightarrow> string \<Rightarrow> nat option" where
  "parse_uint m s =
     (let ds = (if s \<noteq> [] \<and> hd s = CHR ''+'' then tl s else s)
      in if ds \<noteq> [] \<and> list_all is_ascii_digit ds \<and> dec_value ds \<le> m
         then Some (dec_value ds) else None)"

section \<open>Big-endian byte strings\<close>

definition be_nat :: "bytes \<Rightarrow> nat" where
  "be_nat bs = foldl (\<lambda>n b. 256 * n + unat b) 0 bs"

fun nat_be :: "nat \<Rightarrow> nat \<Rightarrow> bytes" where
  "nat_be 0 n = []"
| "nat_be (Suc k) n = nat_be k (n div 256) @ [of_nat (n mod 256)]"

section \<open>Lemmas\<close>

lemma and_then_simps [simp, result_simps]:
  "and_then (Ok x) f = f x" "and_then (Err e) f = Err e"
  by (simp_all add: and_then_def)

lemma and_then_eq_Ok [result_simps]: "and_then r f = Ok y \<longleftrightarrow> (\<exists>x. r = Ok x \<and> f x = Ok y)"
  by (cases r) auto

lemma and_then_eq_Err [result_simps]:
  "and_then r f = Err e \<longleftrightarrow> r = Err e \<or> (\<exists>x. r = Ok x \<and> f x = Err e)"
  by (cases r) auto

lemma and_then_unit_Ok: "and_then r f = Ok y \<longleftrightarrow> r = Ok () \<and> f () = Ok y"
  by (cases r) auto

lemma map_err_simps [simp]: "map_err f (Ok x) = Ok x" "map_err f (Err e) = Err (f e)"
  by (simp_all add: map_err_def)

lemma map_err_eq_Ok [simp]: "map_err f r = Ok x \<longleftrightarrow> r = Ok x"
  by (cases r) auto

lemma map_ok_simps [simp]: "map_ok f (Ok x) = Ok (f x)" "map_ok f (Err e) = Err e"
  by (simp_all add: map_ok_def)

lemma ok_or_simps [simp]: "ok_or (Some x) e = Ok x" "ok_or None e = Err e"
  by (simp_all add: ok_or_def)

lemma is_ok_simps [simp]: "is_ok (Ok x)" "\<not> is_ok (Err e)"
  by (simp_all add: is_ok_def)

lemma is_ok_iff: "is_ok r \<longleftrightarrow> (\<exists>x. r = Ok x)"
  by (cases r) auto

lemma collect_result_Ok_iff:
  "collect_result f xs = Ok ys \<longleftrightarrow> list_all2 (\<lambda>x y. f x = Ok y) xs ys"
proof (induction xs arbitrary: ys)
  case (Cons x xs)
  show ?case by (auto simp: list_all2_Cons1 Cons.IH [symmetric] split: result.splits)
qed auto

lemma collect_result_Err_iff:
  "collect_result f xs = Err e \<longleftrightarrow>
     (\<exists>us x vs. xs = us @ x # vs \<and> (\<forall>u \<in> set us. is_ok (f u)) \<and> f x = Err e)"
proof (induction xs)
  case (Cons a xs)
  show ?case (is "?l = ?r")
  proof (cases "f a")
    case (Err e')
    have "?r \<longleftrightarrow> e' = e"
    proof
      assume ?r
      then show "e' = e" using Err by (auto simp: Cons_eq_append_conv)
    next
      assume "e' = e"
      with Err have "a # xs = [] @ a # xs \<and> (\<forall>u \<in> set []. is_ok (f u)) \<and> f a = Err e" by simp
      then show ?r by blast
    qed
    with Err show ?thesis by simp
  next
    case (Ok y)
    have "?l \<longleftrightarrow> collect_result f xs = Err e"
      using Ok by (auto split: result.splits)
    moreover have "?r \<longleftrightarrow> (\<exists>us x vs. xs = us @ x # vs \<and> (\<forall>u \<in> set us. is_ok (f u)) \<and> f x = Err e)"
      (is "_ \<longleftrightarrow> ?s")
    proof
      assume ?r
      then obtain us x vs where *: "a # xs = us @ x # vs" "\<forall>u \<in> set us. is_ok (f u)" "f x = Err e"
        by blast
      with Ok obtain us' where "us = a # us'" by (cases us) auto
      with * show ?s by auto
    next
      assume ?s
      then obtain us x vs where "xs = us @ x # vs" "\<forall>u \<in> set us. is_ok (f u)" "f x = Err e"
        by blast
      with Ok have "a # xs = (a # us) @ x # vs \<and> (\<forall>u \<in> set (a # us). is_ok (f u)) \<and> f x = Err e"
        by simp
      then show ?r by blast
    qed
    ultimately show ?thesis using Cons.IH by simp
  qed
qed simp


subsection \<open>Splitting, joining and trimming\<close>

lemma strip_prefix_eq_Some [simp]: "strip_prefix p s = Some r \<longleftrightarrow> s = p @ r"
  by (induction p s rule: strip_prefix.induct) auto

lemma strip_prefix_eq_None: "strip_prefix p s = None \<longleftrightarrow> (\<nexists>r. s = p @ r)"
  by (metis not_None_eq strip_prefix_eq_Some)

lemma strip_prefix_append [simp]: "strip_prefix p (p @ s) = Some s"
  by simp

lemma split_on_not_Nil [simp]: "split_on d s \<noteq> []"
  by (cases s) (auto split: list.splits)

lemma split_on_free: "d \<notin> set s \<Longrightarrow> split_on d s = [s]"
  by (induction s) auto

lemma split_on_append: "d \<notin> set w \<Longrightarrow> split_on d (w @ d # s) = w # split_on d s"
  by (induction w) auto

lemma split_on_parts_free: "w \<in> set (split_on d s) \<Longrightarrow> d \<notin> set w"
  by (induction s arbitrary: w) (auto split: if_splits list.splits)

lemma join_Cons: "ws \<noteq> [] \<Longrightarrow> join sep (w # ws) = w @ sep @ join sep ws"
  by (cases ws) auto

lemma join_split_on: "join [d] (split_on d s) = s"
proof (induction s)
  case (Cons c s)
  obtain w ws where "split_on d s = w # ws"
    by (cases "split_on d s") auto
  with Cons show ?case by (cases ws) auto
qed simp

lemma split_on_join:
  "ws \<noteq> [] \<Longrightarrow> (\<And>w. w \<in> set ws \<Longrightarrow> d \<notin> set w) \<Longrightarrow> split_on d (join [d] ws) = ws"
proof (induction ws)
  case (Cons w ws)
  then show ?case by (cases ws) (auto simp: split_on_append split_on_free)
qed simp

lemma set_join_subset: "set (join sep ws) \<subseteq> set sep \<union> (\<Union>w \<in> set ws. set w)"
  by (induction sep ws rule: join.induct) auto

lemma strip_any_SomeD: "strip_any es s = Some r \<Longrightarrow> \<exists>e \<in> set es. s = e @ r"
  by (induction es) (auto split: option.splits)

lemma strip_any_None_iff: "strip_any es s = None \<longleftrightarrow> (\<forall>e \<in> set es. \<nexists>r. s = e @ r)"
proof (induction es)
  case (Cons e es)
  show ?case
  proof (cases "strip_prefix e s")
    case None
    moreover from None have "\<nexists>r. s = e @ r" by (simp add: strip_prefix_eq_None)
    ultimately show ?thesis using Cons by simp
  qed auto
qed simp

lemma strip_all_suffix: "\<exists>p. s = p @ strip_all n es s"
proof (induction n arbitrary: s)
  case (Suc n)
  show ?case
  proof (cases "strip_any es s")
    case (Some r)
    obtain p where "r = p @ strip_all n es r" using Suc by blast
    moreover obtain e where "s = e @ r" using strip_any_SomeD [OF Some] by blast
    ultimately have "s = (e @ p) @ strip_all n es r" by simp
    with Some show ?thesis by auto
  qed simp
qed simp

text \<open>With the length of the string as fuel no encoding is left at the front.\<close>

lemma strip_all_complete:
  assumes "[] \<notin> set es" and "length s \<le> n"
  shows "strip_any es (strip_all n es s) = None"
  using assms(2)
proof (induction n arbitrary: s)
  case 0
  then have "s = []" by simp
  with assms(1) show ?case by (auto simp: strip_any_None_iff)
next
  case (Suc n)
  show ?case
  proof (cases "strip_any es s")
    case (Some r)
    then obtain e where "e \<in> set es" "s = e @ r" using strip_any_SomeD by blast
    with assms(1) Suc.prems have "length r \<le> n" by (cases e) auto
    with Some Suc.IH show ?thesis by simp
  qed simp
qed

lemma set_trim_start: "set (trim_start s) \<subseteq> set s"
  unfolding trim_start_def by (metis strip_all_suffix set_append Un_upper2)

lemma set_trim_end: "set (trim_end s) \<subseteq> set s"
  unfolding trim_end_def by (metis strip_all_suffix set_append set_rev Un_upper2)

lemma trim_start_matches_hd: "trim_start_matches c s = x # r \<Longrightarrow> x \<noteq> c"
  by (auto simp: trim_start_matches_def dropWhile_eq_Cons_conv)

lemmas trim_eval = trim_def trim_start_def trim_end_def whitespace_encodings_def char_of_def bit_0
  trim_start_matches_def

subsection \<open>Numbers\<close>

lemma code_char_of [simp]: "n < 256 \<Longrightarrow> code (char_of n) = n"
  by (simp add: code_def)

lemma code_inject: "code c = code d \<longleftrightarrow> c = d"
  by (auto simp: code_def)

lemma digit_char_is_digit [simp]: "d < 10 \<Longrightarrow> is_ascii_digit (digit_char d)"
  by (simp add: is_ascii_digit_def digit_char_def)

lemma digit_value_digit_char [simp]: "d < 10 \<Longrightarrow> digit_value (digit_char d) = d"
  by (simp add: digit_value_def digit_char_def)

lemma digit_char_digit_value [simp]: "is_ascii_digit c \<Longrightarrow> digit_char (digit_value c) = c"
  by (auto simp: is_ascii_digit_def digit_char_def digit_value_def code_def)

lemma digit_value_bound: "is_ascii_digit c \<Longrightarrow> digit_value c < 10"
  by (auto simp: is_ascii_digit_def digit_value_def)

lemma dec_value_Nil [simp]: "dec_value [] = 0"
  by (simp add: dec_value_def)

lemma dec_value_snoc [simp]: "dec_value (s @ [c]) = 10 * dec_value s + digit_value c"
  by (simp add: dec_value_def)

lemma radix_str_less: "2 \<le> b \<Longrightarrow> n < b \<Longrightarrow> radix_str b n = [digit_char n]"
  by (subst radix_str.simps) simp

lemma radix_str_step:
  "2 \<le> b \<Longrightarrow> b \<le> n \<Longrightarrow> radix_str b n = radix_str b (n div b) @ [digit_char (n mod b)]"
  by (subst radix_str.simps) simp

lemma radix_str_not_Nil [simp]: "radix_str b n \<noteq> []"
  by (subst radix_str.simps) simp

lemma dec_str_digits: "list_all is_ascii_digit (dec_str n)"
proof (induction n rule: less_induct)
  case (less n)
  show ?case
    by (cases "n < 10") (simp_all add: radix_str_less radix_str_step less)
qed

lemma dec_value_dec_str [simp]: "dec_value (dec_str n) = n"
proof (induction n rule: less_induct)
  case (less n)
  show ?case
  proof (cases "n < 10")
    case True
    then show ?thesis
      using dec_value_snoc [of "[]"] by (simp add: radix_str_less)
  next
    case False
    then show ?thesis by (simp add: radix_str_step less)
  qed
qed

lemma dec_str_inject: "dec_str m = dec_str n \<longleftrightarrow> m = n"
  by (metis dec_value_dec_str)

lemma dec_str_no_leading_zero: "0 < n \<Longrightarrow> hd (dec_str n) \<noteq> CHR ''0''"
proof (induction n rule: less_induct)
  case (less n)
  show ?case
  proof (cases "n < 10")
    case True
    have "digit_value (CHR ''0'') = 0" by (simp add: digit_value_def code_def)
    moreover have "digit_value (digit_char n) = n" using True by simp
    ultimately have "digit_char n \<noteq> CHR ''0''" using less.prems by force
    then show ?thesis using True by (simp add: radix_str_less)
  next
    case False
    then show ?thesis using less by (simp add: radix_str_step)
  qed
qed

lemma dec_str_length: "n < 10 ^ k \<Longrightarrow> 0 < k \<Longrightarrow> length (dec_str n) \<le> k"
proof (induction k arbitrary: n)
  case (Suc k)
  show ?case
  proof (cases "n < 10")
    case True
    then show ?thesis by (simp add: radix_str_less)
  next
    case False
    then have "0 < k" using Suc.prems by (cases k) auto
    moreover have "n div 10 < 10 ^ k" using Suc.prems by (simp add: less_mult_imp_div_less mult.commute)
    ultimately show ?thesis using False Suc.IH by (simp add: radix_str_step)
  qed
qed simp

lemma digit_value_zero: "is_ascii_digit c \<Longrightarrow> digit_value c = 0 \<longleftrightarrow> c = CHR ''0''"
  using code_inject [of c "CHR ''0''"] by (auto simp: is_ascii_digit_def digit_value_def code_def)

lemma dec_value_pos: "list_all is_ascii_digit s \<Longrightarrow> s \<noteq> [] \<Longrightarrow> hd s \<noteq> CHR ''0'' \<Longrightarrow> 0 < dec_value s"
proof (induction s rule: rev_induct)
  case (snoc c s)
  then show ?case using dec_value_snoc [of s c] by (cases "s = []") (auto simp: digit_value_zero simp flip: neq0_conv)
qed simp

lemma dec_str_dec_value:
  "list_all is_ascii_digit s \<Longrightarrow> s \<noteq> [] \<Longrightarrow> hd s \<noteq> CHR ''0'' \<Longrightarrow> dec_str (dec_value s) = s"
proof (induction s rule: rev_induct)
  case (snoc c s)
  have c: "digit_value c < 10" "digit_char (digit_value c) = c"
    using snoc.prems by (simp_all add: digit_value_bound)
  show ?case
  proof (cases "s = []")
    case True
    then show ?thesis using c dec_value_snoc [of "[]" c] by (simp add: radix_str_less)
  next
    case False
    then have "0 < dec_value s" using snoc.prems by (simp add: dec_value_pos)
    then show ?thesis using False snoc c by (simp add: radix_str_step)
  qed
qed simp

lemma dec_value_zeros: "dec_value (CHR ''0'' # s) = dec_value s"
  by (simp add: dec_value_def digit_value_def code_def)

lemma dec_value_trim_zeros: "dec_value (trim_start_matches (CHR ''0'') s) = dec_value s"
  by (induction s) (simp_all add: trim_start_matches_def dec_value_zeros)

text \<open>Dropping leading zeros, but not the last one, gives the decimal text of the number.\<close>

lemma trim_zeros_dec_str:
  assumes "list_all is_ascii_digit s"
  shows "(let t = trim_start_matches (CHR ''0'') s in if t = [] then ''0'' else t) = dec_str (dec_value s)"
proof (cases "trim_start_matches (CHR ''0'') s")
  case Nil
  then have "dec_value s = 0" using dec_value_trim_zeros [of s] by simp
  then show ?thesis
    using Nil digit_char_digit_value [of "CHR ''0''"]
    by (simp add: radix_str_less is_ascii_digit_def digit_value_def code_def)
next
  case (Cons x r)
  have "list_all is_ascii_digit (trim_start_matches (CHR ''0'') s)"
    using assms by (auto simp: list_all_iff trim_start_matches_def dest: set_dropWhileD)
  then show ?thesis
    using Cons trim_start_matches_hd [OF Cons] dec_str_dec_value [of "x # r"] dec_value_trim_zeros [of s] by simp
qed

subsection \<open>Bytes\<close>

lemma unat_byte_bound: "unat (b :: byte) < 256"
  using unsigned_less [of b] by simp

lemma be_nat_Nil [simp]: "be_nat [] = 0"
  by (simp add: be_nat_def)

lemma be_nat_snoc [simp]: "be_nat (bs @ [b]) = 256 * be_nat bs + unat b"
  by (simp add: be_nat_def)

lemma length_nat_be [simp]: "length (nat_be k n) = k"
  by (induction k arbitrary: n) auto

lemma be_nat_bound: "be_nat bs < 256 ^ length bs"
proof (induction bs rule: rev_induct)
  case (snoc b bs)
  have "unat b < 256" by (rule unat_byte_bound)
  with snoc show ?case by simp
qed simp

lemma be_nat_nat_be [byte_simps]: "be_nat (nat_be k n) = n mod 256 ^ k"
proof (induction k arbitrary: n)
  case (Suc k)
  have "unat (of_nat (n mod 256) :: byte) = n mod 256"
    by (simp add: unat_of_nat)
  then show ?case
    using Suc [of "n div 256"] by (simp add: mod_mult2_eq [of n 256 "256 ^ k"])
qed simp

lemma nat_be_be_nat [byte_simps]: "nat_be (length bs) (be_nat bs) = bs"
proof (induction bs rule: rev_induct)
  case (snoc b bs)
  have "unat b < 256" by (rule unat_byte_bound)
  then have "(256 * be_nat bs + unat b) div 256 = be_nat bs"
    and "(256 * be_nat bs + unat b) mod 256 = unat b" by auto
  with snoc show ?case by simp
qed simp

subsection \<open>Transition systems\<close>

text \<open>Reachability of a step relation, invariants, and simulation of a specification.\<close>

locale transition_system =
  fixes init :: 's
    and step :: "'s \<Rightarrow> 's \<Rightarrow> bool"
begin

definition reachable :: "'s \<Rightarrow> bool" where
  "reachable s \<longleftrightarrow> step\<^sup>*\<^sup>* init s"

lemma reachable_init: "reachable init"
  by (simp add: reachable_def)

lemma reachable_step: "reachable s \<Longrightarrow> step s s' \<Longrightarrow> reachable s'"
  by (simp add: reachable_def rtranclp.rtrancl_into_rtrancl)

end

locale invariant = transition_system init step
  for init :: 's and step :: "'s \<Rightarrow> 's \<Rightarrow> bool" +
  fixes inv :: "'s \<Rightarrow> bool"
  assumes inv_init: "inv init"
    and inv_step: "inv s \<Longrightarrow> step s s' \<Longrightarrow> inv s'"
begin

lemma inv_steps: "step\<^sup>*\<^sup>* s s' \<Longrightarrow> inv s \<Longrightarrow> inv s'"
  by (induction rule: rtranclp_induct) (auto intro: inv_step)

lemma reachable_inv: "reachable s \<Longrightarrow> inv s"
  using inv_steps inv_init by (simp add: reachable_def)

end

locale simulation = invariant init step inv
  for init :: 's and step :: "'s \<Rightarrow> 's \<Rightarrow> bool" and inv :: "'s \<Rightarrow> bool" +
  fixes spec :: "'a \<Rightarrow> 'a \<Rightarrow> bool"
    and abs :: "'s \<Rightarrow> 'a"
  assumes simulates: "inv s \<Longrightarrow> step s s' \<Longrightarrow> spec (abs s) (abs s')"
begin

lemma spec_steps: "step\<^sup>*\<^sup>* s s' \<Longrightarrow> inv s \<Longrightarrow> spec\<^sup>*\<^sup>* (abs s) (abs s')"
proof (induction rule: rtranclp_induct)
  case (step s' s'')
  then have "inv s'" using inv_steps by blast
  with step show ?case by (meson rtranclp.rtrancl_into_rtrancl simulates)
qed simp

lemma reachable_spec: "step\<^sup>*\<^sup>* init s \<Longrightarrow> spec\<^sup>*\<^sup>* (abs init) (abs s)"
  using spec_steps inv_init by blast

end

end
