(* ===== verification/Ip_Util.thy ===== *)
theory Ip_Util
  imports Prelude
begin

text \<open>
  IP addresses: the protobuf messages \<^verbatim>\<open>Ip\<close> and \<^verbatim>\<open>Cidr\<close> of ip_addr.proto, the standard
  library's \<^verbatim>\<open>IpAddr\<close> with its \<^verbatim>\<open>Display\<close>, and the conversions of ip_util.rs. A panic
  (\<^verbatim>\<open>expect\<close>) is the value \<^term>\<open>None\<close>.
\<close>

section \<open>Definitions\<close>

datatype ip_value = V4 bytes | V6 bytes

record proto_ip =
  ip_value :: "ip_value option"

record cidr =
  cidr_ip :: "proto_ip option"
  cidr_prefix :: "32 word"

datatype ip_addr = IpV4 "32 word" | IpV6 "128 word"

fun is_ipv4 :: "ip_addr \<Rightarrow> bool" where
  "is_ipv4 (IpV4 _) = True"
| "is_ipv4 (IpV6 _) = False"

fun is_ipv6 :: "ip_addr \<Rightarrow> bool" where
  "is_ipv6 (IpV4 _) = False"
| "is_ipv6 (IpV6 _) = True"

fun octets :: "ip_addr \<Rightarrow> bytes" where
  "octets (IpV4 w) = nat_be 4 (unat w)"
| "octets (IpV6 w) = nat_be 16 (unat w)"

definition parse_proto_ip :: "proto_ip \<Rightarrow> ip_addr option" where
  "parse_proto_ip addr =
     (case ip_value addr of
        None \<Rightarrow> None
      | Some (V4 bs) \<Rightarrow> (if length bs = 4 then Some (IpV4 (of_nat (be_nat bs))) else None)
      | Some (V6 bs) \<Rightarrow> (if length bs = 16 then Some (IpV6 (of_nat (be_nat bs))) else None))"

definition parse_proto_cidr :: "cidr \<Rightarrow> (ip_addr \<times> 32 word) option" where
  "parse_proto_cidr addr =
     (case cidr_ip addr of
        None \<Rightarrow> None
      | Some i \<Rightarrow> (case parse_proto_ip i of None \<Rightarrow> None | Some a \<Rightarrow> Some (a, cidr_prefix addr)))"

subsection \<open>Display\<close>

definition ipv4_str :: "bytes \<Rightarrow> string" where
  "ipv4_str bs = join ''.'' (map (\<lambda>b. dec_str (unat b)) bs)"

fun segments :: "bytes \<Rightarrow> nat list" where
  "segments (a # b # bs) = (256 * unat a + unat b) # segments bs"
| "segments _ = []"

text \<open>
  The run of zero segments that \<^verbatim>\<open>::\<close> replaces: the first of the longest runs. The scan
  keeps the longest run so far and the current run, as (start, length) pairs.
\<close>

fun zero_span :: "nat \<Rightarrow> nat \<times> nat \<Rightarrow> nat \<times> nat \<Rightarrow> nat list \<Rightarrow> nat \<times> nat" where
  "zero_span i longest current [] = longest"
| "zero_span i longest current (s # ss) =
     (if s = 0
      then let current' = (if snd current = 0 then (i, 1) else (fst current, Suc (snd current)));
               longest' = (if snd current' > snd longest then current' else longest)
           in zero_span (Suc i) longest' current' ss
      else zero_span (Suc i) longest (0, 0) ss)"

definition fmt_segments :: "nat list \<Rightarrow> string" where
  "fmt_segments ss = join '':'' (map hex_str ss)"

definition ipv6_str :: "bytes \<Rightarrow> string" where
  "ipv6_str bs =
     (if take 12 bs = replicate 10 0 @ [255, 255] then ''::ffff:'' @ ipv4_str (drop 12 bs)
      else let ss = segments bs; (start, len) = zero_span 0 (0, 0) (0, 0) ss
           in if len > 1 then fmt_segments (take start ss) @ ''::'' @ fmt_segments (drop (start + len) ss)
              else fmt_segments ss)"

fun ip_to_string :: "ip_addr \<Rightarrow> string" where
  "ip_to_string (IpV4 w) = ipv4_str (nat_be 4 (unat w))"
| "ip_to_string (IpV6 w) = ipv6_str (nat_be 16 (unat w))"

definition proto_ip_to_string :: "proto_ip \<Rightarrow> string option" where
  "proto_ip_to_string addr = map_option ip_to_string (parse_proto_ip addr)"

definition proto_cidr_to_string :: "cidr \<Rightarrow> string option" where
  "proto_cidr_to_string addr =
     map_option (\<lambda>(ip, prefix). ip_to_string ip @ ''/'' @ dec_str (unat prefix)) (parse_proto_cidr addr)"

text \<open>\<^verbatim>\<open>u8::try_from\<close> of a \<^verbatim>\<open>u32\<close>.\<close>

definition u8_try_from :: "32 word \<Rightarrow> byte option" where
  "u8_try_from w = (if unat w \<le> 255 then Some (ucast w) else None)"

text \<open>The number of bits of an address of the family, which is the prefix length of a host route.\<close>

definition host_prefix :: "ip_addr \<Rightarrow> nat" where
  "host_prefix ip = (if is_ipv4 ip then 32 else 128)"

text \<open>The message that carries an address.\<close>

fun proto_of_ip :: "ip_addr \<Rightarrow> proto_ip" where
  "proto_of_ip (IpV4 w) = \<lparr>ip_value = Some (V4 (octets (IpV4 w)))\<rparr>"
| "proto_of_ip (IpV6 w) = \<lparr>ip_value = Some (V6 (octets (IpV6 w)))\<rparr>"

section \<open>Lemmas\<close>

lemma is_ipv6_iff [simp]: "is_ipv6 ip \<longleftrightarrow> \<not> is_ipv4 ip"
  by (cases ip) auto

lemma of_nat_be_nat_octets:
  "(of_nat (be_nat (nat_be 4 (unat w))) :: 32 word) = w"
  "(of_nat (be_nat (nat_be 16 (unat v))) :: 128 word) = v"
proof -
  have "unat w < 256 ^ 4" using unsigned_less [of w] by simp
  then show "(of_nat (be_nat (nat_be 4 (unat w))) :: 32 word) = w"
    by (simp add: be_nat_nat_be)
  have "unat v < 256 ^ 16" using unsigned_less [of v] by simp
  then show "(of_nat (be_nat (nat_be 16 (unat v))) :: 128 word) = v"
    by (simp add: be_nat_nat_be)
qed

lemma parse_proto_of_ip [simp]: "parse_proto_ip (proto_of_ip ip) = Some ip"
  by (cases ip) (simp_all add: parse_proto_ip_def of_nat_be_nat_octets)

lemma octets_of_be_nat:
  "length bs = 4 \<Longrightarrow> octets (IpV4 (of_nat (be_nat bs))) = bs"
  "length bs = 16 \<Longrightarrow> octets (IpV6 (of_nat (be_nat bs))) = bs"
  using be_nat_bound [of bs] nat_be_be_nat [of bs] by (simp_all add: unat_of_nat)

lemma parse_proto_ip_eq_Some:
  "parse_proto_ip addr = Some ip \<longleftrightarrow>
     (case ip of IpV4 _ \<Rightarrow> ip_value addr = Some (V4 (octets ip))
      | IpV6 _ \<Rightarrow> ip_value addr = Some (V6 (octets ip)))"
proof
  assume "parse_proto_ip addr = Some ip"
  then show "case ip of IpV4 _ \<Rightarrow> ip_value addr = Some (V4 (octets ip))
      | IpV6 _ \<Rightarrow> ip_value addr = Some (V6 (octets ip))"
    by (auto simp: parse_proto_ip_def octets_of_be_nat [unfolded octets.simps]
        split: option.splits ip_value.splits if_splits)
next
  assume *: "case ip of IpV4 _ \<Rightarrow> ip_value addr = Some (V4 (octets ip))
      | IpV6 _ \<Rightarrow> ip_value addr = Some (V6 (octets ip))"
  have "addr = proto_of_ip ip"
    using * by (cases ip; cases addr) auto
  then show "parse_proto_ip addr = Some ip" by simp
qed

lemma parse_proto_ip_iff: "parse_proto_ip addr = Some ip \<longleftrightarrow> addr = proto_of_ip ip"
  by (cases ip; cases addr) (auto simp: parse_proto_ip_eq_Some)

lemma proto_of_ip_inject [simp]: "proto_of_ip a = proto_of_ip b \<longleftrightarrow> a = b"
  by (metis parse_proto_of_ip option.inject)

lemma parse_proto_cidr_eq_Some:
  "parse_proto_cidr c = Some (ip, p) \<longleftrightarrow> c = \<lparr>cidr_ip = Some (proto_of_ip ip), cidr_prefix = p\<rparr>"
  by (cases c) (auto simp: parse_proto_cidr_def parse_proto_ip_iff split: option.splits)

subsection \<open>The characters of a printed address\<close>

definition ip_chars :: "char set" where
  "ip_chars = {c. is_ascii_digit c \<or> (97 \<le> code c \<and> code c \<le> 102)} \<union> {CHR ''.'', CHR '':''}"

lemma digit_char_ip_chars: "d < 16 \<Longrightarrow> digit_char d \<in> ip_chars"
  by (auto simp: ip_chars_def digit_char_def is_ascii_digit_def)

lemma radix_str_ip_chars: "2 \<le> b \<Longrightarrow> b \<le> 16 \<Longrightarrow> set (radix_str b n) \<subseteq> ip_chars"
proof (induction n rule: less_induct)
  case (less n)
  show ?case
  proof (cases "n < b")
    case True
    then show ?thesis using less.prems by (simp add: radix_str_less digit_char_ip_chars)
  next
    case False
    moreover have "n mod b < 16"
      using less.prems mod_less_divisor [of b n] by linarith
    moreover have "set (radix_str b (n div b)) \<subseteq> ip_chars"
      using less False by simp
    ultimately show ?thesis
      using less.prems by (simp add: radix_str_step digit_char_ip_chars)
  qed
qed

lemma join_ip_chars:
  "set sep \<subseteq> ip_chars \<Longrightarrow> (\<And>w. w \<in> set ws \<Longrightarrow> set w \<subseteq> ip_chars) \<Longrightarrow> set (join sep ws) \<subseteq> ip_chars"
  using set_join_subset [of sep ws] by blast

lemma ipv4_str_ip_chars: "set (ipv4_str bs) \<subseteq> ip_chars"
  unfolding ipv4_str_def
  by (rule join_ip_chars) (auto simp: ip_chars_def dest: radix_str_ip_chars [THEN subsetD, rotated 2])

lemma fmt_segments_ip_chars: "set (fmt_segments ss) \<subseteq> ip_chars"
  unfolding fmt_segments_def
  by (rule join_ip_chars) (auto simp: ip_chars_def dest: radix_str_ip_chars [THEN subsetD, rotated 2])

lemma ipv6_str_ip_chars: "set (ipv6_str bs) \<subseteq> ip_chars"
proof -
  have "set ''::ffff:'' \<subseteq> ip_chars" "set ''::'' \<subseteq> ip_chars"
    by (auto simp: ip_chars_def code_def is_ascii_digit_def)
  then show ?thesis
    using ipv4_str_ip_chars fmt_segments_ip_chars
    unfolding ipv6_str_def Let_def by (simp add: case_prod_unfold)
qed

lemma ip_to_string_ip_chars: "set (ip_to_string ip) \<subseteq> ip_chars"
  by (cases ip) (simp_all add: ipv4_str_ip_chars ipv6_str_ip_chars)

end
