(* ===== verification/Validation.thy ===== *)
theory Validation
  imports Ip_Util
begin

text \<open>
  The session configuration message (tun_session_config.proto, dns_config.proto) and its
  validation, validation.rs. \<open>target_os\<close> is the platform the daemon is compiled for, which
  the sources select with \<^verbatim>\<open>cfg(target_os = ...)\<close>. The three validation loops that report an
  index share the contract of the locale \<open>indexed_check\<close>; \<open>valid_config\<close> is the
  declarative specification that \<open>validate_config\<close> is proved to decide.
\<close>

section \<open>Definitions\<close>

datatype target_os = Linux | Macos | Windows

record dns_config =
  servers :: "proto_ip list"
  search_domains :: "string list"

record tun_session_config =
  interface_name :: string
  mtu :: "32 word"
  addresses :: "cidr list"
  peer_allowed_ips :: "cidr list"
  peer_endpoints :: "proto_ip list"
  dns :: "dns_config option"

definition default_dns :: dns_config where
  "default_dns = \<lparr>servers = [], search_domains = []\<rparr>"

definition MIN_MTU :: int where "MIN_MTU = 576"
definition MIN_IPV6_MTU :: int where "MIN_IPV6_MTU = 1280"
definition MAX_MTU :: int where "MAX_MTU = 65535"
definition MAX_DNS_SERVERS :: nat where "MAX_DNS_SERVERS = 64"
definition MAX_DNS_DOMAINS :: nat where "MAX_DNS_DOMAINS = 64"
definition MAX_ADDRESSES :: nat where "MAX_ADDRESSES = 64"
definition MAX_ROUTES :: nat where "MAX_ROUTES = 256"
definition MAX_INTERFACE_NAME_LENGTH :: nat where "MAX_INTERFACE_NAME_LENGTH = 15"
definition MAX_DOMAIN_LENGTH :: nat where "MAX_DOMAIN_LENGTH = 253"

definition U32_MAX :: nat where "U32_MAX = 2 ^ 32 - 1"

text \<open>A \<^verbatim>\<open>for (idx, x) in xs.iter().enumerate()\<close> loop whose body ends with \<^verbatim>\<open>?\<close>.\<close>

fun for_enumerate :: "(nat \<Rightarrow> 'a \<Rightarrow> (unit, 'e) result) \<Rightarrow> nat \<Rightarrow> 'a list \<Rightarrow> (unit, 'e) result" where
  "for_enumerate body idx [] = Ok ()"
| "for_enumerate body idx (x # xs) =
     and_then (body idx x) (\<lambda>_. for_enumerate body (Suc idx) xs)"

definition interface_name_error :: string where
  "interface_name_error =
     ''interface name must be at most '' @ dec_str MAX_INTERFACE_NAME_LENGTH @
     '' characters and match `utun[0-9]+`''"

definition validate_interface_name :: "target_os \<Rightarrow> string \<Rightarrow> (unit, string) result" where
  "validate_interface_name os name =
     (if length name > MAX_INTERFACE_NAME_LENGTH then Err interface_name_error
      else (case strip_prefix ''utun'' name of
              None \<Rightarrow> Err interface_name_error
            | Some suffix \<Rightarrow>
                if suffix = [] \<or> \<not> list_all is_ascii_digit suffix then Err interface_name_error
                else if os = Macos \<and>
                        (case parse_uint U32_MAX suffix of
                           None \<Rightarrow> True | Some index \<Rightarrow> index + 1 > U32_MAX)
                then Err (''macOS interface index must be between 0 and '' @ dec_str (U32_MAX - 1))
                else Ok ()))"

definition is_supported_interface_name :: "target_os \<Rightarrow> string \<Rightarrow> bool" where
  "is_supported_interface_name os name = is_ok (validate_interface_name os name)"

definition validate_non_empty :: "string \<Rightarrow> cidr list \<Rightarrow> (unit, string) result" where
  "validate_non_empty field_name values =
     (if values = [] then Err (field_name @ '' must contain at least one entry'') else Ok ())"

definition validate_max_count :: "string \<Rightarrow> nat \<Rightarrow> nat \<Rightarrow> (unit, string) result" where
  "validate_max_count field_name count max_count =
     (if count > max_count
      then Err (field_name @ '' supports at most '' @ dec_str max_count @ '' entries (received: '' @ dec_str count @ '')'')
      else Ok ())"

definition validate_max_length :: "string \<Rightarrow> string \<Rightarrow> nat \<Rightarrow> (unit, string) result" where
  "validate_max_length field_name val max_len =
     (if length val > max_len
      then Err (field_name @ '' must be at most '' @ dec_str max_len @ '' characters'')
      else Ok ())"

definition index_str :: "string \<Rightarrow> nat \<Rightarrow> string" where
  "index_str field_name idx = field_name @ ''['' @ dec_str idx @ '']''"

definition validate_cidr :: "string \<Rightarrow> nat \<Rightarrow> cidr \<Rightarrow> (unit, string) result" where
  "validate_cidr field_name idx addr =
     and_then (ok_or (parse_proto_cidr addr) (index_str field_name idx @ '' has an invalid IP address''))
       (\<lambda>(ip, prefix).
          let max_prefix = (if is_ipv4 ip then 32 else 128)
          in if unat prefix > max_prefix
             then Err (index_str field_name idx @ '' prefix must be between 0 and '' @ dec_str max_prefix)
             else Ok ())"

definition validate_cidr_list :: "string \<Rightarrow> cidr list \<Rightarrow> (unit, string) result" where
  "validate_cidr_list field_name values = for_enumerate (validate_cidr field_name) 0 values"

definition validate_mtu_for_addresses :: "32 word \<Rightarrow> cidr list \<Rightarrow> (unit, string) result" where
  "validate_mtu_for_addresses m addrs =
     (if \<not> (MIN_MTU \<le> sint m \<and> sint m \<le> MAX_MTU)
      then Err (''MTU must be between '' @ int_str MIN_MTU @ '' and '' @ int_str MAX_MTU)
      else let has_ipv6 = list_ex (\<lambda>addr. case parse_proto_cidr addr of
                                             Some (ip, _) \<Rightarrow> is_ipv6 ip | None \<Rightarrow> False) addrs
           in if has_ipv6 \<and> sint m < MIN_IPV6_MTU
              then Err (''MTU must be at least '' @ int_str MIN_IPV6_MTU @ '' when IPv6 addresses are configured'')
              else Ok ())"

definition is_valid_label :: "string \<Rightarrow> bool" where
  "is_valid_label label =
     (if label = [] \<or> length label > 63 then False
      else if hd label = CHR ''-'' \<or> last label = CHR ''-'' then False
      else list_all (\<lambda>b. is_ascii_alphanumeric b \<or> b = CHR ''-'') label)"

definition is_valid_hostname :: "string \<Rightarrow> bool" where
  "is_valid_hostname domain =
     (if domain = [] \<or> length domain > MAX_DOMAIN_LENGTH then False
      else list_all is_valid_label (split_on (CHR ''.'') domain))"

text \<open>What a search domain stands for once white space and leading dots are dropped.\<close>

definition bare_domain :: "string \<Rightarrow> string" where
  "bare_domain domain = trim_start_matches (CHR ''.'') (trim domain)"

definition validate_domain :: "nat \<Rightarrow> string \<Rightarrow> (unit, string) result" where
  "validate_domain idx domain =
     and_then (validate_max_length (index_str ''dns.searchDomains'' idx) domain MAX_DOMAIN_LENGTH)
       (\<lambda>_. let domain = bare_domain domain
            in if domain = [] \<or> \<not> is_valid_hostname domain
               then Err (index_str ''dns.searchDomains'' idx @ '' must be a valid hostname'')
               else Ok ())"

definition validate_server :: "nat \<Rightarrow> proto_ip \<Rightarrow> (unit, string) result" where
  "validate_server idx server =
     (if parse_proto_ip server = None
      then Err (index_str ''dns.servers'' idx @ '' must be a valid IPv4 or IPv6 address'')
      else Ok ())"

definition validate_dns :: "dns_config \<Rightarrow> (unit, string) result" where
  "validate_dns d =
     and_then (validate_max_count ''dns.servers'' (length (servers d)) MAX_DNS_SERVERS) (\<lambda>_.
     and_then (validate_max_count ''dns.searchDomains'' (length (search_domains d)) MAX_DNS_DOMAINS) (\<lambda>_.
     if (search_domains d = [] \<and> servers d \<noteq> []) \<or> (search_domains d \<noteq> [] \<and> servers d = [])
     then Err ''dns must provide both searchDomains and servers, or neither''
     else and_then (for_enumerate validate_domain 0 (search_domains d)) (\<lambda>_.
          for_enumerate validate_server 0 (servers d))))"

definition validate_config :: "target_os \<Rightarrow> tun_session_config \<Rightarrow> (unit, string) result" where
  "validate_config os config =
     and_then (validate_interface_name os (interface_name config)) (\<lambda>_.
     and_then (validate_non_empty ''addresses'' (addresses config)) (\<lambda>_.
     and_then (validate_cidr_list ''addresses'' (addresses config)) (\<lambda>_.
     and_then (validate_max_count ''addresses'' (length (addresses config)) MAX_ADDRESSES) (\<lambda>_.
     and_then (validate_cidr_list ''peer_allowed_ips'' (peer_allowed_ips config)) (\<lambda>_.
     and_then (validate_max_count ''peer_allowed_ips'' (length (peer_allowed_ips config)) MAX_ROUTES) (\<lambda>_.
     and_then (if mtu config \<noteq> 0 then validate_mtu_for_addresses (mtu config) (addresses config) else Ok ()) (\<lambda>_.
     validate_dns (case dns config of Some d \<Rightarrow> d | None \<Rightarrow> default_dns))))))))"

subsection \<open>Specification\<close>

definition valid_interface_name :: "target_os \<Rightarrow> string \<Rightarrow> bool" where
  "valid_interface_name os name \<longleftrightarrow>
     (\<exists>ds. name = ''utun'' @ ds \<and> ds \<noteq> [] \<and> length ds \<le> 11 \<and> (\<forall>c \<in> set ds. is_ascii_digit c) \<and>
           (os = Macos \<longrightarrow> dec_value ds < 2 ^ 32 - 1))"

definition valid_cidr :: "cidr \<Rightarrow> bool" where
  "valid_cidr c \<longleftrightarrow>
     (\<exists>ip p. c = \<lparr>cidr_ip = Some (proto_of_ip ip), cidr_prefix = p\<rparr> \<and> unat p \<le> host_prefix ip)"

definition valid_mtu :: "32 word \<Rightarrow> cidr list \<Rightarrow> bool" where
  "valid_mtu m addrs \<longleftrightarrow>
     m = 0 \<or> (576 \<le> sint m \<and> sint m \<le> 65535 \<and>
       ((\<exists>w p. \<lparr>cidr_ip = Some (proto_of_ip (IpV6 w)), cidr_prefix = p\<rparr> \<in> set addrs) \<longrightarrow> 1280 \<le> sint m))"

text \<open>A host name: labels of letters, digits and inner hyphens, 1 to 63 long, separated by dots.\<close>

definition host_label :: "string \<Rightarrow> bool" where
  "host_label l \<longleftrightarrow>
     1 \<le> length l \<and> length l \<le> 63 \<and> (\<forall>c \<in> set l. is_ascii_alphanumeric c \<or> c = CHR ''-'') \<and>
     hd l \<noteq> CHR ''-'' \<and> last l \<noteq> CHR ''-''"

definition host_name :: "string \<Rightarrow> bool" where
  "host_name s \<longleftrightarrow>
     (\<exists>labels. labels \<noteq> [] \<and> s = join ''.'' labels \<and> (\<forall>l \<in> set labels. host_label l)) \<and> length s \<le> 253"

definition valid_dns :: "dns_config \<Rightarrow> bool" where
  "valid_dns d \<longleftrightarrow>
     length (servers d) \<le> 64 \<and> length (search_domains d) \<le> 64 \<and>
     (servers d = [] \<longleftrightarrow> search_domains d = []) \<and>
     (\<forall>s \<in> set (search_domains d). length s \<le> 253 \<and> host_name (bare_domain s)) \<and>
     (\<forall>s \<in> set (servers d). \<exists>ip. s = proto_of_ip ip)"

definition valid_config :: "target_os \<Rightarrow> tun_session_config \<Rightarrow> bool" where
  "valid_config os config \<longleftrightarrow>
     valid_interface_name os (interface_name config) \<and>
     1 \<le> length (addresses config) \<and> length (addresses config) \<le> 64 \<and>
     (\<forall>c \<in> set (addresses config). valid_cidr c) \<and>
     length (peer_allowed_ips config) \<le> 256 \<and> (\<forall>c \<in> set (peer_allowed_ips config). valid_cidr c) \<and>
     valid_mtu (mtu config) (addresses config) \<and>
     (\<forall>d. dns config = Some d \<longrightarrow> valid_dns d)"

text \<open>A configuration for the examples: one address, a default route through the tunnel, one peer.\<close>

definition sample_config :: tun_session_config where
  "sample_config =
     \<lparr>interface_name = ''utun07'', mtu = 1420,
      addresses = [\<lparr>cidr_ip = Some \<lparr>ip_value = Some (V4 [10, 0, 0, 2])\<rparr>, cidr_prefix = 32\<rparr>],
      peer_allowed_ips = [\<lparr>cidr_ip = Some \<lparr>ip_value = Some (V4 [0, 0, 0, 0])\<rparr>, cidr_prefix = 0\<rparr>,
                          \<lparr>cidr_ip = Some \<lparr>ip_value = Some (V4 [192, 0, 2, 1])\<rparr>, cidr_prefix = 32\<rparr>],
      peer_endpoints = [\<lparr>ip_value = Some (V4 [192, 0, 2, 1])\<rparr>],
      dns = Some \<lparr>servers = [\<lparr>ip_value = Some (V4 [10, 0, 0, 1])\<rparr>], search_domains = ['' .corp'']\<rparr>\<rparr>"

section \<open>Lemmas\<close>

lemmas validation_limits =
  MIN_MTU_def MIN_IPV6_MTU_def MAX_MTU_def MAX_DNS_SERVERS_def MAX_DNS_DOMAINS_def MAX_ADDRESSES_def
  MAX_ROUTES_def MAX_INTERFACE_NAME_LENGTH_def MAX_DOMAIN_LENGTH_def U32_MAX_def

subsection \<open>Indexed loops\<close>

text \<open>
  The contract between a loop and its body: the body accepts exactly the elements that satisfy
  \<open>good\<close>, whatever their index. Then the loop accepts exactly the lists of good elements, and
  otherwise returns the error of the first bad element, with its index.
\<close>

locale indexed_check =
  fixes body :: "nat \<Rightarrow> 'a \<Rightarrow> (unit, string) result"
    and good :: "'a \<Rightarrow> bool"
  assumes body_ok: "body idx x = Ok () \<longleftrightarrow> good x"
begin

lemma loop_ok: "for_enumerate body idx xs = Ok () \<longleftrightarrow> (\<forall>x \<in> set xs. good x)"
proof (induction xs arbitrary: idx)
  case (Cons x xs)
  then show ?case
    using body_ok [of idx x] by (cases "body idx x") auto
qed simp

lemma loop_err_iff:
  "for_enumerate body idx xs = Err e \<longleftrightarrow>
     (\<exists>k < length xs. (\<forall>x \<in> set (take k xs). good x) \<and> body (idx + k) (xs ! k) = Err e)"
proof (induction xs arbitrary: idx)
  case (Cons x xs)
  show ?case (is "?l \<longleftrightarrow> (\<exists>k. ?r k)")
  proof (cases "body idx x")
    case (Ok u)
    then have "good x" using body_ok [of idx x] by simp
    have "(\<exists>k. ?r k) \<longleftrightarrow> (\<exists>k. ?r (Suc k))"
      using Ok by (metis not0_implies_Suc nth_Cons_0 add_0_right result.distinct(1))
    also have "\<dots> \<longleftrightarrow> for_enumerate body (Suc idx) xs = Err e"
      using Cons.IH [of "Suc idx"] \<open>good x\<close> by auto
    finally show ?thesis using Ok by simp
  next
    case (Err e')
    then have "\<not> good x" using body_ok [of idx x] by auto
    then have "?r k \<longleftrightarrow> k = 0 \<and> e' = e" for k
      using Err by (cases k) auto
    with Err show ?thesis by auto
  qed
qed simp

end

lemma valid_cidr_iff:
  "valid_cidr c \<longleftrightarrow> (\<exists>ip p. parse_proto_cidr c = Some (ip, p) \<and> unat p \<le> host_prefix ip)"
  by (simp add: valid_cidr_def parse_proto_cidr_eq_Some)

lemma validate_cidr_ok: "validate_cidr f idx c = Ok () \<longleftrightarrow> valid_cidr c"
proof (cases "parse_proto_cidr c")
  case (Some r)
  obtain ip p where "r = (ip, p)" by (cases r)
  with Some show ?thesis by (auto simp: validate_cidr_def valid_cidr_iff host_prefix_def Let_def)
qed (simp add: validate_cidr_def valid_cidr_iff)

interpretation cidr_check: indexed_check "validate_cidr field_name" valid_cidr for field_name
  by unfold_locales (rule validate_cidr_ok)

lemma validate_server_ok: "validate_server idx s = Ok () \<longleftrightarrow> (\<exists>ip. s = proto_of_ip ip)"
  by (auto simp: validate_server_def parse_proto_ip_iff)

interpretation server_check: indexed_check validate_server "\<lambda>s. \<exists>ip. s = proto_of_ip ip"
  by unfold_locales (rule validate_server_ok)

subsection \<open>Host names\<close>

lemma is_valid_label_iff: "is_valid_label l \<longleftrightarrow> host_label l"
  by (cases l) (auto simp: is_valid_label_def host_label_def list_all_iff)

lemma host_label_no_dot: "host_label l \<Longrightarrow> CHR ''.'' \<notin> set l"
  by (auto simp: host_label_def is_ascii_alphanumeric_def is_ascii_digit_def code_def)

lemma host_label_join_not_Nil: "labels \<noteq> [] \<Longrightarrow> \<forall>l \<in> set labels. host_label l \<Longrightarrow> join ''.'' labels \<noteq> []"
  by (cases labels; cases "tl labels") (auto simp: host_label_def)

lemma is_valid_hostname_labels:
  "is_valid_hostname s \<longleftrightarrow> s \<noteq> [] \<and> length s \<le> 253 \<and> (\<forall>l \<in> set (split_on (CHR ''.'') s). host_label l)"
  by (simp add: is_valid_hostname_def list_all_iff is_valid_label_iff MAX_DOMAIN_LENGTH_def not_less)

lemma is_valid_hostname_iff: "is_valid_hostname s \<longleftrightarrow> host_name s"
proof
  assume "is_valid_hostname s"
  then have "\<forall>l \<in> set (split_on (CHR ''.'') s). host_label l" "length s \<le> 253"
    unfolding is_valid_hostname_labels by blast+
  then show "host_name s"
    unfolding host_name_def
    by (intro conjI exI [of _ "split_on (CHR ''.'') s"]) (simp_all add: join_split_on)
next
  assume "host_name s"
  then obtain labels where l: "labels \<noteq> []" "s = join ''.'' labels" "\<forall>l \<in> set labels. host_label l"
    and "length s \<le> 253"
    unfolding host_name_def by blast
  from l have "split_on (CHR ''.'') s = labels"
    by (simp add: split_on_join host_label_no_dot)
  moreover from l have "s \<noteq> []" by (simp add: host_label_join_not_Nil)
  ultimately show "is_valid_hostname s"
    using l(3) \<open>length s \<le> 253\<close> unfolding is_valid_hostname_labels by simp
qed

lemma host_name_not_Nil: "host_name s \<Longrightarrow> s \<noteq> []"
  by (metis is_valid_hostname_def is_valid_hostname_iff)

lemma host_name_hd: "host_name s \<Longrightarrow> hd s \<noteq> CHR ''-''"
proof -
  assume "host_name s"
  then obtain l ls where "s = join ''.'' (l # ls)" "host_label l"
    unfolding host_name_def by (metis list.exhaust list.set_intros(1))
  then show ?thesis by (cases ls; cases l) (auto simp: host_label_def)
qed

lemma host_name_chars: "host_name s \<Longrightarrow> set s \<subseteq> {c. is_ascii_alphanumeric c \<or> c \<in> {CHR ''-'', CHR ''.''}}"
proof -
  assume "host_name s"
  then obtain ls where "s = join ''.'' ls" "\<forall>l \<in> set ls. host_label l" unfolding host_name_def by blast
  then show ?thesis using set_join_subset [of "''.''" ls] by (auto simp: host_label_def)
qed

lemma validate_domain_ok:
  "validate_domain idx s = Ok () \<longleftrightarrow> length s \<le> 253 \<and> host_name (bare_domain s)"
  using host_name_not_Nil [of "bare_domain s"]
  by (auto simp: validate_domain_def validate_max_length_def Let_def is_valid_hostname_iff validation_limits)

interpretation domain_check: indexed_check validate_domain "\<lambda>s. length s \<le> 253 \<and> host_name (bare_domain s)"
  by unfold_locales (rule validate_domain_ok)

subsection \<open>The specification is decided\<close>

lemma list_all_digits_parse:
  assumes "list_all is_ascii_digit ds" and "ds \<noteq> []"
  shows "parse_uint m ds = (if dec_value ds \<le> m then Some (dec_value ds) else None)"
proof -
  have "hd ds \<noteq> CHR ''+''"
    using assms by (cases ds) (auto simp: is_ascii_digit_def code_def)
  with assms show ?thesis by (simp add: parse_uint_def)
qed

lemma validate_interface_name_ok:
  "validate_interface_name os name = Ok () \<longleftrightarrow> valid_interface_name os name"
proof (cases "strip_prefix ''utun'' name")
  case None
  then have "\<not> valid_interface_name os name"
    unfolding valid_interface_name_def strip_prefix_eq_None by blast
  with None show ?thesis by (simp add: validate_interface_name_def)
next
  case (Some ds)
  have "(case parse_uint U32_MAX ds of None \<Rightarrow> True | Some index \<Rightarrow> index + 1 > U32_MAX) \<longleftrightarrow>
          \<not> dec_value ds < 2 ^ 32 - 1" if "list_all is_ascii_digit ds" "ds \<noteq> []"
    using that by (auto simp: list_all_digits_parse U32_MAX_def)
  with Some show ?thesis
    by (auto simp: validate_interface_name_def valid_interface_name_def validation_limits list_all_iff)
qed

lemma validate_max_count_ok: "validate_max_count f n m = Ok () \<longleftrightarrow> n \<le> m"
  by (simp add: validate_max_count_def)

lemma validate_mtu_ok:
  "validate_mtu_for_addresses m addrs = Ok () \<longleftrightarrow>
     576 \<le> sint m \<and> sint m \<le> 65535 \<and>
       ((\<exists>w p. \<lparr>cidr_ip = Some (proto_of_ip (IpV6 w)), cidr_prefix = p\<rparr> \<in> set addrs) \<longrightarrow> 1280 \<le> sint m)"
proof -
  have "list_ex (\<lambda>addr. case parse_proto_cidr addr of Some (ip, _) \<Rightarrow> is_ipv6 ip | None \<Rightarrow> False) addrs \<longleftrightarrow>
          (\<exists>w p. \<lparr>cidr_ip = Some (proto_of_ip (IpV6 w)), cidr_prefix = p\<rparr> \<in> set addrs)" (is "?l \<longleftrightarrow> ?r")
  proof
    assume ?l
    then obtain c ip p where "c \<in> set addrs" "parse_proto_cidr c = Some (ip, p)" "is_ipv6 ip"
      by (auto simp: list_ex_iff split: option.splits)
    then show ?r by (cases ip) (auto simp: parse_proto_cidr_eq_Some simp del: proto_of_ip.simps)
  next
    assume ?r
    then obtain w p where c: "\<lparr>cidr_ip = Some (proto_of_ip (IpV6 w)), cidr_prefix = p\<rparr> \<in> set addrs"
      (is "?c \<in> _") by blast
    have "parse_proto_cidr ?c = Some (IpV6 w, p)" by (simp add: parse_proto_cidr_eq_Some)
    with c show ?l unfolding list_ex_iff by (intro bexI [of _ ?c]) simp_all
  qed
  then show ?thesis
    unfolding validate_mtu_for_addresses_def Let_def validation_limits by auto
qed

lemma validate_dns_ok: "validate_dns d = Ok () \<longleftrightarrow> valid_dns d"
  unfolding validate_dns_def valid_dns_def validation_limits
  by (auto simp: and_then_eq_Ok validate_max_count_ok domain_check.loop_ok server_check.loop_ok)

lemma valid_default_dns: "valid_dns default_dns"
  by (simp add: valid_dns_def default_dns_def)

lemma validate_config_ok: "validate_config os config = Ok () \<longleftrightarrow> valid_config os config"
proof -
  have ne: "validate_non_empty f xs = Ok () \<longleftrightarrow> 1 \<le> length xs" for f xs
    by (cases xs) (auto simp: validate_non_empty_def)
  have m: "(if m \<noteq> 0 then validate_mtu_for_addresses m xs else Ok ()) = Ok () \<longleftrightarrow> valid_mtu m xs" for m xs
    by (simp add: valid_mtu_def validate_mtu_ok)
  have d: "validate_dns (case od of Some d \<Rightarrow> d | None \<Rightarrow> default_dns) = Ok () \<longleftrightarrow>
      (\<forall>d. od = Some d \<longrightarrow> valid_dns d)" for od
    by (cases od) (simp_all add: validate_dns_ok valid_default_dns)
  show ?thesis
    unfolding validate_config_def valid_config_def validate_cidr_list_def
    by (simp only: and_then_unit_Ok validate_interface_name_ok ne cidr_check.loop_ok validate_max_count_ok
        m d validation_limits) blast
qed

lemmas name_eval = is_ascii_alphanumeric_def is_ascii_digit_def code_def dec_value_def digit_value_def

lemma sample_config_valid: "valid_config os sample_config"
proof -
  have "validate_interface_name os ''utun07'' = Ok ()"
    by (cases os) (simp_all add: validate_interface_name_def validation_limits parse_uint_def name_eval)
  then have "valid_interface_name os ''utun07''" by (simp only: validate_interface_name_ok)
  moreover have "is_valid_hostname ''corp''"
    by (simp add: is_valid_hostname_def is_valid_label_def validation_limits name_eval)
  then have "host_name (bare_domain '' .corp'')"
    by (simp add: is_valid_hostname_iff bare_domain_def trim_eval)
  moreover have "valid_mtu 1420 (addresses sample_config)"
    by (simp add: valid_mtu_def sample_config_def)
  moreover have "\<exists>ip. \<lparr>ip_value = Some (V4 [a, b, c, d])\<rparr> = proto_of_ip ip" for a b c d
    using parse_proto_ip_iff [of "\<lparr>ip_value = Some (V4 [a, b, c, d])\<rparr>"] by (simp add: parse_proto_ip_def) metis
  moreover have "valid_cidr \<lparr>cidr_ip = Some \<lparr>ip_value = Some (V4 [a, b, c, d])\<rparr>, cidr_prefix = p\<rparr>" if "unat p \<le> 32" for a b c d p
    using that by (simp add: valid_cidr_iff parse_proto_cidr_def parse_proto_ip_def host_prefix_def)
  ultimately show ?thesis
    by (simp add: valid_config_def valid_dns_def sample_config_def)
qed

section \<open>Properties\<close>

text \<open>
  C5: The validation of a session configuration accepts exactly the valid configurations: a valid
  interface name, 1 to 64 addresses and at most 256 allowed ranges that are all well-formed with a
  prefix within their family, no MTU or one in range (at least 1280 if an IPv6 address is configured),
  and a DNS part that is complete or empty.
\<close>

theorem validate_config_decides: "is_ok (validate_config os config) \<longleftrightarrow> valid_config os config"
  using validate_config_ok [of os config] by (cases "validate_config os config") auto

text \<open>
  The error of an address list names its first bad entry: all entries before it are valid, and the
  text carries its index and says whether the address or the prefix is wrong.
\<close>

lemma validate_cidr_list_first_error:
  "validate_cidr_list field cs = Err e \<longleftrightarrow>
     (\<exists>k < length cs. (\<forall>c \<in> set (take k cs). valid_cidr c) \<and> \<not> valid_cidr (cs ! k) \<and>
        e = index_str field k @
          (case parse_proto_cidr (cs ! k) of
             None \<Rightarrow> '' has an invalid IP address''
           | Some (ip, _) \<Rightarrow> '' prefix must be between 0 and '' @ dec_str (host_prefix ip)))"
proof -
  have "validate_cidr field k c = Err e \<longleftrightarrow> \<not> valid_cidr c \<and>
      e = index_str field k @ (case parse_proto_cidr c of
             None \<Rightarrow> '' has an invalid IP address''
           | Some (ip, _) \<Rightarrow> '' prefix must be between 0 and '' @ dec_str (host_prefix ip))" for k c
    by (auto simp: validate_cidr_def valid_cidr_iff host_prefix_def Let_def split: option.splits)
  then show ?thesis
    by (simp add: validate_cidr_list_def cidr_check.loop_err_iff)
qed

text \<open>
  C26: The hostname check accepts exactly the names of the grammar: dot-separated labels of 1 to 63
  letters, digits and inner hyphens, at most 253 bytes in all. Such a name has no white space, no
  leading hyphen and no empty part, so it cannot be mistaken for an option or split by a separator.
\<close>

theorem hostname_grammar:
  "(is_valid_hostname s \<longleftrightarrow> host_name s) \<and>
   (host_name s \<longrightarrow> s \<noteq> [] \<and> hd s \<noteq> CHR ''-'' \<and> set s \<subseteq> {c. is_ascii_alphanumeric c \<or> c \<in> {CHR ''-'', CHR ''.''}})"
proof (intro conjI impI)
  assume h: "host_name s"
  then show "s \<noteq> []" by (rule host_name_not_Nil)
  from h show "hd s \<noteq> CHR ''-''" by (rule host_name_hd)
  from h show "set s \<subseteq> {c. is_ascii_alphanumeric c \<or> c \<in> {CHR ''-'', CHR ''.''}}" by (rule host_name_chars)
qed (rule is_valid_hostname_iff)

theorem hostname_grammar_witness: "is_valid_hostname ''a-1.example'' \<and> hd ''a-1.example'' \<noteq> CHR ''-''"
proof -
  have "is_valid_hostname ''a-1.example''"
    by (simp add: is_valid_hostname_def is_valid_label_def validation_limits name_eval)
  with hostname_grammar [of "''a-1.example''"] show ?thesis by simp
qed

end
