(* ===== verification/Ipc.thy ===== *)
theory Ipc
  imports Prelude
begin

text \<open>
  The framing of the local IPC stream, ipc/mod.rs: a frame is a four-byte big-endian length and
  that many bytes, the encoding of one protobuf message. The message codec (the prost crate) is
  a parameter: \<open>encode\<close> and \<open>decode\<close>. A readable stream is the bytes that arrive before its end
  and the way it ends; a writable stream accepts bytes until it fails, if it fails. The locale
  \<open>framing\<close> is the contract between the byte layer and the loops that exchange messages.
\<close>

section \<open>Definitions\<close>

definition PROTOCOL_VERSION :: nat where "PROTOCOL_VERSION = 2"
definition MAX_FRAME_SIZE :: nat where "MAX_FRAME_SIZE = 4 * 1024 * 1024"

datatype stream_end = Eof | Broken io_error

record in_stream =
  pending :: bytes
  ending :: stream_end

record out_stream =
  written :: bytes
  fail_after :: "(nat \<times> io_error) option"
  flush_result :: "(unit, io_error) result"

text \<open>\<^verbatim>\<open>AsyncRead::read\<close> into a one-byte buffer: no byte at the end of the stream.\<close>

definition read_byte :: "in_stream \<Rightarrow> (byte option, io_error) result \<times> in_stream" where
  "read_byte s =
     (case pending s of
        b # bs \<Rightarrow> (Ok (Some b), s\<lparr>pending := bs\<rparr>)
      | [] \<Rightarrow> ((case ending s of Eof \<Rightarrow> Ok None | Broken e \<Rightarrow> Err e), s))"

definition early_eof :: io_error where
  "early_eof = IoError UnexpectedEof ''early eof''"

definition read_exact :: "nat \<Rightarrow> in_stream \<Rightarrow> (bytes, io_error) result \<times> in_stream" where
  "read_exact n s =
     (if n \<le> length (pending s) then (Ok (take n (pending s)), s\<lparr>pending := drop n (pending s)\<rparr>)
      else ((case ending s of Eof \<Rightarrow> Err early_eof | Broken e \<Rightarrow> Err e), s\<lparr>pending := []\<rparr>))"

definition write_all :: "bytes \<Rightarrow> out_stream \<Rightarrow> (unit, io_error) result \<times> out_stream" where
  "write_all bs s =
     (case fail_after s of
        None \<Rightarrow> (Ok (), s\<lparr>written := written s @ bs\<rparr>)
      | Some (n, e) \<Rightarrow>
          if length (written s) + length bs \<le> n then (Ok (), s\<lparr>written := written s @ bs\<rparr>)
          else (Err e, s\<lparr>written := written s @ take (n - length (written s)) bs\<rparr>))"

definition invalid_length :: io_error where
  "invalid_length = IoError InvalidData ''invalid IPC frame length''"

text \<open>The bytes of one frame without the message decoding, and then the whole of \<^verbatim>\<open>read_frame\<close>.\<close>

definition read_payload :: "in_stream \<Rightarrow> (bytes option, io_error) result \<times> in_stream" where
  "read_payload input =
     (case read_byte input of
        (Err e, s) \<Rightarrow> (Err e, s)
      | (Ok None, s) \<Rightarrow> (Ok None, s)
      | (Ok (Some b), s) \<Rightarrow>
          (case read_exact 3 s of
             (Err e, s) \<Rightarrow> (Err e, s)
           | (Ok bs, s) \<Rightarrow>
               let size = be_nat (b # bs)
               in if size = 0 \<or> size > MAX_FRAME_SIZE then (Err invalid_length, s)
                  else (case read_exact size s of
                          (Err e, s) \<Rightarrow> (Err e, s)
                        | (Ok payload, s) \<Rightarrow> (Ok (Some payload), s))))"

definition read_frame ::
    "(bytes \<Rightarrow> ('m, string) result) \<Rightarrow> in_stream \<Rightarrow> ('m option, io_error) result \<times> in_stream" where
  "read_frame decode input =
     (case read_payload input of
        (Err e, s) \<Rightarrow> (Err e, s)
      | (Ok None, s) \<Rightarrow> (Ok None, s)
      | (Ok (Some payload), s) \<Rightarrow>
          (case decode payload of
             Ok m \<Rightarrow> (Ok (Some m), s)
           | Err e \<Rightarrow> (Err (IoError InvalidData e), s)))"

definition write_frame ::
    "('m \<Rightarrow> bytes) \<Rightarrow> 'm \<Rightarrow> out_stream \<Rightarrow> (unit, io_error) result \<times> out_stream" where
  "write_frame encode message output =
     (let bs = encode message
      in if bs = [] \<or> length bs > MAX_FRAME_SIZE then (Err invalid_length, output)
         else (case write_all (nat_be 4 (length bs)) output of
                 (Err e, s) \<Rightarrow> (Err e, s)
               | (Ok _, s) \<Rightarrow>
                   (case write_all bs s of
                      (Err e, s) \<Rightarrow> (Err e, s)
                    | (Ok _, s) \<Rightarrow> (flush_result s, s))))"

text \<open>
  The loop of \<^verbatim>\<open>serve_connection\<close> that forwards frames, without its channel: the messages read
  until the stream ends (\<open>Ok ()\<close>) or a frame is refused.
\<close>

function read_messages ::
    "(bytes \<Rightarrow> ('m, string) result) \<Rightarrow> in_stream \<Rightarrow> 'm list \<times> (unit, io_error) result" where
  "read_messages decode input =
     (case read_frame decode input of
        (Err e, s) \<Rightarrow> ([], Err e)
      | (Ok None, s) \<Rightarrow> ([], Ok ())
      | (Ok (Some m), s) \<Rightarrow> (let (ms, r) = read_messages decode s in (m # ms, r)))"
  by pat_completeness auto

text \<open>The specification of a frame.\<close>

definition frame :: "bytes \<Rightarrow> bytes" where
  "frame payload = nat_be 4 (length payload) @ payload"

definition fits :: "bytes \<Rightarrow> bool" where
  "fits payload \<longleftrightarrow> 0 < length payload \<and> length payload \<le> 4194304"

section \<open>Lemmas\<close>

lemma read_exact_pending: "read_exact n s = (r, s') \<Longrightarrow> length (pending s') \<le> length (pending s)"
  by (auto simp: read_exact_def split: if_splits)

lemma read_payload_shrinks:
  assumes "read_payload s = (Ok (Some p), s')"
  shows "length (pending s') < length (pending s)"
proof (cases "pending s")
  case Nil
  with assms show ?thesis by (auto simp: read_payload_def read_byte_def split: stream_end.splits)
next
  case (Cons b bs)
  have "length (pending s') \<le> length (pending (s\<lparr>pending := bs\<rparr>))"
    using assms Cons
    by (auto simp: read_payload_def read_byte_def Let_def split: prod.splits result.splits if_splits
        dest!: read_exact_pending)
  with Cons show ?thesis by simp
qed

lemma read_frame_shrinks:
  "read_frame decode s = (Ok (Some m), s') \<Longrightarrow> length (pending s') < length (pending s)"
  by (auto simp: read_frame_def split: prod.splits result.splits option.splits
      dest!: read_payload_shrinks)

termination read_messages
  by (relation "measure (\<lambda>(d, s). length (pending s))") (auto dest: read_frame_shrinks [OF sym])

declare read_messages.simps [simp del]

lemma length_frame [simp]: "length (frame p) = length p + 4"
  by (simp add: frame_def)

lemma frame_header:
  assumes "fits p"
  obtains b bs where "nat_be 4 (length p) = b # bs" "length bs = 3" "be_nat (b # bs) = length p"
proof -
  obtain b bs where h: "nat_be 4 (length p) = b # bs"
    by (metis length_nat_be length_0_conv neq_Nil_conv zero_neq_numeral)
  moreover have "length bs = 3" using h length_nat_be [of 4 "length p"] by simp
  moreover have "be_nat (b # bs) = length p"
    using assms be_nat_nat_be [of 4 "length p"] h by (simp add: fits_def)
  ultimately show thesis by (rule that)
qed

lemma read_payload_frame:
  assumes "fits p" and "pending s = frame p @ rest"
  shows "read_payload s = (Ok (Some p), s\<lparr>pending := rest\<rparr>)"
proof -
  from assms(1) obtain b bs where h: "nat_be 4 (length p) = b # bs" "length bs = 3"
    "be_nat (b # bs) = length p"
    by (rule frame_header)
  with assms show ?thesis
    by (auto simp: read_payload_def read_byte_def read_exact_def frame_def fits_def MAX_FRAME_SIZE_def
        Let_def)
qed

lemma read_payload_eof:
  "pending s = [] \<Longrightarrow> ending s = Eof \<Longrightarrow> read_payload s = (Ok None, s)"
  by (simp add: read_payload_def read_byte_def)

text \<open>A stream that ends inside a frame is an error, never a shorter message.\<close>

lemma read_payload_truncated:
  assumes "fits p" and "frame p = pending s @ missing" and "pending s \<noteq> []" and "missing \<noteq> []"
    and "ending s = Eof"
  shows "fst (read_payload s) = Err early_eof"
proof -
  from assms(1) obtain b bs where h: "nat_be 4 (length p) = b # bs" "length bs = 3"
    "be_nat (b # bs) = length p"
    by (rule frame_header)
  from assms(2,3) h obtain q where q: "pending s = b # q" "bs @ p = q @ missing"
    by (cases "pending s") (auto simp: frame_def)
  show ?thesis
  proof (cases "length q < 3")
    case True
    with q assms(5) show ?thesis
      by (simp add: read_payload_def read_byte_def read_exact_def)
  next
    case False
    have "take 3 (bs @ p) = take 3 (q @ missing)" using q(2) by simp
    then have "take 3 q = bs" using h(2) False by simp
    moreover have "length (bs @ p) = length (q @ missing)" using q(2) by simp
    then have "length q < 3 + length p" using h(2) assms(4) by (cases missing) simp_all
    ultimately show ?thesis using False q(1) assms(1,5) h(3)
      by (simp add: read_payload_def read_byte_def read_exact_def fits_def MAX_FRAME_SIZE_def Let_def)
  qed
qed

lemma write_frame_ok:
  assumes "fits (encode m)" and "fail_after s = None"
  shows "write_frame encode m s = (flush_result s, s\<lparr>written := written s @ frame (encode m)\<rparr>)"
proof -
  from assms(1) have "\<not> (encode m = [] \<or> length (encode m) > MAX_FRAME_SIZE)"
    by (auto simp: fits_def MAX_FRAME_SIZE_def)
  with assms(2) show ?thesis by (simp add: write_frame_def write_all_def frame_def Let_def)
qed

lemma write_frame_refused:
  "\<not> fits (encode m) \<Longrightarrow> write_frame encode m s = (Err invalid_length, s)"
  by (auto simp: write_frame_def fits_def MAX_FRAME_SIZE_def Let_def)

subsection \<open>The contract of the byte layer\<close>

text \<open>
  \<open>put\<close> gives the bytes of a payload, \<open>get\<close> takes one payload off a stream, or nothing at a
  clean end. The client's lemma is that a reader that repeats \<open>get\<close> sees exactly the payloads that
  were put, in order, and then the end.
\<close>

fun get_all :: "(in_stream \<Rightarrow> (bytes option, io_error) result \<times> in_stream) \<Rightarrow> nat \<Rightarrow> in_stream \<Rightarrow> bytes list" where
  "get_all get 0 s = []"
| "get_all get (Suc n) s =
     (case get s of (Ok (Some p), s') \<Rightarrow> p # get_all get n s' | _ \<Rightarrow> [])"

locale framing =
  fixes put :: "bytes \<Rightarrow> bytes"
    and get :: "in_stream \<Rightarrow> (bytes option, io_error) result \<times> in_stream"
    and sendable :: "bytes \<Rightarrow> bool"
  assumes get_put: "sendable p \<Longrightarrow> pending s = put p @ rest \<Longrightarrow> get s = (Ok (Some p), s\<lparr>pending := rest\<rparr>)"
    and get_end: "pending s = [] \<Longrightarrow> ending s = Eof \<Longrightarrow> get s = (Ok None, s)"
begin

lemma get_all_put:
  assumes "\<forall>p \<in> set ps. sendable p" and "pending s = concat (map put ps)" and "ending s = Eof"
    and "length ps < n"
  shows "get_all get n s = ps"
  using assms
proof (induction ps arbitrary: n s)
  case Nil
  then show ?case by (cases n) (simp_all add: get_end)
next
  case (Cons p ps)
  then obtain k where "n = Suc k" "length ps < k" by (cases n) auto
  moreover have "get s = (Ok (Some p), s\<lparr>pending := concat (map put ps)\<rparr>)"
    using Cons.prems by (intro get_put) simp_all
  ultimately show ?case using Cons by simp
qed

lemma put_prefix_free:
  assumes "sendable p" and "sendable q" and "put p @ xs = put q @ ys"
  shows "p = q \<and> xs = ys"
proof -
  let ?s = "\<lparr>pending = put p @ xs, ending = Eof\<rparr>"
  have "get ?s = (Ok (Some p), ?s\<lparr>pending := xs\<rparr>)" using assms(1) by (intro get_put) simp_all
  moreover have "get ?s = (Ok (Some q), ?s\<lparr>pending := ys\<rparr>)" using assms(2,3) by (intro get_put) simp_all
  ultimately show ?thesis by simp
qed

end

interpretation ipc_framing: framing frame read_payload fits
  by unfold_locales (simp_all add: read_payload_frame read_payload_eof)

lemma read_messages_frames:
  assumes "\<forall>m \<in> set ms. fits (encode m) \<and> decode (encode m) = Ok m"
    and "pending s = concat (map (\<lambda>m. frame (encode m)) ms)" and "ending s = Eof"
  shows "read_messages decode s = (ms, Ok ())"
  using assms
proof (induction ms arbitrary: s)
  case Nil
  then show ?case
    by (subst read_messages.simps) (simp add: read_frame_def read_payload_eof)
next
  case (Cons m ms)
  let ?t = "s\<lparr>pending := concat (map (\<lambda>m. frame (encode m)) ms)\<rparr>"
  have "read_payload s = (Ok (Some (encode m)), ?t)"
    using Cons.prems by (intro ipc_framing.get_put) simp_all
  then have "read_frame decode s = (Ok (Some m), ?t)"
    using Cons.prems by (simp add: read_frame_def)
  moreover have "read_messages decode ?t = (ms, Ok ())"
    using Cons.prems by (intro Cons.IH) simp_all
  ultimately show ?case by (subst read_messages.simps) simp
qed

text \<open>The bytes on the wire after a sequence of messages.\<close>

lemma write_frames:
  assumes "\<forall>m \<in> set ms. fits (encode m)" and "fail_after s = None"
  shows "fold (\<lambda>m s. snd (write_frame encode m s)) ms s =
    s\<lparr>written := written s @ concat (map (\<lambda>m. frame (encode m)) ms)\<rparr>"
  using assms
  by (induction ms arbitrary: s) (simp_all add: write_frame_ok)

lemma read_frame_truncated:
  assumes "fits p" and "frame p = pending s @ missing" and "pending s \<noteq> []" and "missing \<noteq> []" and "ending s = Eof"
  shows "fst (read_frame decode s) = Err early_eof"
  using read_payload_truncated [OF assms] by (auto simp: read_frame_def split: prod.splits result.splits option.splits)

lemma read_messages_append:
  assumes "\<forall>m \<in> set ms. fits (encode m) \<and> decode (encode m) = Ok m"
    and "pending s = concat (map (\<lambda>m. frame (encode m)) ms) @ rest"
  shows "read_messages decode s = (case read_messages decode (s\<lparr>pending := rest\<rparr>) of (ms', r) \<Rightarrow> (ms @ ms', r))"
  using assms
proof (induction ms arbitrary: s)
  case Nil
  then have "s\<lparr>pending := rest\<rparr> = s" by (cases s) simp
  then show ?case by (simp split: prod.splits)
next
  case (Cons m ms)
  let ?rest = "concat (map (\<lambda>m. frame (encode m)) ms) @ rest"
  have "read_payload s = (Ok (Some (encode m)), s\<lparr>pending := ?rest\<rparr>)"
    using Cons.prems by (intro read_payload_frame) auto
  then have "read_frame decode s = (Ok (Some m), s\<lparr>pending := ?rest\<rparr>)"
    using Cons.prems by (simp add: read_frame_def)
  with Cons.IH [of "s\<lparr>pending := ?rest\<rparr>"] Cons.prems show ?case
    by (subst read_messages.simps) (simp split: prod.splits)
qed

lemma read_payload_header:
  assumes "n < 2 ^ 32" and "pending s = nat_be 4 n @ rest" and "n = 0 \<or> MAX_FRAME_SIZE < n"
  shows "read_payload s = (Err invalid_length, s\<lparr>pending := rest\<rparr>)"
proof -
  obtain b bs where h: "nat_be 4 n = b # bs" by (cases "nat_be 4 n") (use length_nat_be [of 4 n] in auto)
  then have "length bs = 3" using length_nat_be [of 4 n] by simp
  moreover have "be_nat (b # bs) = n" using assms(1) h be_nat_nat_be [of 4 n] by simp
  ultimately show ?thesis
    using assms(2,3) h by (simp add: read_payload_def read_byte_def read_exact_def Let_def)
qed

section \<open>Properties\<close>

text \<open>
  C17: Framing is lossless: what one side writes frame by frame the other side reads back as the same
  sequence of messages, and then the clean end of the stream. The encoding of the messages is prost's;
  what is used of it is that it decodes what it encoded and that the encodings fit a frame.
\<close>

theorem frames_roundtrip:
  assumes "\<forall>m \<in> set ms. fits (encode m) \<and> decode (encode m) = Ok m"
  shows "read_messages decode
      \<lparr>pending = written (fold (\<lambda>m s. snd (write_frame encode m s)) ms
                          \<lparr>written = [], fail_after = None, flush_result = Ok ()\<rparr>),
       ending = Eof\<rparr> = (ms, Ok ())"
  using assms by (intro read_messages_frames [of ms encode]) (simp_all add: write_frames)

theorem frames_roundtrip_witness:
  "read_messages Ok
      \<lparr>pending = written (fold (\<lambda>m s. snd (write_frame (\<lambda>m. m) m s)) [[1, 2], [3]]
                          \<lparr>written = [], fail_after = None, flush_result = Ok ()\<rparr>),
       ending = Eof\<rparr> = ([[1, 2], [3]], Ok ())"
  by (rule frames_roundtrip) (simp add: fits_def)

text \<open>
  A connection that breaks off inside a frame delivers exactly the complete messages before it and
  ends with an unexpected-end error, never with a shortened message or a clean end.
\<close>

lemma frames_truncated:
  assumes "\<forall>m \<in> set ms. fits (encode m) \<and> decode (encode m) = Ok m"
    and "fits p" and "frame p = part @ missing" and "part \<noteq> []" and "missing \<noteq> []"
  shows "read_messages decode \<lparr>pending = concat (map (\<lambda>m. frame (encode m)) ms) @ part, ending = Eof\<rparr> =
    (ms, Err (IoError UnexpectedEof ''early eof''))"
proof -
  let ?s = "\<lparr>pending = part, ending = Eof\<rparr>"
  have "fst (read_frame decode ?s) = Err early_eof"
    using assms(2-5) by (intro read_frame_truncated [of p _ missing]) simp_all
  then have "read_messages decode ?s = ([], Err early_eof)"
    by (subst read_messages.simps) (auto split: prod.splits)
  then show ?thesis
    using read_messages_append [where ms = ms, OF assms(1), of "\<lparr>pending = concat (map (\<lambda>m. frame (encode m)) ms) @ part, ending = Eof\<rparr>" part]
    by (simp add: early_eof_def)
qed

text \<open>
  A frame header that announces no payload or more than 4 MiB is refused on the header alone:
  nothing behind it is read, and in particular no buffer of that size is filled.
\<close>

lemma oversized_frame_refused:
  assumes "n < 2 ^ 32" and "n = 0 \<or> 4 * 1024 * 1024 < n"
  shows "read_frame decode \<lparr>pending = nat_be 4 n @ rest, ending = e\<rparr> =
    (Err (IoError InvalidData ''invalid IPC frame length''), \<lparr>pending = rest, ending = e\<rparr>)"
  using read_payload_header [of n "\<lparr>pending = nat_be 4 n @ rest, ending = e\<rparr>" rest] assms
  by (simp add: read_frame_def MAX_FRAME_SIZE_def invalid_length_def)

end
