(* ===== verification/Routes.thy ===== *)
theory Routes
  imports Validation
begin

text \<open>
  The platform-independent half of platform/mod.rs: the arguments of the DNS tools, the routes of a
  session, their installation and their removal. The operating system is a state \<open>'os\<close>; the calls
  the code makes on it through the route_manager crate (\<open>route_ops\<close>) and through the platform's
  \<^verbatim>\<open>EndpointRoute\<close> (\<open>endpoint_ops\<close>) are parameters that return a result and the next state. A
  cleanup hook, Rust's boxed \<^verbatim>\<open>FnOnce\<close>, is such a function too.
\<close>

section \<open>Definitions\<close>

text \<open>The data of a \<^verbatim>\<open>route_manager::Route\<close>, as its constructor and \<^verbatim>\<open>with_\<close> methods set it.\<close>

record route =
  destination :: ip_addr
  route_prefix :: byte
  gateway :: "ip_addr option"
  if_name :: "string option"
  if_index :: "32 word option"
  metric :: "32 word option"
  luid :: "64 word option"

definition Route_new :: "ip_addr \<Rightarrow> byte \<Rightarrow> route" where
  "Route_new ip p =
     \<lparr>destination = ip, route_prefix = p, gateway = None, if_name = None, if_index = None,
      metric = None, luid = None\<rparr>"

type_synonym ('os, 'a) call = "'os \<Rightarrow> ('a, io_error) result \<times> 'os"
type_synonym 'os hook = "'os \<Rightarrow> (unit, string) result \<times> 'os"

record 'os route_ops =
  rm_new :: "('os, unit) call"
  rm_add :: "route \<Rightarrow> ('os, unit) call"
  rm_delete :: "route \<Rightarrow> ('os, unit) call"
  rm_find :: "ip_addr \<Rightarrow> ('os, route option) call"

record ('ep, 'os) endpoint_ops =
  ep_lookup :: "ip_addr \<Rightarrow> ('os, 'ep) call"
  ep_replace :: "'ep \<Rightarrow> ('os, unit) call"
  ep_delete :: "'ep \<Rightarrow> ('os, unit) call"

subsection \<open>Arguments of the DNS tools\<close>

text \<open>\<open>None\<close> is the panic of \<^verbatim>\<open>proto_ip_to_string\<close> on a malformed address.\<close>

fun ips_to_args_loop :: "string list \<Rightarrow> proto_ip list \<Rightarrow> string list option" where
  "ips_to_args_loop seen [] = Some seen"
| "ips_to_args_loop seen (addr # rest) =
     (case proto_ip_to_string addr of
        None \<Rightarrow> None
      | Some ip \<Rightarrow> ips_to_args_loop (if ip \<notin> set seen then seen @ [ip] else seen) rest)"

definition ips_to_args :: "proto_ip list \<Rightarrow> string list option" where
  "ips_to_args addrs = ips_to_args_loop [] addrs"

fun normalize_domains_loop :: "string list \<Rightarrow> string set \<Rightarrow> string list \<Rightarrow> string list" where
  "normalize_domains_loop normalized seen [] = normalized"
| "normalize_domains_loop normalized seen (v # rest) =
     (let domain = bare_domain v
      in if domain \<noteq> [] \<and> domain \<notin> seen
         then normalize_domains_loop (normalized @ [domain]) (insert domain seen) rest
         else normalize_domains_loop normalized seen rest)"

definition normalize_domains :: "string list \<Rightarrow> string list" where
  "normalize_domains vals = normalize_domains_loop [] {} vals"

subsection \<open>The routes of a session\<close>

fun resolve_loop ::
    "(io_error \<Rightarrow> string) \<Rightarrow> ('ep, 'os) endpoint_ops \<Rightarrow> proto_ip list \<Rightarrow> 'os \<Rightarrow> ('ep list, string) result \<times> 'os" where
  "resolve_loop io_str E [] s = (Ok [], s)"
| "resolve_loop io_str E (addr # rest) s =
     (case parse_proto_ip addr of
        None \<Rightarrow> (Err ''invalid peer endpoint address'', s)
      | Some ip \<Rightarrow>
          (case ep_lookup E ip s of
             (Err e, s) \<Rightarrow> (Err (''failed to resolve route for endpoint '' @ ip_to_string ip @ '': '' @ io_str e), s)
           | (Ok r, s) \<Rightarrow>
               (case resolve_loop io_str E rest s of
                  (Err e, s) \<Rightarrow> (Err e, s)
                | (Ok rs, s) \<Rightarrow> (Ok (r # rs), s))))"

definition resolve_endpoint_routes ::
    "(io_error \<Rightarrow> string) \<Rightarrow> ('ep, 'os) endpoint_ops \<Rightarrow> tun_session_config \<Rightarrow> 'os \<Rightarrow> ('ep list, string) result \<times> 'os" where
  "resolve_endpoint_routes io_str E config s = resolve_loop io_str E (peer_endpoints config) s"

definition tunnel_route :: "string \<Rightarrow> cidr \<Rightarrow> route option" where
  "tunnel_route interface addr =
     (case parse_proto_cidr addr of
        None \<Rightarrow> None
      | Some (ip, prefix) \<Rightarrow>
          (case u8_try_from prefix of
             None \<Rightarrow> None
           | Some p \<Rightarrow> Some ((Route_new ip p)\<lparr>if_name := Some interface\<rparr>)))"

definition filtered_routes :: "tun_session_config \<Rightarrow> string \<Rightarrow> route list" where
  "filtered_routes config interface =
     (let routes = List.map_filter (tunnel_route interface) (peer_allowed_ips config);
          endpoint_ips = List.map_filter parse_proto_ip (peer_endpoints config)
      in filter (\<lambda>r. unat (route_prefix r) \<noteq> (if is_ipv4 (destination r) then 32 else 128) \<or>
                     destination r \<notin> set endpoint_ips) routes)"

definition build_and_filter_routes ::
    "(io_error \<Rightarrow> string) \<Rightarrow> 'os route_ops \<Rightarrow> tun_session_config \<Rightarrow> string \<Rightarrow> 'ep list \<Rightarrow> 'os \<Rightarrow>
       (route list \<times> 'ep list, string) result \<times> 'os" where
  "build_and_filter_routes io_str R config interface endpoint_routes s =
     (case rm_new R s of
        (Err e, s) \<Rightarrow> (Err (''route manager: '' @ io_str e), s)
      | (Ok _, s) \<Rightarrow> (Ok (filtered_routes config interface, endpoint_routes), s))"

fun replace_endpoints ::
    "(io_error \<Rightarrow> string) \<Rightarrow> ('ep, 'os) endpoint_ops \<Rightarrow> 'ep list \<Rightarrow> 'os hook" where
  "replace_endpoints io_str E [] s = (Ok (), s)"
| "replace_endpoints io_str E (r # rs) s =
     (case ep_replace E r s of
        (Err e, s) \<Rightarrow> (Err (''failed to add endpoint route: '' @ io_str e), s)
      | (Ok _, s) \<Rightarrow> replace_endpoints io_str E rs s)"

fun add_routes :: "(io_error \<Rightarrow> string) \<Rightarrow> 'os route_ops \<Rightarrow> route list \<Rightarrow> 'os hook" where
  "add_routes io_str R [] s = (Ok (), s)"
| "add_routes io_str R (r # rs) s =
     (case rm_add R r (snd (rm_delete R r s)) of
        (Err e, s) \<Rightarrow> (Err (''failed to add route: '' @ io_str e), s)
      | (Ok _, s) \<Rightarrow> add_routes io_str R rs s)"

definition add_routes_with_predelete ::
    "(io_error \<Rightarrow> string) \<Rightarrow> 'os route_ops \<Rightarrow> ('ep, 'os) endpoint_ops \<Rightarrow> route list \<Rightarrow> 'ep list \<Rightarrow> 'os hook" where
  "add_routes_with_predelete io_str R E routes endpoint_routes s =
     (case replace_endpoints io_str E endpoint_routes s of
        (Err e, s) \<Rightarrow> (Err e, s)
      | (Ok _, s) \<Rightarrow> add_routes io_str R routes s)"

subsection \<open>Removal\<close>

definition capture_error :: "(unit, string) result \<Rightarrow> string option \<Rightarrow> string option" where
  "capture_error r acc =
     (case r of
        Ok _ \<Rightarrow> acc
      | Err e \<Rightarrow> (case acc of Some existing \<Rightarrow> Some (existing @ ''; '' @ e) | None \<Rightarrow> Some e))"

text \<open>Every element is processed; errors are collected and never stop the loop.\<close>

fun sweep :: "('a \<Rightarrow> 'os hook) \<Rightarrow> 'a list \<Rightarrow> string option \<Rightarrow> 'os \<Rightarrow> string option \<times> 'os" where
  "sweep act [] acc s = (acc, s)"
| "sweep act (x # xs) acc s = (let (r, s') = act x s in sweep act xs (capture_error r acc) s')"

definition str_err :: "(io_error \<Rightarrow> string) \<Rightarrow> ('os, unit) call \<Rightarrow> 'os hook" where
  "str_err io_str f s = (case f s of (r, s') \<Rightarrow> (map_err io_str r, s'))"

definition cleanup_routes ::
    "(io_error \<Rightarrow> string) \<Rightarrow> 'os route_ops \<Rightarrow> ('ep, 'os) endpoint_ops \<Rightarrow> route list \<Rightarrow> 'ep list \<Rightarrow> 'os hook \<Rightarrow> 'os hook" where
  "cleanup_routes io_str R E routes endpoint_routes dns_teardown s =
     (let (acc, s) = (case rm_new R s of
            (Ok _, s) \<Rightarrow> sweep (\<lambda>r. str_err io_str (rm_delete R r)) (rev routes) None s
          | (Err e, s) \<Rightarrow> (capture_error (Err (io_str e)) None, s));
          (acc, s) = sweep (\<lambda>r. str_err io_str (ep_delete E r)) (rev endpoint_routes) acc s;
          (r, s) = dns_teardown s;
          acc = capture_error r acc
      in ((case acc of Some e \<Rightarrow> Err e | None \<Rightarrow> Ok ()), s))"

text \<open>
  The hook is the removal itself when setup succeeded; otherwise the removal runs at once and the
  session fails.
\<close>

definition into_cleanup_hook ::
    "(io_error \<Rightarrow> string) \<Rightarrow> 'os route_ops \<Rightarrow> ('ep, 'os) endpoint_ops \<Rightarrow> (unit, string) result \<Rightarrow>
       route list \<Rightarrow> 'ep list \<Rightarrow> string \<Rightarrow> (string \<Rightarrow> 'os hook) \<Rightarrow> 'os \<Rightarrow> ('os hook, string) result \<times> 'os" where
  "into_cleanup_hook io_str R E setup_result routes endpoint_routes interface dns_teardown s =
     (let cleanup = cleanup_routes io_str R E routes endpoint_routes (dns_teardown interface)
      in case setup_result of
           Ok _ \<Rightarrow> (Ok cleanup, s)
         | Err setup_error \<Rightarrow>
             (case cleanup s of
                (Ok _, s) \<Rightarrow> (Err setup_error, s)
              | (Err cleanup_error, s) \<Rightarrow> (Err (setup_error @ ''; cleanup failed: '' @ cleanup_error), s)))"

section \<open>Lemmas\<close>

subsection \<open>Deduplication\<close>

text \<open>
  Both argument lists keep the first occurrence of each value and the order of first occurrences.
  \<open>first_occurrences\<close> is the reference.
\<close>

definition first_occurrences :: "'a list \<Rightarrow> 'a list" where
  "first_occurrences xs = rev (remdups (rev xs))"

lemma first_occurrences_Nil [simp]: "first_occurrences [] = []"
  by (simp add: first_occurrences_def)

lemma first_occurrences_snoc:
  "first_occurrences (xs @ [x]) = (if x \<in> set xs then first_occurrences xs else first_occurrences xs @ [x])"
  by (simp add: first_occurrences_def)

lemma set_first_occurrences [simp]: "set (first_occurrences xs) = set xs"
  by (simp add: first_occurrences_def)

lemma distinct_first_occurrences [simp]: "distinct (first_occurrences xs)"
  by (simp add: first_occurrences_def)

text \<open>
  The contract the two loops share: a step that appends a value to the list built so far unless it
  is already there. Then the loop computes \<open>first_occurrences\<close>.
\<close>

locale dedup =
  fixes push :: "'a \<Rightarrow> 'a list \<Rightarrow> 'a list"
  assumes push_new: "x \<notin> set seen \<Longrightarrow> push x seen = seen @ [x]"
    and push_old: "x \<in> set seen \<Longrightarrow> push x seen = seen"
begin

lemma fold_push: "fold push xs (first_occurrences ys) = first_occurrences (ys @ xs)"
proof (induction xs arbitrary: ys)
  case (Cons x xs)
  have "push x (first_occurrences ys) = first_occurrences (ys @ [x])"
    by (simp add: first_occurrences_snoc push_new push_old)
  then show ?case using Cons [of "ys @ [x]"] by simp
qed simp

lemma fold_push_Nil: "fold push xs [] = first_occurrences xs"
  using fold_push [of xs "[]"] by simp

end

definition push_arg :: "string \<Rightarrow> string list \<Rightarrow> string list" where
  "push_arg ip seen = (if ip \<notin> set seen then seen @ [ip] else seen)"

interpretation arg_dedup: dedup push_arg
  by unfold_locales (simp_all add: push_arg_def)

lemma ips_to_args_loop_fold:
  "ips_to_args_loop seen addrs =
     (if \<forall>a \<in> set addrs. parse_proto_ip a \<noteq> None
      then Some (fold push_arg (map (\<lambda>a. ip_to_string (the (parse_proto_ip a))) addrs) seen) else None)"
proof (induction addrs arbitrary: seen)
  case (Cons a addrs)
  have "ips_to_args_loop seen (a # addrs) =
      (case parse_proto_ip a of None \<Rightarrow> None
       | Some ip \<Rightarrow> ips_to_args_loop (push_arg (ip_to_string ip) seen) addrs)"
    by (simp add: push_arg_def proto_ip_to_string_def split: option.splits)
  with Cons show ?case by (simp split: option.splits)
qed simp

lemma normalize_domains_loop_fold:
  "seen = set normalized \<Longrightarrow>
     normalize_domains_loop normalized seen vals =
       fold push_arg (filter (\<lambda>d. d \<noteq> []) (map bare_domain vals)) normalized"
  by (induction normalized seen vals rule: normalize_domains_loop.induct)
     (auto simp: push_arg_def Let_def)

lemma ips_to_args_eq:
  "ips_to_args addrs =
     (if \<forall>a \<in> set addrs. parse_proto_ip a \<noteq> None
      then Some (first_occurrences (map (\<lambda>a. ip_to_string (the (parse_proto_ip a))) addrs)) else None)"
  by (simp add: ips_to_args_def ips_to_args_loop_fold arg_dedup.fold_push_Nil)

lemma normalize_domains_eq:
  "normalize_domains vals = first_occurrences (filter (\<lambda>d. d \<noteq> []) (map bare_domain vals))"
  by (simp add: normalize_domains_def normalize_domains_loop_fold arg_dedup.fold_push_Nil)

subsection \<open>Sweeps\<close>

lemma sweep_state: "snd (sweep act xs acc s) = fold (\<lambda>x s. snd (act x s)) xs s"
  by (induction act xs acc s rule: sweep.induct) (simp add: Let_def case_prod_unfold)+

text \<open>The errors the elements report along the way, in the order they are processed.\<close>

fun sweep_errors :: "('a \<Rightarrow> 'os hook) \<Rightarrow> 'a list \<Rightarrow> 'os \<Rightarrow> string list" where
  "sweep_errors act [] s = []"
| "sweep_errors act (x # xs) s =
     (case act x s of (Ok _, s') \<Rightarrow> sweep_errors act xs s' | (Err e, s') \<Rightarrow> e # sweep_errors act xs s')"

definition errors_result :: "string list \<Rightarrow> string option" where
  "errors_result es = (if es = [] then None else Some (join ''; '' es))"

lemma join_snoc: "es \<noteq> [] \<Longrightarrow> join sep (es @ [e]) = join sep es @ sep @ e"
  by (induction sep es rule: join.induct) auto

lemma capture_error_Ok [simp]: "capture_error (Ok u) acc = acc"
  by (simp add: capture_error_def)

lemma capture_error_errors: "capture_error (Err e) (errors_result es) = errors_result (es @ [e])"
  by (simp add: capture_error_def errors_result_def join_snoc)

lemma sweep_errors_result:
  "fst (sweep act xs (errors_result es) s) = errors_result (es @ sweep_errors act xs s)"
proof (induction xs arbitrary: es s)
  case (Cons x xs)
  obtain r s' where a: "act x s = (r, s')" by (cases "act x s")
  show ?case
  proof (cases r)
    case (Ok u)
    with a Cons show ?thesis by simp
  next
    case (Err e)
    with a Cons [of "es @ [e]"] show ?thesis by (simp add: capture_error_errors)
  qed
qed simp

lemma sweep_errors_result_None: "fst (sweep act xs None s) = errors_result (sweep_errors act xs s)"
  using sweep_errors_result [of act xs "[]" s] by (simp add: errors_result_def)

subsection \<open>Removal runs to the end\<close>

text \<open>The state after every removal was attempted, whatever the calls reported.\<close>

definition cleanup_state ::
    "'os route_ops \<Rightarrow> ('ep, 'os) endpoint_ops \<Rightarrow> route list \<Rightarrow> 'ep list \<Rightarrow> 'os hook \<Rightarrow> 'os \<Rightarrow> 'os" where
  "cleanup_state R E routes eps dns_teardown s =
     (let s1 = snd (rm_new R s);
          s2 = (if is_ok (fst (rm_new R s)) then fold (\<lambda>r s. snd (rm_delete R r s)) (rev routes) s1 else s1);
          s3 = fold (\<lambda>e s. snd (ep_delete E e s)) (rev eps) s2
      in snd (dns_teardown s3))"

text \<open>The errors the removals report, in order.\<close>

definition cleanup_errors ::
    "(io_error \<Rightarrow> string) \<Rightarrow> 'os route_ops \<Rightarrow> ('ep, 'os) endpoint_ops \<Rightarrow> route list \<Rightarrow> 'ep list \<Rightarrow> 'os hook \<Rightarrow> 'os \<Rightarrow> string list" where
  "cleanup_errors io_str R E routes eps dns_teardown s =
     (let s1 = snd (rm_new R s);
          route_del = (\<lambda>r. str_err io_str (rm_delete R r));
          es1 = (case fst (rm_new R s) of Ok _ \<Rightarrow> sweep_errors route_del (rev routes) s1 | Err e \<Rightarrow> [io_str e]);
          s2 = (if is_ok (fst (rm_new R s)) then fold (\<lambda>r s. snd (rm_delete R r s)) (rev routes) s1 else s1);
          es2 = sweep_errors (\<lambda>e. str_err io_str (ep_delete E e)) (rev eps) s2;
          s3 = fold (\<lambda>e s. snd (ep_delete E e s)) (rev eps) s2
      in es1 @ es2 @ (case fst (dns_teardown s3) of Ok _ \<Rightarrow> [] | Err e \<Rightarrow> [e]))"

lemma snd_str_err [simp]: "snd (str_err io_str f s) = snd (f s)"
  by (simp add: str_err_def case_prod_unfold)

lemma capture_error_append:
  "capture_error r (errors_result es) = errors_result (es @ (case r of Ok _ \<Rightarrow> [] | Err e \<Rightarrow> [e]))"
  by (cases r) (simp_all add: capture_error_errors)

lemma errors_result_eq_None [simp]: "errors_result es = None \<longleftrightarrow> es = []"
  by (simp add: errors_result_def)

lemma cleanup_routes_eq:
  "cleanup_routes io_str R E routes eps d s =
     ((case errors_result (cleanup_errors io_str R E routes eps d s) of Some e \<Rightarrow> Err e | None \<Rightarrow> Ok ()),
      cleanup_state R E routes eps d s)"
proof -
  obtain r0 s1 where new: "rm_new R s = (r0, s1)" by (cases "rm_new R s")
  define s2 where "s2 = (if is_ok r0 then fold (\<lambda>r s. snd (rm_delete R r s)) (rev routes) s1 else s1)"
  define es1 where "es1 = (case r0 of Ok _ \<Rightarrow> sweep_errors (\<lambda>r. str_err io_str (rm_delete R r)) (rev routes) s1
    | Err e \<Rightarrow> [io_str e])"
  let ?ep = "\<lambda>e. str_err io_str (ep_delete E e)"
  define s3 where "s3 = fold (\<lambda>e s. snd (ep_delete E e s)) (rev eps) s2"
  have first: "(case r0 of Ok _ \<Rightarrow> sweep (\<lambda>r. str_err io_str (rm_delete R r)) (rev routes) None s1
      | Err e \<Rightarrow> (capture_error (Err (io_str e)) None, s1)) = (errors_result es1, s2)"
    by (cases r0) (simp_all add: prod_eq_iff es1_def s2_def sweep_state sweep_errors_result_None
        capture_error_def errors_result_def)
  have second: "sweep ?ep (rev eps) (errors_result es1) s2 = (errors_result (es1 @ sweep_errors ?ep (rev eps) s2), s3)"
    by (simp add: prod_eq_iff sweep_state sweep_errors_result s3_def)
  show ?thesis
    unfolding cleanup_routes_def cleanup_errors_def cleanup_state_def new Let_def prod.case fst_conv snd_conv
      es1_def [symmetric] s2_def [symmetric] s3_def [symmetric] first second
    by (cases "d s3") (simp add: capture_error_append)
qed

subsection \<open>A kernel that keeps a routing table\<close>

text \<open>
  What the code relies on of the system's routing calls: a call that succeeds changes the table as
  its name says, a call that fails changes nothing, and deleting a route that is not there fails.
  \<open>table\<close> is the set of routes and \<open>hosts\<close> the set of endpoint host routes in a state.
\<close>

definition route_kernel :: "'os route_ops \<Rightarrow> ('ep, 'os) endpoint_ops \<Rightarrow> ('os \<Rightarrow> route set) \<Rightarrow> ('os \<Rightarrow> 'ep set) \<Rightarrow> bool" where
  "route_kernel R E table hosts \<longleftrightarrow>
     (\<forall>s. table (snd (rm_new R s)) = table s \<and> hosts (snd (rm_new R s)) = hosts s) \<and>
     (\<forall>r s. table (snd (rm_add R r s)) = (if is_ok (fst (rm_add R r s)) then insert r (table s) else table s) \<and>
            hosts (snd (rm_add R r s)) = hosts s) \<and>
     (\<forall>r s. is_ok (fst (rm_delete R r s)) \<longleftrightarrow> r \<in> table s) \<and>
     (\<forall>r s. table (snd (rm_delete R r s)) = table s - {r} \<and> hosts (snd (rm_delete R r s)) = hosts s) \<and>
     (\<forall>e s. hosts (snd (ep_replace E e s)) = (if is_ok (fst (ep_replace E e s)) then insert e (hosts s) else hosts s) \<and>
            table (snd (ep_replace E e s)) = table s) \<and>
     (\<forall>e s. is_ok (fst (ep_delete E e s)) \<longleftrightarrow> e \<in> hosts s) \<and>
     (\<forall>e s. hosts (snd (ep_delete E e s)) = hosts s - {e} \<and> table (snd (ep_delete E e s)) = table s)"

lemma fold_delete_routes:
  assumes "route_kernel R E table hosts"
  shows "table (fold (\<lambda>r s. snd (rm_delete R r s)) rs s) = table s - set rs"
    and "hosts (fold (\<lambda>r s. snd (rm_delete R r s)) rs s) = hosts s"
  using assms by (induction rs arbitrary: s) (auto simp: route_kernel_def)

lemma fold_delete_hosts:
  assumes "route_kernel R E table hosts"
  shows "hosts (fold (\<lambda>e s. snd (ep_delete E e s)) es s) = hosts s - set es"
    and "table (fold (\<lambda>e s. snd (ep_delete E e s)) es s) = table s"
  using assms by (induction es arbitrary: s) (auto simp: route_kernel_def)

lemma map_filter_set: "r \<in> set (List.map_filter f xs) \<longleftrightarrow> (\<exists>x \<in> set xs. f x = Some r)"
  by (force simp: List.map_filter_def)

lemma host_prefix_if: "(if is_ipv4 ip then 32 else 128) = host_prefix ip"
  by (simp add: host_prefix_def)

lemma tunnel_route_Some:
  "tunnel_route interface c = Some r \<longleftrightarrow>
     (\<exists>ip p. c = \<lparr>cidr_ip = Some (proto_of_ip ip), cidr_prefix = p\<rparr> \<and> unat p \<le> 255 \<and>
        r = (Route_new ip (ucast p))\<lparr>if_name := Some interface\<rparr>)"
  by (cases "parse_proto_cidr c")
     (auto simp: tunnel_route_def u8_try_from_def parse_proto_cidr_eq_Some simp flip: parse_proto_cidr_eq_Some split: if_splits)

lemma unat_ucast_byte: "unat (p :: 32 word) \<le> 255 \<Longrightarrow> unat (ucast p :: byte) = unat p"
  by (simp add: unsigned_ucast_eq take_bit_nat_eq_self)

lemma filtered_routes_set:
  "r \<in> set (filtered_routes config interface) \<longleftrightarrow>
     (\<exists>ip p. \<lparr>cidr_ip = Some (proto_of_ip ip), cidr_prefix = p\<rparr> \<in> set (peer_allowed_ips config) \<and> unat p \<le> 255 \<and>
        r = (Route_new ip (ucast p))\<lparr>if_name := Some interface\<rparr> \<and>
        \<not> (unat p = host_prefix ip \<and> proto_of_ip ip \<in> set (peer_endpoints config)))"
  by (force simp: filtered_routes_def Let_def map_filter_set tunnel_route_Some host_prefix_if
      parse_proto_ip_iff Route_new_def unat_ucast_byte)

lemma cleanup_state_tables:
  assumes "route_kernel R E table hosts" and "is_ok (fst (rm_new R s))"
    and "\<And>s. table (snd (d s)) = table s \<and> hosts (snd (d s)) = hosts s"
  shows "table (cleanup_state R E routes eps d s) = table s - set routes"
    and "hosts (cleanup_state R E routes eps d s) = hosts s - set eps"
proof -
  have "table (snd (rm_new R s)) = table s" "hosts (snd (rm_new R s)) = hosts s"
    using assms(1) by (simp_all add: route_kernel_def)
  then show "table (cleanup_state R E routes eps d s) = table s - set routes"
    and "hosts (cleanup_state R E routes eps d s) = hosts s - set eps"
    using assms fold_delete_routes [OF assms(1)] fold_delete_hosts [OF assms(1)]
    by (simp_all add: cleanup_state_def Let_def)
qed

lemma route_kernel_replace:
  assumes "route_kernel R E table hosts" and "is_ok (fst (ep_replace E e s))"
  shows "hosts (snd (ep_replace E e s)) = insert e (hosts s) \<and> table (snd (ep_replace E e s)) = table s"
  using assms by (simp add: route_kernel_def)

lemma route_kernel_add:
  assumes "route_kernel R E table hosts" and "is_ok (fst (rm_add R r s))"
  shows "table (snd (rm_add R r s)) = insert r (table s) \<and> hosts (snd (rm_add R r s)) = hosts s"
  using assms by (simp add: route_kernel_def)

lemma replace_endpoints_hosts:
  assumes "route_kernel R E table hosts" and "replace_endpoints io E eps s = (Ok (), s')"
  shows "hosts s' = hosts s \<union> set eps \<and> table s' = table s"
  using assms(2)
proof (induction eps arbitrary: s)
  case (Cons e eps)
  then obtain s1 where "ep_replace E e s = (Ok (), s1)" "replace_endpoints io E eps s1 = (Ok (), s')"
    by (auto split: prod.splits result.splits)
  moreover from this have "hosts s1 = insert e (hosts s) \<and> table s1 = table s"
    using route_kernel_replace [OF assms(1), of e s] by simp
  ultimately show ?case using Cons.IH by auto
qed simp

lemma add_routes_table:
  assumes "route_kernel R E table hosts" and "add_routes io R rs s = (Ok (), s')"
  shows "table s' = table s \<union> set rs \<and> hosts s' = hosts s"
  using assms(2)
proof (induction rs arbitrary: s)
  case (Cons r rs)
  define s0 where "s0 = snd (rm_delete R r s)"
  obtain a s1 where a: "rm_add R r s0 = (a, s1)" by (cases "rm_add R r s0")
  have prems: "a = Ok ()" "add_routes io R rs s1 = (Ok (), s')"
    using Cons.prems a unfolding s0_def by (simp_all split: result.splits)
  have "table s1 = insert r (table s0) \<and> hosts s1 = hosts s0"
    using route_kernel_add [OF assms(1), of r s0] a prems(1) by simp
  moreover have "table s0 = table s - {r} \<and> hosts s0 = hosts s"
    using assms(1) by (simp add: route_kernel_def s0_def)
  ultimately show ?case using Cons.IH [OF prems(2)] by simp
qed simp

lemma add_routes_with_predelete_tables:
  assumes "route_kernel R E table hosts" and "add_routes_with_predelete io R E rs eps s = (Ok (), s')"
  shows "table s' = table s \<union> set rs \<and> hosts s' = hosts s \<union> set eps"
proof -
  obtain s1 where "replace_endpoints io E eps s = (Ok (), s1)" "add_routes io R rs s1 = (Ok (), s')"
    using assms(2) by (auto simp: add_routes_with_predelete_def split: prod.splits result.splits)
  then show ?thesis
    using replace_endpoints_hosts [OF assms(1)] add_routes_table [OF assms(1)] by metis
qed

subsection \<open>A routing table for the examples\<close>

definition sample_routes :: "(route set \<times> 'ep set) route_ops" where
  "sample_routes =
     \<lparr>rm_new = (\<lambda>s. (Ok (), s)),
      rm_add = (\<lambda>r s. (Ok (), (insert r (fst s), snd s))),
      rm_delete = (\<lambda>r s. (if r \<in> fst s then Ok () else Err (OsError 3), (fst s - {r}, snd s))),
      rm_find = (\<lambda>ip s. (Ok None, s))\<rparr>"

definition sample_endpoints :: "(ip_addr, route set \<times> ip_addr set) endpoint_ops" where
  "sample_endpoints =
     \<lparr>ep_lookup = (\<lambda>ip s. (Ok ip, s)),
      ep_replace = (\<lambda>e s. (Ok (), (fst s, insert e (snd s)))),
      ep_delete = (\<lambda>e s. (if e \<in> snd s then Ok () else Err (OsError 3), (fst s, snd s - {e})))\<rparr>"

lemma sample_kernel: "route_kernel sample_routes sample_endpoints fst snd"
  by (simp add: route_kernel_def sample_routes_def sample_endpoints_def)

section \<open>Properties\<close>

text \<open>
  C15: The routes of a session are exactly the allowed ranges of its peers, each through the tunnel
  interface, except the host routes of the peers' own endpoints, which must stay outside the tunnel;
  wider ranges are kept even if they start at an endpoint's address.
\<close>

theorem filtered_routes_exact:
  assumes "valid_config os config"
  shows "r \<in> set (filtered_routes config interface) \<longleftrightarrow>
     (\<exists>ip p. \<lparr>cidr_ip = Some (proto_of_ip ip), cidr_prefix = p\<rparr> \<in> set (peer_allowed_ips config) \<and>
        r = (Route_new ip (ucast p))\<lparr>if_name := Some interface\<rparr> \<and>
        \<not> (unat p = host_prefix ip \<and> proto_of_ip ip \<in> set (peer_endpoints config)))"
proof -
  have "unat p \<le> 255" if "\<lparr>cidr_ip = Some (proto_of_ip ip), cidr_prefix = p\<rparr> \<in> set (peer_allowed_ips config)" for ip p
  proof -
    have "valid_cidr \<lparr>cidr_ip = Some (proto_of_ip ip), cidr_prefix = p\<rparr>"
      using assms that by (simp add: valid_config_def)
    then have "unat p \<le> host_prefix ip" by (auto simp: valid_cidr_def)
    then show ?thesis by (simp add: host_prefix_def split: if_splits)
  qed
  then show ?thesis unfolding filtered_routes_set by blast
qed

theorem filtered_routes_exact_witness:
  "(Route_new (IpV4 0xC0000201) 32)\<lparr>if_name := Some ''utun7''\<rparr> \<notin> set (filtered_routes sample_config ''utun7'')"
proof
  assume "(Route_new (IpV4 0xC0000201) 32)\<lparr>if_name := Some ''utun7''\<rparr> \<in> set (filtered_routes sample_config ''utun7'')"
  then obtain ip p where
    a: "\<lparr>cidr_ip = Some (proto_of_ip ip), cidr_prefix = p\<rparr> \<in> set (peer_allowed_ips sample_config)"
    and r: "(Route_new (IpV4 0xC0000201) 32)\<lparr>if_name := Some ''utun7''\<rparr> = (Route_new ip (ucast p))\<lparr>if_name := Some ''utun7''\<rparr>"
    and n: "\<not> (unat p = host_prefix ip \<and> proto_of_ip ip \<in> set (peer_endpoints sample_config))"
    using filtered_routes_exact [OF sample_config_valid] by blast
  have ip: "ip = IpV4 0xC0000201" "(ucast p :: byte) = 32" using r by (simp_all add: Route_new_def)
  have "proto_of_ip ip = \<lparr>ip_value = Some (V4 [192, 0, 2, 1])\<rparr>" 
    using parse_proto_ip_iff [of "\<lparr>ip_value = Some (V4 [192, 0, 2, 1])\<rparr>" ip]
    by (simp add: parse_proto_ip_def be_nat_def ip(1) del: proto_of_ip.simps)
  then have "p = 32 \<or> p = 0" "proto_of_ip ip \<in> set (peer_endpoints sample_config)"
    using a by (auto simp: sample_config_def)
  then show False using n ip by (auto simp: host_prefix_def)
qed

text \<open>
  C14: The removal never stops half way. Every tunnel route is deleted (if there is a route manager),
  every endpoint route is deleted and the DNS teardown is run, in reverse order of installation and
  whatever the calls report; the result is the list of all errors, in that order, and success exactly
  if there was none.
\<close>

theorem cleanup_runs_to_end:
  "cleanup_routes io R E routes eps d s =
     (let s1 = snd (rm_new R s);
          s2 = (if is_ok (fst (rm_new R s)) then fold (\<lambda>r s. snd (rm_delete R r s)) (rev routes) s1 else s1);
          s3 = fold (\<lambda>e s. snd (ep_delete E e s)) (rev eps) s2;
          errors = (case fst (rm_new R s) of
                      Ok _ \<Rightarrow> sweep_errors (\<lambda>r. str_err io (rm_delete R r)) (rev routes) s1
                    | Err e \<Rightarrow> [io e]) @
                   sweep_errors (\<lambda>e. str_err io (ep_delete E e)) (rev eps) s2 @
                   (case fst (d s3) of Ok _ \<Rightarrow> [] | Err e \<Rightarrow> [e])
      in (if errors = [] then Ok () else Err (join ''; '' errors), snd (d s3)))"
  unfolding cleanup_routes_eq cleanup_state_def cleanup_errors_def errors_result_def Let_def
  by (simp split: if_splits)

text \<open>
  Rollback. On a kernel whose route calls do what they say, a session whose setup failed is
  reported with the setup error first and leaves none of its routes behind; a session whose setup
  succeeded installs all of them, and running its hook later removes exactly them again.
\<close>

lemma routes_rolled_back:
  assumes "route_kernel R E table hosts" and "\<And>s. is_ok (fst (rm_new R s))"
    and "\<And>s. table (snd (teardown interface s)) = table s \<and> hosts (snd (teardown interface s)) = hosts s"
    and "add_routes_with_predelete io R E routes eps s0 = (outcome, s1)"
    and "into_cleanup_hook io R E outcome routes eps interface teardown s1 = (r, s2)"
  shows "(\<forall>e. outcome = Err e \<longrightarrow>
            (\<exists>more. r = Err (e @ more)) \<and> table s2 \<inter> set routes = {} \<and> hosts s2 \<inter> set eps = {}) \<and>
    (is_ok outcome \<longrightarrow> (\<exists>hook. r = Ok hook \<and> table s2 = table s0 \<union> set routes \<and> hosts s2 = hosts s0 \<union> set eps \<and>
       (\<forall>s. table (snd (hook s)) = table s - set routes \<and> hosts (snd (hook s)) = hosts s - set eps)))"
proof -
  let ?clean = "cleanup_routes io R E routes eps (teardown interface)"
  have clean: "table (snd (?clean s)) = table s - set routes" "hosts (snd (?clean s)) = hosts s - set eps" for s
    using cleanup_state_tables [OF assms(1,2), of "teardown interface"] assms(3) by (simp_all add: cleanup_routes_eq)
  show ?thesis
  proof (cases outcome)
    case (Ok u)
    then show ?thesis
      using add_routes_with_predelete_tables [OF assms(1)] assms(4,5) clean by (auto simp: into_cleanup_hook_def)
  next
    case (Err e)
    then have "s2 = snd (?clean s1)" "\<exists>more. r = Err (e @ more)"
      using assms(5) by (auto simp: into_cleanup_hook_def split: prod.splits result.splits)
    with Err clean show ?thesis by auto
  qed
qed

end
