(* ===== verification/Command.thy ===== *)
theory Command
  imports Routes
begin

text \<open>
  External commands, the second half of platform/mod.rs: \<open>read_capped\<close> drains a pipe and keeps at
  most a megabyte of it, \<open>command_output\<close> supervises one child process under a time limit, and
  \<open>run_command\<close> turns what the child did into a result. What a child process does is given by the
  operating system (\<open>process_ops\<close>): the chunks its pipes deliver before the work ends, and the way
  the work ends. \<^verbatim>\<open>String::from_utf8_lossy\<close> is \<open>utf8_lossy\<close>; the Unicode case tables behind
  \<^verbatim>\<open>to_lowercase\<close> are a parameter.
\<close>

section \<open>Definitions\<close>

definition COMMAND_TIMEOUT :: nat where "COMMAND_TIMEOUT = 20"
definition MAX_COMMAND_OUTPUT_BYTES :: nat where "MAX_COMMAND_OUTPUT_BYTES = 1024 * 1024"

text \<open>
  The reads of a pipe, one element per \<^verbatim>\<open>read\<close> call; an empty chunk is the end of the pipe. The
  result is \<open>None\<close> while the loop has not ended.
\<close>

fun read_capped ::
    "nat \<Rightarrow> (bytes, io_error) result list \<Rightarrow> bytes \<Rightarrow> (unit, io_error) result option \<times> bytes" where
  "read_capped max_bytes [] output = (None, output)"
| "read_capped max_bytes (Err e # reads) output = (Some (Err e), output)"
| "read_capped max_bytes (Ok chunk # reads) output =
     (if chunk = [] then (Some (Ok ()), output)
      else let remaining = max_bytes - length output;
               output' = (if remaining > 0 then output @ take (min remaining (length chunk)) chunk else output)
           in read_capped max_bytes reads output')"

subsection \<open>Lossy decoding\<close>

definition continuation :: "byte \<Rightarrow> bool" where
  "continuation b \<longleftrightarrow> 0x80 \<le> b \<and> b \<le> 0xBF"

definition second_of_3 :: "byte \<Rightarrow> byte \<Rightarrow> bool" where
  "second_of_3 a b =
     (if a = 0xE0 then 0xA0 \<le> b \<and> b \<le> 0xBF else if a = 0xED then 0x80 \<le> b \<and> b \<le> 0x9F else continuation b)"

definition second_of_4 :: "byte \<Rightarrow> byte \<Rightarrow> bool" where
  "second_of_4 a b =
     (if a = 0xF0 then 0x90 \<le> b \<and> b \<le> 0xBF else if a = 0xF4 then 0x80 \<le> b \<and> b \<le> 0x8F else continuation b)"

definition char_byte :: "byte \<Rightarrow> char" where
  "char_byte b = char_of (unat b)"

text \<open>
  One step: how many bytes the next character or the next maximal ill-formed sequence takes, and
  whether it is well formed.
\<close>

definition utf8_next :: "bytes \<Rightarrow> nat \<times> bool" where
  "utf8_next bs =
     (let a = hd bs;
          at = (\<lambda>i P. i < length bs \<and> P (bs ! i))
      in if a < 0x80 then (1, True)
         else if 0xC2 \<le> a \<and> a \<le> 0xDF then
           (if at 1 continuation then (2, True) else (1, False))
         else if 0xE0 \<le> a \<and> a \<le> 0xEF then
           (if \<not> at 1 (second_of_3 a) then (1, False)
            else if \<not> at 2 continuation then (2, False) else (3, True))
         else if 0xF0 \<le> a \<and> a \<le> 0xF4 then
           (if \<not> at 1 (second_of_4 a) then (1, False)
            else if \<not> at 2 continuation then (2, False)
            else if \<not> at 3 continuation then (3, False) else (4, True))
         else (1, False))"

function utf8_lossy :: "bytes \<Rightarrow> string" where
  "utf8_lossy bs =
     (if bs = [] then []
      else case utf8_next bs of
             (n, True) \<Rightarrow> map char_byte (take n bs) @ utf8_lossy (drop n bs)
           | (n, False) \<Rightarrow> map char_of [0xEF :: nat, 0xBF, 0xBD] @ utf8_lossy (drop n bs))"
  by pat_completeness auto
termination
proof (relation "measure length", goal_cases)
  case (2 bs x y)
  then show ?case by (auto simp: utf8_next_def Let_def split: if_splits)
next
  case (3 bs x y)
  then show ?case by (auto simp: utf8_next_def Let_def split: if_splits)
qed simp

declare utf8_lossy.simps [simp del]

subsection \<open>Child processes\<close>

record command =
  program :: string
  arguments :: "string list"
  as_root :: bool
  environment :: "(string \<times> string) list"
  stdin_payload :: "string option"

text \<open>An exit code is absent when a signal ended the process.\<close>

datatype exit_status = Exited int | Signaled

datatype work_end =
    Completed exit_status
  | StdinFailed io_error
  | StdoutFailed io_error
  | StderrFailed io_error
  | WaitFailed io_error
  | DeadlinePassed

record child_run =
  stdout_reads :: "(bytes, io_error) result list"
  stderr_reads :: "(bytes, io_error) result list"
  work_end :: work_end
  kill_result :: "(unit, io_error) result"
  reap_result :: "(unit, io_error) result"

record 'os process_ops =
  new_runtime :: "('os, unit) call"
  geteuid :: "'os \<Rightarrow> nat"
  spawn :: "command \<Rightarrow> ('os, child_run) call"

record process_output =
  out_status :: exit_status
  out_stdout :: bytes
  out_stderr :: bytes

fun success :: "exit_status \<Rightarrow> bool" where
  "success (Exited n) = (n = 0)"
| "success Signaled = False"

fun status_code_debug :: "exit_status \<Rightarrow> string" where
  "status_code_debug (Exited n) = ''Some('' @ int_str n @ '')''"
| "status_code_debug Signaled = ''None''"

definition newline :: string where
  "newline = [CHR 0x0A]"

definition work_result :: "(io_error \<Rightarrow> string) \<Rightarrow> nat \<Rightarrow> work_end \<Rightarrow> (exit_status, string) result" where
  "work_result io_str timeout w =
     (case w of
        Completed st \<Rightarrow> Ok st
      | StdinFailed e \<Rightarrow> Err (''failed writing stdin: '' @ io_str e)
      | StdoutFailed e \<Rightarrow> Err (''failed reading stdout: '' @ io_str e)
      | StderrFailed e \<Rightarrow> Err (''failed reading stderr: '' @ io_str e)
      | WaitFailed e \<Rightarrow> Err (''failed waiting: '' @ io_str e)
      | DeadlinePassed \<Rightarrow> Err (''timed out after '' @ dec_str timeout @ ''s''))"

definition command_output ::
    "(io_error \<Rightarrow> string) \<Rightarrow> 'os process_ops \<Rightarrow> command \<Rightarrow> nat \<Rightarrow> 'os \<Rightarrow> (process_output, string) result \<times> 'os" where
  "command_output io_str P cmd timeout s =
     (case new_runtime P s of
        (Err e, s) \<Rightarrow> (Err (''failed to create command runtime: '' @ io_str e), s)
      | (Ok _, s) \<Rightarrow>
          (case spawn P cmd s of
             (Err e, s) \<Rightarrow> (Err (''failed to start: '' @ io_str e), s)
           | (Ok child, s) \<Rightarrow>
               let stdout = snd (read_capped MAX_COMMAND_OUTPUT_BYTES (stdout_reads child) []);
                   stderr = snd (read_capped MAX_COMMAND_OUTPUT_BYTES (stderr_reads child) [])
               in (case work_result io_str timeout (work_end child) of
                    Ok st \<Rightarrow> (Ok \<lparr>out_status = st, out_stdout = stdout, out_stderr = stderr\<rparr>, s)
                  | Err error \<Rightarrow>
                      let detail = error @ newline @ ''stdout: '' @ trim (utf8_lossy stdout) @ newline @
                                   ''stderr: '' @ trim (utf8_lossy stderr);
                          detail = (case kill_result child of
                                      Ok _ \<Rightarrow> detail
                                    | Err e \<Rightarrow> detail @ newline @ ''failed to terminate: '' @ io_str e);
                          detail = (case reap_result child of
                                      Ok _ \<Rightarrow> detail
                                    | Err e \<Rightarrow> detail @ newline @ ''failed to reap: '' @ io_str e)
                      in (Err detail, s))))"

text \<open>\<^verbatim>\<open>str::contains\<close>\<close>

fun contains_str :: "string \<Rightarrow> string \<Rightarrow> bool" where
  "contains_str [] p = (p = [])"
| "contains_str (c # s) p = (strip_prefix p (c # s) \<noteq> None \<or> contains_str s p)"

definition run_command ::
    "(io_error \<Rightarrow> string) \<Rightarrow> (string \<Rightarrow> string) \<Rightarrow> 'os process_ops \<Rightarrow> string \<Rightarrow> string \<Rightarrow> string list \<Rightarrow>
       string option \<Rightarrow> (string \<times> string) list \<Rightarrow> string list \<Rightarrow> 'os \<Rightarrow> (string, string) result \<times> 'os" where
  "run_command io_str to_lowercase P operation_label prog args input env ignored_failure_patterns s =
     (let cmd = \<lparr>program = prog, arguments = args, as_root = (geteuid P s = 0), environment = env,
                 stdin_payload = input\<rparr>
      in case command_output io_str P cmd COMMAND_TIMEOUT s of
           (Err error, s) \<Rightarrow> (Err (operation_label @ '': command '' @ [CHR 0x27] @ prog @ [CHR 0x27] @ '': '' @ error), s)
         | (Ok output, s) \<Rightarrow>
             let stdout = utf8_lossy (out_stdout output);
                 stderr = utf8_lossy (out_stderr output)
             in if success (out_status output) then (Ok stdout, s)
                else let output_detail = to_lowercase stdout @ newline @ to_lowercase stderr
                     in if list_ex (contains_str output_detail) ignored_failure_patterns then (Ok stdout, s)
                        else (Err (operation_label @ '': command '' @ [CHR 0x27] @ prog @ [CHR 0x27] @
                                   '' failed (code '' @ status_code_debug (out_status output) @ '')'' @ newline @
                                   ''stdout: '' @ trim stdout @ newline @ ''stderr: '' @ trim stderr), s))"

text \<open>\<^verbatim>\<open>ensure_required_binaries\<close>: the lookup of a program in the search path is the which crate's.\<close>

definition required_binaries :: "target_os \<Rightarrow> string list" where
  "required_binaries os =
     (case os of Linux \<Rightarrow> [''resolvectl''] | Macos \<Rightarrow> [] | Windows \<Rightarrow> [''powershell''])"

fun ensure_required_binaries :: "(string \<Rightarrow> bool) \<Rightarrow> string list \<Rightarrow> (unit, string) result" where
  "ensure_required_binaries which [] = Ok ()"
| "ensure_required_binaries which (binary # rest) =
     (if which binary then ensure_required_binaries which rest
      else Err (''required binary '' @ [CHR 0x27] @ binary @ [CHR 0x27] @ '' not found in PATH''))"

section \<open>Lemmas\<close>

text \<open>The chunks a pipe delivers before it ends, fails or stops being read.\<close>

fun delivered :: "(bytes, io_error) result list \<Rightarrow> bytes" where
  "delivered [] = []"
| "delivered (Err e # reads) = []"
| "delivered (Ok chunk # reads) = (if chunk = [] then [] else chunk @ delivered reads)"

lemma read_capped_output:
  "length buf \<le> max_bytes \<Longrightarrow>
     snd (read_capped max_bytes reads buf) = buf @ take (max_bytes - length buf) (delivered reads)"
proof (induction max_bytes reads buf rule: read_capped.induct)
  case (3 max_bytes chunk reads buf)
  show ?case
  proof (cases "chunk = []")
    case False
    let ?out = "buf @ take (max_bytes - length buf) chunk"
    have "read_capped max_bytes (Ok chunk # reads) buf = read_capped max_bytes reads ?out"
      using False "3.prems" by (simp add: Let_def min_def)
    moreover have "length ?out \<le> max_bytes" using "3.prems" by simp
    moreover have "(if max_bytes - length buf > 0
        then buf @ take (min (max_bytes - length buf) (length chunk)) chunk else buf) = ?out"
      by (simp add: min_def)
    moreover have "max_bytes - (length buf + min (length chunk) (max_bytes - length buf)) =
        max_bytes - (length buf + length chunk)"
      by (simp add: min_def)
    ultimately show ?thesis
      using "3.IH" [OF False refl refl] False by simp
  qed simp
qed simp_all

lemma read_capped_bound:
  "length (snd (read_capped max_bytes reads [])) \<le> max_bytes"
  by (simp add: read_capped_output)

lemma read_capped_waits:
  "fst (read_capped max_bytes reads buf) = None \<longleftrightarrow> (\<forall>r \<in> set reads. \<exists>chunk. r = Ok chunk \<and> chunk \<noteq> [])"
  by (induction max_bytes reads buf rule: read_capped.induct) (auto simp: Let_def)

lemma contains_str_iff: "contains_str s p \<longleftrightarrow> (\<exists>u v. s = u @ p @ v)"
proof (induction s)
  case (Cons c s)
  have "(\<exists>u v. c # s = u @ p @ v) \<longleftrightarrow> (\<exists>v. c # s = p @ v) \<or> (\<exists>u v. s = u @ p @ v)" (is "?l \<longleftrightarrow> ?r")
  proof
    assume ?l
    then obtain u v where "c # s = u @ p @ v" by blast
    then show ?r by (cases u) auto
  next
    assume ?r
    then show ?l by (metis append_Cons append_Nil)
  qed
  with Cons show ?case by (simp add: strip_prefix_eq_None)
qed simp

lemma ensure_required_binaries_ok:
  "ensure_required_binaries which bins = Ok () \<longleftrightarrow> (\<forall>b \<in> set bins. which b)"
  by (induction bins) auto

lemma command_output_Ok:
  assumes "new_runtime P s = (Ok (), s1)" and "spawn P cmd s1 = (Ok child, s2)" and "work_end child = Completed st"
  shows "command_output io P cmd timeout s =
    (Ok \<lparr>out_status = st,
         out_stdout = take MAX_COMMAND_OUTPUT_BYTES (delivered (stdout_reads child)),
         out_stderr = take MAX_COMMAND_OUTPUT_BYTES (delivered (stderr_reads child))\<rparr>, s2)"
  using assms by (simp add: command_output_def work_result_def read_capped_output)

section \<open>Outcomes\<close>

text \<open>
  The output kept of a child is the first mebibyte of what its pipe delivered, however the bytes
  were split over the reads: the loop drains the pipe to its end (or its first error) without ever
  holding more.
\<close>

lemma read_capped_prefix:
  "snd (read_capped max_bytes reads []) = take max_bytes (delivered reads) \<and>
   (fst (read_capped max_bytes reads []) = None \<longleftrightarrow> (\<forall>r \<in> set reads. \<exists>chunk. r = Ok chunk \<and> chunk \<noteq> []))"
  by (simp add: read_capped_output read_capped_waits)

text \<open>
  A command whose process ran to completion succeeds exactly if it exited with code zero or its
  output, in lower case, contains one of the failures the caller ignores; success returns the captured
  output. The command runs as root exactly if the daemon does, with the arguments, environment and
  input of the caller.
\<close>

lemma run_command_outcome:
  assumes "new_runtime P s = (Ok (), s1)"
    and "spawn P \<lparr>program = prog, arguments = args, as_root = (geteuid P s = 0), environment = env,
                  stdin_payload = input\<rparr> s1 = (Ok child, s2)"
    and "work_end child = Completed st"
    and "captured = (\<lambda>reads. utf8_lossy (take (1024 * 1024) (delivered reads)))"
  shows "let r = run_command io lower P label prog args input env ignored s in
    snd r = s2 \<and>
    (is_ok (fst r) \<longleftrightarrow> st = Exited 0 \<or>
       (\<exists>p \<in> set ignored. \<exists>u v. lower (captured (stdout_reads child)) @ newline @ lower (captured (stderr_reads child)) =
          u @ p @ v)) \<and>
    (\<forall>out. fst r = Ok out \<longrightarrow> out = captured (stdout_reads child))"
proof -
  have st: "success st \<longleftrightarrow> st = Exited 0" by (cases st) auto
  let ?d = "lower (captured (stdout_reads child)) @ newline @ lower (captured (stderr_reads child))"
  have m: "MAX_COMMAND_OUTPUT_BYTES = 1024 * 1024" by (simp add: MAX_COMMAND_OUTPUT_BYTES_def)
  have "list_ex (contains_str ?d) ignored \<longleftrightarrow> (\<exists>p \<in> set ignored. \<exists>u v. ?d = u @ p @ v)"
    by (simp only: list_ex_iff Bex_def contains_str_iff)
  then show ?thesis
    using command_output_Ok [OF assms(1-3), of io COMMAND_TIMEOUT] st
    by (simp add: run_command_def Let_def assms(4) m del: append_assoc)
qed

end
