(* ===== verification/Configure.thy ===== *)
theory Configure
  imports Command
begin

text \<open>
  The platform adapters that share the route code of platform/mod.rs: platform/linux.rs,
  platform/windows.rs and the Windows \<^verbatim>\<open>EndpointRoute\<close> of platform/endpoint_windows.rs. A
  configuration step that panics is \<^term>\<open>None\<close>. The PowerShell texts are a parameter
  \<open>script\<close>, one per constant of windows.rs.
\<close>

section \<open>Definitions\<close>

text \<open>Two fallible steps in sequence: \<^verbatim>\<open>f()?; g()\<close>.\<close>

definition then_do :: "'os hook \<Rightarrow> 'os hook \<Rightarrow> 'os hook" where
  "then_do f g s = (case f s of (Err e, s) \<Rightarrow> (Err e, s) | (Ok _, s) \<Rightarrow> g s)"

definition ignore_ok :: "('os \<Rightarrow> ('a, string) result \<times> 'os) \<Rightarrow> 'os hook" where
  "ignore_ok f s = (case f s of (r, s) \<Rightarrow> (map_ok (\<lambda>_. ()) r, s))"

definition config_servers :: "tun_session_config \<Rightarrow> proto_ip list" where
  "config_servers config = (case dns config of Some d \<Rightarrow> servers d | None \<Rightarrow> [])"

definition config_domains :: "tun_session_config \<Rightarrow> string list" where
  "config_domains config = (case dns config of Some d \<Rightarrow> search_domains d | None \<Rightarrow> [])"

text \<open>The calls of the operating system and of the crates over it, as one parameter.\<close>

record ('ep, 'os) platform =
  io_str :: "io_error \<Rightarrow> string"
  to_lowercase :: "string \<Rightarrow> string"
  route_mgr :: "'os route_ops"
  endpoints :: "('ep, 'os) endpoint_ops"
  processes :: "'os process_ops"

abbreviation command_of ::
    "('ep, 'os) platform \<Rightarrow> string \<Rightarrow> string \<Rightarrow> string list \<Rightarrow> (string \<times> string) list \<Rightarrow> 'os \<Rightarrow> (string, string) result \<times> 'os" where
  "command_of X label prog args env \<equiv>
     run_command (io_str X) (to_lowercase X) (processes X) label prog args None env []"

subsection \<open>Linux\<close>

definition revert_dns :: "('ep, 'os) platform \<Rightarrow> string \<Rightarrow> 'os hook" where
  "revert_dns X interface =
     ignore_ok (command_of X ''revert-dns'' ''resolvectl'' [''revert'', interface] [])"

text \<open>The two parts of the setup closure: the routes, then the DNS settings of the interface.\<close>

definition linux_dns :: "('ep, 'os) platform \<Rightarrow> string \<Rightarrow> string list \<Rightarrow> string list \<Rightarrow> 'os hook" where
  "linux_dns X interface dns_servers dns_domains =
     then_do (revert_dns X interface)
       (if dns_servers \<noteq> [] \<and> dns_domains \<noteq> []
        then then_do
               (ignore_ok (command_of X ''set-dns'' ''resolvectl'' ([''dns'', interface] @ dns_servers) []))
               (ignore_ok (command_of X ''set-domains'' ''resolvectl'' ([''domain'', interface] @ dns_domains) []))
        else (\<lambda>s. (Ok (), s)))"

definition linux_setup ::
    "('ep, 'os) platform \<Rightarrow> string \<Rightarrow> route list \<Rightarrow> 'ep list \<Rightarrow> string list \<Rightarrow> string list \<Rightarrow> 'os hook" where
  "linux_setup X interface routes eps dns_servers dns_domains =
     then_do (add_routes_with_predelete (io_str X) (route_mgr X) (endpoints X) routes eps)
       (linux_dns X interface dns_servers dns_domains)"

definition linux_configure_session ::
    "('ep, 'os) platform \<Rightarrow> tun_session_config \<Rightarrow> string \<Rightarrow> 'ep list \<Rightarrow> 'os \<Rightarrow> ('os hook, string) result option \<times> 'os" where
  "linux_configure_session X config interface endpoint_routes s =
     (case build_and_filter_routes (io_str X) (route_mgr X) config interface endpoint_routes s of
        (Err e, s) \<Rightarrow> (Some (Err e), s)
      | (Ok (routes, eps), s) \<Rightarrow>
          (case ips_to_args (config_servers config) of
             None \<Rightarrow> (None, s)
           | Some dns_servers \<Rightarrow>
               let dns_domains = map (\<lambda>d. ''~'' @ d) (normalize_domains (config_domains config));
                   (setup_result, s) = linux_setup X interface routes eps dns_servers dns_domains s;
                   (r, s) = into_cleanup_hook (io_str X) (route_mgr X) (endpoints X) setup_result routes eps
                              interface (revert_dns X) s
               in (Some r, s)))"

subsection \<open>Windows\<close>

datatype nrpt_script = SET_NRPT_RULE_SCRIPT | CLEAR_NRPT_RULES_SCRIPT | CLEAR_STALE_NRPT_RULES_SCRIPT

definition NRPT_COMMENT_PREFIX :: string where
  "NRPT_COMMENT_PREFIX = ''kmpvpn-daemon:''"

text \<open>The daemon's process id, and the high and low halves of its creation \<^verbatim>\<open>FILETIME\<close>.\<close>

record win_process =
  win_pid :: "32 word"
  creation_time :: "(32 word \<times> 32 word, string) result"

unbundle bit_operations_syntax

definition filetime_ticks :: "32 word \<Rightarrow> 32 word \<Rightarrow> 64 word" where
  "filetime_ticks high low = push_bit 32 (ucast high) OR ucast low"

definition rule_comment :: "win_process \<Rightarrow> string \<Rightarrow> (string, string) result" where
  "rule_comment W interface =
     and_then (map_err (\<lambda>error. ''failed to identify NRPT owner: '' @ error) (creation_time W))
       (\<lambda>(high, low).
          Ok (NRPT_COMMENT_PREFIX @ dec_str (unat (win_pid W)) @ '':'' @
              dec_str (unat (filetime_ticks high low)) @ '':'' @ interface))"

definition powershell_args :: "(nrpt_script \<Rightarrow> string) \<Rightarrow> nrpt_script \<Rightarrow> string list" where
  "powershell_args script k = [''-NoProfile'', ''-NonInteractive'', ''-Command'', script k]"

definition clear_nrpt_rules ::
    "('ep, 'os) platform \<Rightarrow> (nrpt_script \<Rightarrow> string) \<Rightarrow> win_process \<Rightarrow> string \<Rightarrow> 'os hook" where
  "clear_nrpt_rules X script W interface s =
     (case rule_comment W interface of
        Err e \<Rightarrow> (Err e, s)
      | Ok comment \<Rightarrow>
          ignore_ok (command_of X ''clear-nrpt-rules'' ''powershell''
            (powershell_args script CLEAR_NRPT_RULES_SCRIPT) [(''WG_KOTLIN_NRPT_COMMENT'', comment)]) s)"

definition set_nrpt_rules ::
    "('ep, 'os) platform \<Rightarrow> (nrpt_script \<Rightarrow> string) \<Rightarrow> win_process \<Rightarrow> string \<Rightarrow> string list \<Rightarrow> string list \<Rightarrow> 'os hook" where
  "set_nrpt_rules X script W interface dns_servers dns_domains s =
     (case rule_comment W interface of
        Err e \<Rightarrow> (Err e, s)
      | Ok comment \<Rightarrow>
          ignore_ok (command_of X ''set-nrpt-rules'' ''powershell''
            (powershell_args script SET_NRPT_RULE_SCRIPT)
            [(''WG_KOTLIN_DNS_NAMESPACES'', join newline dns_domains),
             (''WG_KOTLIN_DNS_SERVERS'', join newline dns_servers),
             (''WG_KOTLIN_NRPT_COMMENT'', comment)]) s)"

definition windows_dns ::
    "('ep, 'os) platform \<Rightarrow> (nrpt_script \<Rightarrow> string) \<Rightarrow> win_process \<Rightarrow> string \<Rightarrow> string list \<Rightarrow> string list \<Rightarrow> 'os hook" where
  "windows_dns X script W interface dns_servers dns_domains =
     then_do (clear_nrpt_rules X script W interface)
       (if dns_domains \<noteq> [] \<and> dns_servers \<noteq> []
        then set_nrpt_rules X script W interface dns_servers dns_domains
        else (\<lambda>s. (Ok (), s)))"

definition windows_setup ::
    "('ep, 'os) platform \<Rightarrow> (nrpt_script \<Rightarrow> string) \<Rightarrow> win_process \<Rightarrow> string \<Rightarrow> route list \<Rightarrow> 'ep list \<Rightarrow>
       string list \<Rightarrow> string list \<Rightarrow> 'os hook" where
  "windows_setup X script W interface routes eps dns_servers dns_domains =
     then_do (add_routes_with_predelete (io_str X) (route_mgr X) (endpoints X) routes eps)
       (windows_dns X script W interface dns_servers dns_domains)"

definition windows_configure_session ::
    "('ep, 'os) platform \<Rightarrow> (nrpt_script \<Rightarrow> string) \<Rightarrow> win_process \<Rightarrow> tun_session_config \<Rightarrow> string \<Rightarrow> 'ep list \<Rightarrow>
       'os \<Rightarrow> ('os hook, string) result option \<times> 'os" where
  "windows_configure_session X script W config interface endpoint_routes s =
     (case build_and_filter_routes (io_str X) (route_mgr X) config interface endpoint_routes s of
        (Err e, s) \<Rightarrow> (Some (Err e), s)
      | (Ok (routes, eps), s) \<Rightarrow>
          (case ips_to_args (config_servers config) of
             None \<Rightarrow> (None, s)
           | Some dns_servers \<Rightarrow>
               let dns_domains = map (\<lambda>d. ''.'' @ d) (normalize_domains (config_domains config));
                   (setup_result, s) = windows_setup X script W interface routes eps dns_servers dns_domains s;
                   (r, s) = into_cleanup_hook (io_str X) (route_mgr X) (endpoints X) setup_result routes eps
                              interface (clear_nrpt_rules X script W) s
               in (Some r, s)))"

text \<open>
  \<^verbatim>\<open>clear_stale_nrpt_rules_once\<close>: the static flag is passed in and returned. It is set only when the
  command succeeded, so a failed attempt is repeated by the next session.
\<close>

definition clear_stale_nrpt_rules_once ::
    "('ep, 'os) platform \<Rightarrow> (nrpt_script \<Rightarrow> string) \<Rightarrow> bool \<Rightarrow> 'os \<Rightarrow> (unit, string) result \<times> bool \<times> 'os" where
  "clear_stale_nrpt_rules_once X script cleared s =
     (if cleared then (Ok (), cleared, s)
      else case command_of X ''clear-stale-nrpt-rules'' ''powershell''
                  (powershell_args script CLEAR_STALE_NRPT_RULES_SCRIPT)
                  [(''WG_KOTLIN_NRPT_COMMENT_PREFIX'', NRPT_COMMENT_PREFIX)] s of
             (Err e, s) \<Rightarrow> (Err e, cleared, s)
           | (Ok _, s) \<Rightarrow> (Ok (), True, s))"

subsection \<open>Endpoint routes on Windows\<close>

definition win_from_route :: "ip_addr \<Rightarrow> route \<Rightarrow> route" where
  "win_from_route ip found =
     (let r = Route_new ip (if is_ipv4 ip then 32 else 128);
          r = (case gateway found of Some g \<Rightarrow> r\<lparr>gateway := Some g\<rparr> | None \<Rightarrow> r);
          r = (case if_name found of Some n \<Rightarrow> r\<lparr>if_name := Some n\<rparr> | None \<Rightarrow> r);
          r = (case if_index found of Some i \<Rightarrow> r\<lparr>if_index := Some i\<rparr> | None \<Rightarrow> r);
          r = (case metric found of Some m \<Rightarrow> r\<lparr>metric := Some m\<rparr> | None \<Rightarrow> r);
          r = (case luid found of Some l \<Rightarrow> r\<lparr>luid := Some l\<rparr> | None \<Rightarrow> r)
      in r)"

definition win_lookup :: "'os route_ops \<Rightarrow> ip_addr \<Rightarrow> ('os, route) call" where
  "win_lookup R ip s =
     (case rm_new R s of
        (Err e, s) \<Rightarrow> (Err e, s)
      | (Ok _, s) \<Rightarrow>
          (case rm_find R ip s of
             (Err e, s) \<Rightarrow> (Err e, s)
           | (Ok None, s) \<Rightarrow> (Err (IoError OtherKind ''no route to endpoint''), s)
           | (Ok (Some found), s) \<Rightarrow> (Ok (win_from_route ip found), s)))"

definition win_replace :: "'os route_ops \<Rightarrow> route \<Rightarrow> ('os, unit) call" where
  "win_replace R r s =
     (case rm_new R s of
        (Err e, s) \<Rightarrow> (Err e, s)
      | (Ok _, s) \<Rightarrow> rm_add R r (snd (rm_delete R r s)))"

definition win_delete :: "'os route_ops \<Rightarrow> route \<Rightarrow> ('os, unit) call" where
  "win_delete R r s = (case rm_new R s of (Err e, s) \<Rightarrow> (Err e, s) | (Ok _, s) \<Rightarrow> rm_delete R r s)"

definition win_endpoints :: "'os route_ops \<Rightarrow> (route, 'os) endpoint_ops" where
  "win_endpoints R = \<lparr>ep_lookup = win_lookup R, ep_replace = win_replace R, ep_delete = win_delete R\<rparr>"

section \<open>Lemmas\<close>

lemma config_servers_valid:
  "valid_config os config \<Longrightarrow> s \<in> set (config_servers config) \<Longrightarrow> \<exists>ip. s = proto_of_ip ip"
  by (cases "dns config") (auto simp: valid_config_def valid_dns_def config_servers_def)

lemma config_domains_valid:
  "valid_config os config \<Longrightarrow> d \<in> set (config_domains config) \<Longrightarrow> length d \<le> 253 \<and> host_name (bare_domain d)"
  by (cases "dns config") (auto simp: valid_config_def valid_dns_def config_domains_def)

lemma ips_to_args_valid:
  assumes "valid_config os config"
  shows "\<exists>args. ips_to_args (config_servers config) = Some args \<and> distinct args \<and>
    set args = {ip_to_string ip | ip. proto_of_ip ip \<in> set (config_servers config)}"
proof -
  have a: "\<exists>ip. parse_proto_ip s = Some ip \<and> s = proto_of_ip ip" if "s \<in> set (config_servers config)" for s
    using config_servers_valid [OF assms that] by auto
  then have "ips_to_args (config_servers config) =
      Some (first_occurrences (map (\<lambda>a. ip_to_string (the (parse_proto_ip a))) (config_servers config)))"
    unfolding ips_to_args_eq by force
  moreover have "set (map (\<lambda>a. ip_to_string (the (parse_proto_ip a))) (config_servers config)) =
      {ip_to_string ip | ip. proto_of_ip ip \<in> set (config_servers config)}"
    using a by (force simp: image_iff)
  ultimately show ?thesis by simp
qed

lemma normalize_domains_valid:
  assumes "valid_config os config"
  shows "normalize_domains (config_domains config) = first_occurrences (map bare_domain (config_domains config))"
    and "d \<in> set (normalize_domains (config_domains config)) \<Longrightarrow> host_name d"
proof -
  have "filter (\<lambda>d. d \<noteq> []) (map bare_domain (config_domains config)) = map bare_domain (config_domains config)"
    using config_domains_valid [OF assms] host_name_not_Nil by (auto simp: filter_id_conv)
  then show *: "normalize_domains (config_domains config) = first_occurrences (map bare_domain (config_domains config))"
    by (simp add: normalize_domains_eq)
  show "d \<in> set (normalize_domains (config_domains config)) \<Longrightarrow> host_name d"
    using config_domains_valid [OF assms] unfolding * by auto
qed

subsection \<open>Commands and the routing tables\<close>

text \<open>The calls that start a process leave a table as it is.\<close>

definition keeps_table :: "'os process_ops \<Rightarrow> ('os \<Rightarrow> 'a) \<Rightarrow> bool" where
  "keeps_table P table \<longleftrightarrow>
     (\<forall>s. table (snd (new_runtime P s)) = table s) \<and> (\<forall>cmd s. table (snd (spawn P cmd s)) = table s)"

lemma command_output_table: "keeps_table P table \<Longrightarrow> table (snd (command_output io P cmd t s)) = table s"
  by (auto simp: keeps_table_def command_output_def Let_def split: prod.splits result.splits)
     (metis snd_conv)+

lemma run_command_state:
  "snd (run_command io lower P label prog args input env ign s) =
     snd (command_output io P \<lparr>program = prog, arguments = args, as_root = (geteuid P s = 0), environment = env,
            stdin_payload = input\<rparr> COMMAND_TIMEOUT s)"
  by (simp add: run_command_def Let_def split: prod.split result.split)

lemma run_command_table:
  "keeps_table P table \<Longrightarrow> table (snd (run_command io lower P label prog args input env ign s)) = table s"
  by (simp add: run_command_state command_output_table)

lemma ignore_ok_table: "table (snd (f s)) = table s \<Longrightarrow> table (snd (ignore_ok f s)) = table s"
  by (cases "f s") (simp add: ignore_ok_def)

lemma then_do_table:
  "(\<And>s. table (snd (f s)) = table s) \<Longrightarrow> (\<And>s. table (snd (g s)) = table s) \<Longrightarrow>
     table (snd (then_do f g s)) = table s"
  by (auto simp: then_do_def split: prod.splits result.splits) (metis snd_conv)+

lemma revert_dns_table: "keeps_table (processes X) table \<Longrightarrow> table (snd (revert_dns X interface s)) = table s"
  by (simp add: revert_dns_def ignore_ok_table run_command_table)

lemma clear_nrpt_rules_table:
  "keeps_table (processes X) table \<Longrightarrow> table (snd (clear_nrpt_rules X script W interface s)) = table s"
  by (simp add: clear_nrpt_rules_def ignore_ok_table run_command_table split: result.splits)

lemma set_nrpt_rules_table:
  "keeps_table (processes X) table \<Longrightarrow> table (snd (set_nrpt_rules X script W interface ds ns s)) = table s"
  by (simp add: set_nrpt_rules_def ignore_ok_table run_command_table split: result.splits)

lemma then_do_Ok:
  "then_do f g s = (Ok (), s') \<longleftrightarrow> (\<exists>s1. f s = (Ok (), s1) \<and> g s1 = (Ok (), s'))"
  by (auto simp: then_do_def split: prod.splits result.splits)

text \<open>
  A platform setup first installs the routes and then works on the DNS part, which leaves the tables
  alone; so what holds of the routes after the first part holds after the setup.
\<close>

lemma setup_tables:
  assumes "route_kernel R E table hosts"
    and "\<And>s. table (snd (rest s)) = table s" and "\<And>s. hosts (snd (rest s)) = hosts s"
    and "then_do (add_routes_with_predelete io R E routes eps) rest s = (Ok (), s')"
  shows "table s' = table s \<union> set routes \<and> hosts s' = hosts s \<union> set eps"
proof -
  obtain s1 where s1: "add_routes_with_predelete io R E routes eps s = (Ok (), s1)" "rest s1 = (Ok (), s')"
    using assms(4) unfolding then_do_Ok by blast
  have "table s' = table s1" "hosts s' = hosts s1"
    using s1(2) assms(2,3) [of s1] by simp_all
  with add_routes_with_predelete_tables [OF assms(1) s1(1)] show ?thesis by simp
qed

text \<open>What is common to the two platforms after the routes are built.\<close>

lemma configured_tables:
  assumes kernel: "route_kernel R E table hosts" and new: "\<And>s. is_ok (fst (rm_new R s))"
    and dns: "\<And>s. table (snd (dns_teardown interface s)) = table s"
      "\<And>s. hosts (snd (dns_teardown interface s)) = hosts s"
    and rest: "\<And>s. table (snd (rest s)) = table s" "\<And>s. hosts (snd (rest s)) = hosts s"
    and run: "then_do (add_routes_with_predelete io R E routes eps) rest s = (outcome, s1)"
    and hook: "into_cleanup_hook io R E outcome routes eps interface dns_teardown s1 = (r, s2)"
  shows "(case r of
      Ok hook \<Rightarrow> table s2 = table s \<union> set routes \<and> hosts s2 = hosts s \<union> set eps \<and>
        (\<forall>s. table (snd (hook s)) = table s - set routes \<and> hosts (snd (hook s)) = hosts s - set eps)
    | Err _ \<Rightarrow> table s2 \<inter> set routes = {} \<and> hosts s2 \<inter> set eps = {})"
proof -
  let ?clean = "cleanup_routes io R E routes eps (dns_teardown interface)"
  have clean: "table (snd (?clean s)) = table s - set routes" "hosts (snd (?clean s)) = hosts s - set eps" for s
    using cleanup_state_tables [OF kernel new, of "dns_teardown interface"] dns by (simp_all add: cleanup_routes_eq)
  show ?thesis
  proof (cases outcome)
    case (Ok u)
    then have "r = Ok ?clean" "s2 = s1" using hook by (simp_all add: into_cleanup_hook_def Let_def)
    moreover have "table s1 = table s \<union> set routes \<and> hosts s1 = hosts s \<union> set eps"
      using setup_tables [of R E table hosts rest io routes eps s s1] kernel rest run Ok by simp
    ultimately show ?thesis using clean by simp
  next
    case (Err e)
    then have "s2 = snd (?clean s1)" "\<exists>e'. r = Err e'"
      using hook by (auto simp: into_cleanup_hook_def Let_def split: prod.splits result.splits)
    with clean show ?thesis by auto
  qed
qed

lemma linux_dns_table:
  "keeps_table (processes X) table \<Longrightarrow> table (snd (linux_dns X interface ips domains s)) = table s"
  unfolding linux_dns_def
  by (intro then_do_table) (simp_all add: revert_dns_table ignore_ok_table run_command_table then_do_table)

lemma windows_dns_table:
  "keeps_table (processes X) table \<Longrightarrow> table (snd (windows_dns X script W interface ips domains s)) = table s"
  unfolding windows_dns_def
  by (intro then_do_table) (simp_all add: clear_nrpt_rules_table set_nrpt_rules_table)

lemma append_single: "(@) [c] = (#) c"
  by (rule ext) simp

text \<open>The common shape of the two \<^verbatim>\<open>configure_session\<close> functions on a valid configuration.\<close>

lemma configure_parts:
  assumes "valid_config os config"
    and "configure = linux_configure_session X \<or> configure = windows_configure_session X script W"
    and "\<And>s. is_ok (fst (rm_new (route_mgr X) s))"
    and "keeps_table (processes X) table" and "keeps_table (processes X) hosts"
    and "configure config interface eps s = (r, s')"
  shows "\<exists>rest teardown s1 outcome s2 r'. rm_new (route_mgr X) s = (Ok (), s1) \<and>
    (\<forall>s. table (snd (rest s)) = table s) \<and> (\<forall>s. hosts (snd (rest s)) = hosts s) \<and>
    (\<forall>s. table (snd (teardown interface s)) = table s) \<and> (\<forall>s. hosts (snd (teardown interface s)) = hosts s) \<and>
    then_do (add_routes_with_predelete (io_str X) (route_mgr X) (endpoints X)
      (filtered_routes config interface) eps) rest s1 = (outcome, s2) \<and>
    into_cleanup_hook (io_str X) (route_mgr X) (endpoints X) outcome (filtered_routes config interface)
      eps interface teardown s2 = (r', s') \<and> r = Some r'"
proof -
  obtain ips where ips: "ips_to_args (config_servers config) = Some ips"
    using ips_to_args_valid [OF assms(1)] by blast
  obtain s1 where new: "rm_new (route_mgr X) s = (Ok (), s1)"
    using assms(3) [of s] by (cases "rm_new (route_mgr X) s") (auto simp: is_ok_iff)
  note keep = linux_dns_table windows_dns_table revert_dns_table clear_nrpt_rules_table
  note defs = linux_configure_session_def windows_configure_session_def linux_setup_def windows_setup_def
    build_and_filter_routes_def
  from assms(2) show ?thesis
  proof
    assume c: "configure = linux_configure_session X"
    let ?rest = "linux_dns X interface ips (map ((#) (CHR ''~'')) (normalize_domains (config_domains config)))"
    show ?thesis
      using assms(4-6) c new ips
      by (intro exI [of _ ?rest] exI [of _ "revert_dns X"]) (auto simp: defs keep append_single split: prod.splits)
  next
    assume c: "configure = windows_configure_session X script W"
    let ?rest = "windows_dns X script W interface ips (map ((#) (CHR ''.'')) (normalize_domains (config_domains config)))"
    show ?thesis
      using assms(4-6) c new ips
      by (intro exI [of _ ?rest] exI [of _ "clear_nrpt_rules X script W"]) (auto simp: defs keep append_single split: prod.splits)
  qed
qed

lemma configure_tables:
  assumes "valid_config os config"
    and "configure = linux_configure_session X \<or> configure = windows_configure_session X script W"
    and "route_kernel (route_mgr X) (endpoints X) table hosts" and "\<And>s. is_ok (fst (rm_new (route_mgr X) s))"
    and "keeps_table (processes X) table" and "keeps_table (processes X) hosts"
    and "configure config interface eps s = (r, s')"
  shows "case r of
      None \<Rightarrow> False
    | Some (Ok hook) \<Rightarrow>
        table s' = table s \<union> set (filtered_routes config interface) \<and> hosts s' = hosts s \<union> set eps \<and>
        (\<forall>s. table (snd (hook s)) = table s - set (filtered_routes config interface) \<and>
             hosts (snd (hook s)) = hosts s - set eps)
    | Some (Err _) \<Rightarrow> table s' \<inter> set (filtered_routes config interface) = {} \<and> hosts s' \<inter> set eps = {}"
proof -
  obtain rest teardown s1 outcome s2 r' where
    new: "rm_new (route_mgr X) s = (Ok (), s1)"
    and rest: "\<And>s. table (snd (rest s)) = table s" "\<And>s. hosts (snd (rest s)) = hosts s"
    and dns: "\<And>s. table (snd (teardown interface s)) = table s" "\<And>s. hosts (snd (teardown interface s)) = hosts s"
    and run: "then_do (add_routes_with_predelete (io_str X) (route_mgr X) (endpoints X)
        (filtered_routes config interface) eps) rest s1 = (outcome, s2)"
    and hook: "into_cleanup_hook (io_str X) (route_mgr X) (endpoints X) outcome (filtered_routes config interface)
        eps interface teardown s2 = (r', s')"
    and r: "r = Some r'"
    using configure_parts [OF assms(1,2,4-7)] by metis
  have "table s1 = table s" "hosts s1 = hosts s"
    using assms(3) new by (auto simp: route_kernel_def dest: spec [of _ s])
  then show ?thesis
    using configured_tables [of "route_mgr X" "endpoints X" table hosts teardown interface rest "io_str X"
        "filtered_routes config interface" eps s1 outcome s2 r' s'] assms(3,4) dns rest run hook r
    by (simp split: result.splits)
qed

subsection \<open>What the platform code leaves alone\<close>

text \<open>A part of the system state that no route, endpoint or process call touches.\<close>

definition platform_keeps :: "('ep, 'os) platform \<Rightarrow> ('os \<Rightarrow> 'a) \<Rightarrow> bool" where
  "platform_keeps X v \<longleftrightarrow>
     (\<forall>s. v (snd (rm_new (route_mgr X) s)) = v s) \<and> (\<forall>r s. v (snd (rm_add (route_mgr X) r s)) = v s) \<and>
     (\<forall>r s. v (snd (rm_delete (route_mgr X) r s)) = v s) \<and> (\<forall>ip s. v (snd (ep_lookup (endpoints X) ip s)) = v s) \<and>
     (\<forall>e s. v (snd (ep_replace (endpoints X) e s)) = v s) \<and> (\<forall>e s. v (snd (ep_delete (endpoints X) e s)) = v s) \<and>
     keeps_table (processes X) v"

lemma fold_keeps: "(\<And>x s. v (f x s) = v s) \<Longrightarrow> v (fold f xs s) = v s"
  by (induction xs arbitrary: s) auto

lemma add_routes_keeps:
  assumes "platform_keeps X v"
  shows "v (snd (add_routes io (route_mgr X) rs s)) = v s"
proof (induction rs arbitrary: s)
  case (Cons r rs)
  let ?a = "rm_add (route_mgr X) r (snd (rm_delete (route_mgr X) r s))"
  have "v (snd ?a) = v s" using assms by (simp add: platform_keeps_def)
  then show ?case using Cons by (cases ?a) (simp split: result.split)
qed simp

lemma replace_endpoints_keeps:
  assumes "platform_keeps X v"
  shows "v (snd (replace_endpoints io (endpoints X) es s)) = v s"
proof (induction es arbitrary: s)
  case (Cons e es)
  have "v (snd (ep_replace (endpoints X) e s)) = v s" using assms by (simp add: platform_keeps_def)
  then show ?case using Cons by (cases "ep_replace (endpoints X) e s") (simp split: result.split)
qed simp

lemma add_routes_with_predelete_keeps:
  assumes "platform_keeps X v"
  shows "v (snd (add_routes_with_predelete io (route_mgr X) (endpoints X) rs es s)) = v s"
  using replace_endpoints_keeps [OF assms, of io es s] add_routes_keeps [OF assms]
  by (cases "replace_endpoints io (endpoints X) es s") (simp add: add_routes_with_predelete_def split: result.split)

lemma resolve_endpoint_routes_keeps:
  assumes "platform_keeps X v"
  shows "v (snd (resolve_endpoint_routes io (endpoints X) config s)) = v s"
proof -
  have "v (snd (resolve_loop io (endpoints X) addrs s)) = v s" for addrs
  proof (induction addrs arbitrary: s)
    case (Cons a addrs)
    have "v (snd (ep_lookup (endpoints X) ip s)) = v s" for ip using assms by (simp add: platform_keeps_def)
    then show ?case
      using Cons by (auto split: option.split prod.split result.split) (metis snd_conv)+
  qed simp
  then show ?thesis by (simp add: resolve_endpoint_routes_def)
qed

lemma cleanup_routes_keeps:
  assumes "platform_keeps X v" and "\<And>s. v (snd (d s)) = v s"
  shows "v (snd (cleanup_routes io (route_mgr X) (endpoints X) rs es d s)) = v s"
proof -
  have a: "v (fold (\<lambda>r s. snd (rm_delete (route_mgr X) r s)) xs s) = v s" for xs s
    using assms(1) by (intro fold_keeps) (simp add: platform_keeps_def)
  have b: "v (fold (\<lambda>e s. snd (ep_delete (endpoints X) e s)) xs s) = v s" for xs s
    using assms(1) by (intro fold_keeps) (simp add: platform_keeps_def)
  show ?thesis
    using assms by (simp add: cleanup_routes_eq cleanup_state_def Let_def a b platform_keeps_def)
qed

lemma into_cleanup_hook_keeps:
  assumes "platform_keeps X v" and "\<And>s. v (snd (d interface s)) = v s"
  shows "v (snd (into_cleanup_hook io (route_mgr X) (endpoints X) outcome rs es interface d s)) = v s"
  using cleanup_routes_keeps [of X v "d interface" io rs es s] assms
  by (cases outcome; cases "cleanup_routes io (route_mgr X) (endpoints X) rs es (d interface) s")
     (simp_all add: into_cleanup_hook_def split: result.split)

lemma configure_keeps:
  assumes "platform_keeps X v"
    and "configure = linux_configure_session X \<or> configure = windows_configure_session X script W"
  shows "v (snd (configure config interface eps s)) = v s"
proof -
  have P: "keeps_table (processes X) v" using assms(1) by (simp add: platform_keeps_def)
  have new: "v (snd (rm_new (route_mgr X) s)) = v s" for s using assms(1) by (simp add: platform_keeps_def)
  have l: "v (snd (linux_setup X interface rs es ips domains s)) = v s" for rs es ips domains s
    unfolding linux_setup_def
    by (intro then_do_table) (simp_all add: add_routes_with_predelete_keeps [OF assms(1)] linux_dns_table [OF P])
  have w: "v (snd (windows_setup X script W interface rs es ips domains s)) = v s" for rs es ips domains s
    unfolding windows_setup_def
    by (intro then_do_table) (simp_all add: add_routes_with_predelete_keeps [OF assms(1)] windows_dns_table [OF P])
  note hook = into_cleanup_hook_keeps [OF assms(1), of "revert_dns X", OF revert_dns_table [OF P]]
    into_cleanup_hook_keeps [OF assms(1), of "clear_nrpt_rules X script W", OF clear_nrpt_rules_table [OF P]]
  show ?thesis
    using assms(2) new [of s]
    by (cases "rm_new (route_mgr X) s"; cases "fst (rm_new (route_mgr X) s)"; cases "ips_to_args (config_servers config)")
       (auto simp: linux_configure_session_def windows_configure_session_def build_and_filter_routes_def
          case_prod_beta Let_def l w hook)
qed

lemma ip_chars_no_newline: "CHR 0x0A \<notin> ip_chars"
  by (simp add: ip_chars_def is_ascii_digit_def code_def)

lemma host_name_no_newline: "host_name d \<Longrightarrow> CHR 0x0A \<notin> set d"
  using host_name_chars [of d] by (auto simp: is_ascii_alphanumeric_def is_ascii_digit_def code_def)

subsection \<open>A platform for the examples\<close>

text \<open>Routes as in the sample table, processes that always exit with code zero.\<close>

definition sample_platform :: "(ip_addr, route set \<times> ip_addr set) platform" where
  "sample_platform =
     \<lparr>io_str = (\<lambda>_. ''io''), to_lowercase = (\<lambda>s. s), route_mgr = sample_routes, endpoints = sample_endpoints,
      processes = \<lparr>new_runtime = (\<lambda>s. (Ok (), s)), geteuid = (\<lambda>s. 0),
        spawn = (\<lambda>cmd s. (Ok \<lparr>stdout_reads = [], stderr_reads = [], work_end = Completed (Exited 0),
                                 kill_result = Ok (), reap_result = Ok ()\<rparr>, s))\<rparr>\<rparr>"

lemma sample_platform_simps:
  "io_str sample_platform = (\<lambda>_. ''io'')" "route_mgr sample_platform = sample_routes"
  "endpoints sample_platform = sample_endpoints"
  by (simp_all add: sample_platform_def)

lemma sample_keeps_table: "keeps_table (processes sample_platform) table"
  by (simp add: keeps_table_def sample_platform_def)

lemma sample_rm_new: "rm_new sample_routes s = (Ok (), s)"
  by (simp add: sample_routes_def)

lemma sample_command: "fst (command_of sample_platform label prog args env s) = Ok []"
  by (simp add: run_command_def command_output_def work_result_def Let_def sample_platform_def utf8_lossy.simps)

lemma fst_ignore_ok: "fst (ignore_ok f s) = map_ok (\<lambda>_. ()) (fst (f s))"
  by (cases "f s") (simp add: ignore_ok_def)

lemma sample_ignore: "fst (ignore_ok (command_of sample_platform label prog args env) s) = Ok ()"
  by (simp add: fst_ignore_ok sample_command)

lemma then_do_all_ok:
  "(\<And>s. fst (f s) = Ok ()) \<Longrightarrow> (\<And>s. fst (g s) = Ok ()) \<Longrightarrow> fst (then_do f g s) = Ok ()"
  by (cases "f s") (auto simp: then_do_def dest: meta_spec [of _ s])

lemma sample_add_routes: "fst (add_routes io sample_routes rs s) = Ok ()"
  by (induction rs arbitrary: s) (simp_all add: sample_routes_def)

lemma sample_replace_endpoints: "fst (replace_endpoints io sample_endpoints es s) = Ok ()"
  by (induction es arbitrary: s) (simp_all add: sample_endpoints_def)

lemma sample_add_routes_with_predelete:
  "fst (add_routes_with_predelete io sample_routes sample_endpoints rs es s) = Ok ()"
  using sample_replace_endpoints [of io es s] sample_add_routes
  by (auto simp: add_routes_with_predelete_def split: prod.splits)

lemma sample_configured:
  assumes "valid_config os config"
  shows "\<exists>hook. fst (linux_configure_session sample_platform config interface eps s) = Some (Ok hook)"
proof -
  obtain ips where ips: "ips_to_args (config_servers config) = Some ips"
    using ips_to_args_valid [OF assms] by blast
  have "fst (linux_dns sample_platform interface ips domains s) = Ok ()" for domains s
    unfolding linux_dns_def revert_dns_def by (intro then_do_all_ok) (simp_all add: sample_ignore then_do_all_ok)
  then have run: "fst (linux_setup sample_platform interface routes eps ips domains s) = Ok ()" for routes domains s
    unfolding linux_setup_def by (intro then_do_all_ok) (simp_all add: sample_add_routes_with_predelete sample_platform_simps)
  show ?thesis
    using ips unfolding linux_configure_session_def build_and_filter_routes_def sample_platform_simps(2) sample_rm_new
    by (simp add: into_cleanup_hook_def Let_def case_prod_beta run)
qed

section \<open>Properties\<close>

text \<open>
  C24: What a valid configuration gives the DNS tools is safe. Reading the servers does not panic, the
  addresses and the domains are each without repetition, an address has only digits, letters a to f,
  dots and colons, a domain is a host name, so neither can be read as an option; and the newline-joined
  lists that Windows passes in the environment split back into exactly these values.
\<close>

theorem dns_arguments_safe:
  assumes "valid_config os config"
  shows "\<exists>ips. ips_to_args (config_servers config) = Some ips \<and> distinct ips \<and>
    (\<forall>ip \<in> set ips. set ip \<subseteq> ip_chars) \<and>
    set ips = {ip_to_string ip | ip. proto_of_ip ip \<in> set (config_servers config)} \<and>
    distinct (normalize_domains (config_domains config)) \<and>
    (\<forall>d \<in> set (normalize_domains (config_domains config)). host_name d \<and> hd d \<noteq> CHR ''-'') \<and>
    (ips \<noteq> [] \<longrightarrow> split_on (CHR 0x0A) (join newline ips) = ips) \<and>
    (normalize_domains (config_domains config) \<noteq> [] \<longrightarrow>
       split_on (CHR 0x0A) (join newline (map (\<lambda>d. ''.'' @ d) (normalize_domains (config_domains config)))) =
         map (\<lambda>d. ''.'' @ d) (normalize_domains (config_domains config)))"
proof -
  obtain ips where ips: "ips_to_args (config_servers config) = Some ips" "distinct ips"
    "set ips = {ip_to_string ip | ip. proto_of_ip ip \<in> set (config_servers config)}"
    using ips_to_args_valid [OF assms] by blast
  have chars: "\<forall>ip \<in> set ips. set ip \<subseteq> ip_chars" using ips(3) ip_to_string_ip_chars by auto
  have d: "\<forall>d \<in> set (normalize_domains (config_domains config)). host_name d"
    using normalize_domains_valid(2) [OF assms] by blast
  have "ips \<noteq> [] \<Longrightarrow> split_on (CHR 0x0A) (join newline ips) = ips"
    unfolding newline_def using chars ip_chars_no_newline by (intro split_on_join) auto
  moreover have "normalize_domains (config_domains config) \<noteq> [] \<Longrightarrow>
      split_on (CHR 0x0A) (join newline (map (\<lambda>d. ''.'' @ d) (normalize_domains (config_domains config)))) =
        map (\<lambda>d. ''.'' @ d) (normalize_domains (config_domains config))"
    unfolding newline_def using d host_name_no_newline by (intro split_on_join) auto
  ultimately show ?thesis
    using ips chars d host_name_hd normalize_domains_valid(1) [OF assms] by (intro exI [of _ ips]) auto
qed

theorem dns_arguments_safe_witness:
  "\<exists>ips. ips_to_args (config_servers sample_config) = Some ips \<and> list_all (\<lambda>ip. set ip \<subseteq> ip_chars) ips \<and> length ips = 1"
proof -
  obtain ips where ips: "ips_to_args (config_servers sample_config) = Some ips" "\<forall>ip \<in> set ips. set ip \<subseteq> ip_chars"
    using dns_arguments_safe [OF sample_config_valid] by metis
  moreover have "length ips = 1"
    using ips(1) by (auto simp: config_servers_def sample_config_def ips_to_args_def proto_ip_to_string_def
        parse_proto_ip_def)
  ultimately show ?thesis by (auto simp: list_all_iff)
qed



end
