(* ===== verification/Session.thy ===== *)
theory Session
  imports Configure
begin

text \<open>
  session.rs: \<^verbatim>\<open>SessionManager::start\<close> and \<^verbatim>\<open>TunSession\<close>. The crate \<^verbatim>\<open>tun_rs\<close> is the parameter
  \<open>device_ops\<close>; a builder is the list of the calls made on it. The fields \<^verbatim>\<open>closed\<close> and
  \<^verbatim>\<open>cleanup_hook\<close> are shared by all clones of a session, so one record stands for the shared session.
  A panic is \<^term>\<open>None\<close>.
\<close>

section \<open>Definitions\<close>

datatype builder_call =
    BuilderName string
  | BuilderIpv4 "32 word" "8 word"
  | BuilderIpv6 "128 word" "8 word"
  | BuilderMtu "16 word"
  | BuilderWintunFile string

record ('dev, 'intr, 'os) device_ops =
  build_sync :: "builder_call list \<Rightarrow> ('os, 'dev) call"
  set_nonblocking :: "'dev \<Rightarrow> ('os, unit) call"
  device_name :: "'dev \<Rightarrow> ('os, string) call"
  interrupt_new :: "('os, 'intr) call"
  interrupt_trigger :: "'intr \<Rightarrow> ('os, unit) call"
  recv_intr :: "'dev \<Rightarrow> 'intr \<Rightarrow> byte list \<Rightarrow> 'os \<Rightarrow> (nat, io_error) result \<times> byte list \<times> 'os"
  send_intr :: "'dev \<Rightarrow> 'intr \<Rightarrow> byte list \<Rightarrow> ('os, nat) call"
  drop_device :: "'dev \<Rightarrow> 'os \<Rightarrow> 'os"

record ('dev, 'intr, 'os) tun_session =
  session_name :: string
  device :: 'dev
  interrupt :: 'intr
  closed :: bool
  cleanup_hook :: "'os hook option"

text \<open>\<^verbatim>\<open>platform::prepare_session_start\<close>; the flag is the static of windows.rs.\<close>

definition prepare_session_start ::
    "target_os \<Rightarrow> ('ep, 'os) platform \<Rightarrow> (nrpt_script \<Rightarrow> string) \<Rightarrow> bool \<Rightarrow> 'os \<Rightarrow> (unit, string) result \<times> bool \<times> 'os" where
  "prepare_session_start os X script cleared s =
     (if os = Windows then clear_stale_nrpt_rules_once X script cleared s else (Ok (), cleared, s))"

fun address_calls :: "cidr list \<Rightarrow> builder_call list option" where
  "address_calls [] = Some []"
| "address_calls (addr # rest) =
     (case parse_proto_cidr addr of
        None \<Rightarrow> None
      | Some (ip, prefix) \<Rightarrow>
          (case u8_try_from prefix of
             None \<Rightarrow> None
           | Some p \<Rightarrow>
               map_option ((#) (case ip of IpV4 v4 \<Rightarrow> BuilderIpv4 v4 p | IpV6 v6 \<Rightarrow> BuilderIpv6 v6 p))
                 (address_calls rest)))"

definition mtu_calls :: "32 word \<Rightarrow> builder_call list" where
  "mtu_calls m = (if 0 < sint m then [BuilderMtu (ucast m)] else [])"

text \<open>The DLL of the Windows build: absent before \<^verbatim>\<open>set_wintun_dll\<close>, and its path as Unicode if it is.\<close>

type_synonym wintun_dll = "string option option"

definition wintun_calls :: "target_os \<Rightarrow> wintun_dll \<Rightarrow> (builder_call list, string) result" where
  "wintun_calls os dll =
     (if os = Windows
      then (case dll of
              Some (Some path) \<Rightarrow> Ok [BuilderWintunFile path]
            | _ \<Rightarrow> Err ''Wintun DLL path is not Unicode'')
      else Ok [])"

type_synonym ('ep, 'os) configure =
  "tun_session_config \<Rightarrow> string \<Rightarrow> 'ep list \<Rightarrow> 'os \<Rightarrow> ('os hook, string) result option \<times> 'os"

text \<open>The part of \<^verbatim>\<open>start\<close> after the device exists; leaving it with an error drops the device.\<close>

definition start_on_device ::
    "target_os \<Rightarrow> ('dev, 'intr, 'os) device_ops \<Rightarrow> ('ep, 'os) platform \<Rightarrow> ('ep, 'os) configure \<Rightarrow>
       tun_session_config \<Rightarrow> 'ep list \<Rightarrow> 'dev \<Rightarrow> 'os \<Rightarrow> (('dev, 'intr, 'os) tun_session, string) result option \<times> 'os" where
  "start_on_device os D X configure config endpoint_routes dev s =
     (case (if os = Windows then (Ok (), s) else set_nonblocking D dev s) of
        (Err e, s) \<Rightarrow> (Some (Err (''failed to configure non-blocking TUN: '' @ io_str X e)), drop_device D dev s)
      | (Ok _, s) \<Rightarrow>
          let (named, s) = device_name D dev s;
              interface = (case named of Ok n \<Rightarrow> n | Err _ \<Rightarrow> interface_name config)
          in (case interrupt_new D s of
                (Err e, s) \<Rightarrow> (Some (Err (''failed to create TUN interrupt event: '' @ io_str X e)), drop_device D dev s)
              | (Ok intr, s) \<Rightarrow>
                  (case configure config interface endpoint_routes s of
                     (None, s) \<Rightarrow> (None, drop_device D dev s)
                   | (Some (Err e), s) \<Rightarrow>
                       (Some (Err (''failed to configure platform session: '' @ e)),
                        drop_device D dev (snd (interrupt_trigger D intr s)))
                   | (Some (Ok hook), s) \<Rightarrow>
                       (Some (Ok \<lparr>session_name = interface, device = dev, interrupt = intr, closed = False,
                                  cleanup_hook = Some hook\<rparr>), s))))"

definition start ::
    "target_os \<Rightarrow> ('dev, 'intr, 'os) device_ops \<Rightarrow> ('ep, 'os) platform \<Rightarrow> (nrpt_script \<Rightarrow> string) \<Rightarrow> wintun_dll \<Rightarrow>
       ('ep, 'os) configure \<Rightarrow> tun_session_config \<Rightarrow> bool \<Rightarrow> 'os \<Rightarrow>
       (('dev, 'intr, 'os) tun_session, string) result option \<times> bool \<times> 'os" where
  "start os D X script dll configure config cleared s =
     (case validate_interface_name os (interface_name config) of
        Err e \<Rightarrow> (Some (Err e), cleared, s)
      | Ok _ \<Rightarrow>
          if os = Windows \<and> dll = None then (Some (Err ''Wintun DLL is not initialized''), cleared, s)
          else (case resolve_endpoint_routes (io_str X) (endpoints X) config s of
                 (Err e, s) \<Rightarrow> (Some (Err e), cleared, s)
               | (Ok endpoint_routes, s) \<Rightarrow>
                   (case prepare_session_start os X script cleared s of
                      (Err e, cleared, s) \<Rightarrow> (Some (Err (''failed to prepare platform session: '' @ e)), cleared, s)
                    | (Ok _, cleared, s) \<Rightarrow>
                        (case address_calls (addresses config) of
                           None \<Rightarrow> (None, cleared, s)
                         | Some addrs \<Rightarrow>
                             (case wintun_calls os dll of
                                Err e \<Rightarrow> (Some (Err e), cleared, s)
                              | Ok wintun \<Rightarrow>
                                  (case build_sync D ([BuilderName (interface_name config)] @ addrs @
                                                      mtu_calls (mtu config) @ wintun) s of
                                     (Err e, s) \<Rightarrow>
                                       (Some (Err (''failed to create TUN device: '' @ io_str X e)), cleared, s)
                                   | (Ok dev, s) \<Rightarrow>
                                       let (r, s) = start_on_device os D X configure config endpoint_routes dev s
                                       in (r, cleared, s)))))))"

definition read_packet ::
    "('dev, 'intr, 'os) device_ops \<Rightarrow> ('dev, 'intr, 'os) tun_session \<Rightarrow> ('os, byte list) call" where
  "read_packet D t s =
     (let (r, buffer, s) = recv_intr D (device t) (interrupt t) (replicate 65536 0) s
      in (map_ok (\<lambda>bytes. take bytes buffer) r, s))"

definition write_packet ::
    "('dev, 'intr, 'os) device_ops \<Rightarrow> ('dev, 'intr, 'os) tun_session \<Rightarrow> byte list \<Rightarrow> ('os, unit) call" where
  "write_packet D t packet s =
     (let (r, s) = send_intr D (device t) (interrupt t) packet s in (map_ok (\<lambda>_. ()) r, s))"

definition close ::
    "('dev, 'intr, 'os) device_ops \<Rightarrow> ('dev, 'intr, 'os) tun_session \<Rightarrow> 'os \<Rightarrow>
       (unit, string) result \<times> ('dev, 'intr, 'os) tun_session \<times> 'os" where
  "close D t s =
     (if closed t then (Ok (), t, s)
      else let t = t\<lparr>closed := True\<rparr>;
               s = snd (interrupt_trigger D (interrupt t) s);
               hook = cleanup_hook t;
               t = t\<lparr>cleanup_hook := None\<rparr>
           in (case hook of
                 None \<Rightarrow> (Ok (), t, s)
               | Some cleanup \<Rightarrow> (case cleanup s of (r, s) \<Rightarrow> (r, t, s))))"

fun close_all ::
    "('dev, 'intr, 'os) device_ops \<Rightarrow> nat \<Rightarrow> ('dev, 'intr, 'os) tun_session \<Rightarrow> 'os \<Rightarrow>
       ('dev, 'intr, 'os) tun_session \<times> 'os" where
  "close_all D 0 t s = (t, s)"
| "close_all D (Suc n) t s = (case close D t s of (_, t, s) \<Rightarrow> close_all D n t s)"

text \<open>A device for the examples: the state is the list of the packets written to it.\<close>

definition sample_device :: "(string, unit, byte list list) device_ops" where
  "sample_device =
     \<lparr>build_sync = (\<lambda>calls s. (Ok (case calls of BuilderName n # _ \<Rightarrow> n | _ \<Rightarrow> []), s)),
      set_nonblocking = (\<lambda>d s. (Ok (), s)),
      device_name = (\<lambda>d s. (Ok d, s)),
      interrupt_new = (\<lambda>s. (Ok (), s)),
      interrupt_trigger = (\<lambda>i s. (Ok (), s)),
      recv_intr = (\<lambda>d i buffer s. (Err (IoError Interrupted []), buffer, s)),
      send_intr = (\<lambda>d i packet s. (Ok (length packet), s @ [packet])),
      drop_device = (\<lambda>d s. s)\<rparr>"

definition sample_session :: "(string, unit, byte list list) tun_session" where
  "sample_session =
     \<lparr>session_name = ''utun7'', device = ''utun7'', interrupt = (), closed = False,
      cleanup_hook = Some (\<lambda>s. (Err ''dns'', s @ [[]]))\<rparr>"

section \<open>Lemmas\<close>

lemma close_closed [simp]: "closed t \<Longrightarrow> close D t s = (Ok (), t, s)"
  by (simp add: close_def)

lemma close_result_closed: "close D t s = (r, t', s') \<Longrightarrow> closed t'"
  by (auto simp: close_def Let_def split: if_splits option.splits prod.splits)

lemma close_all_closed [simp]: "closed t \<Longrightarrow> close_all D n t s = (t, s)"
  by (induction n) simp_all

lemma close_all_once: "0 < n \<Longrightarrow> close_all D n t s = (case close D t s of (_, t, s) \<Rightarrow> (t, s))"
  by (cases n) (auto dest: close_result_closed split: prod.splits)

lemma close_open:
  assumes "\<not> closed t"
  shows "close D t s =
    (case cleanup_hook t of
       None \<Rightarrow> (Ok (), t\<lparr>closed := True, cleanup_hook := None\<rparr>, snd (interrupt_trigger D (interrupt t) s))
     | Some hook \<Rightarrow>
         (fst (hook (snd (interrupt_trigger D (interrupt t) s))), t\<lparr>closed := True, cleanup_hook := None\<rparr>,
          snd (hook (snd (interrupt_trigger D (interrupt t) s)))))"
  using assms by (simp add: close_def Let_def split: option.splits prod.splits)

subsection \<open>The calls on the builder\<close>

lemma address_calls_valid:
  assumes "\<forall>c \<in> set cs. valid_cidr c"
  shows "\<exists>calls. address_calls cs = Some calls \<and>
    list_all2 (\<lambda>c call. \<exists>ip p. c = \<lparr>cidr_ip = Some (proto_of_ip ip), cidr_prefix = p\<rparr> \<and> unat p \<le> 255 \<and>
      call = (case ip of IpV4 v4 \<Rightarrow> BuilderIpv4 v4 (ucast p) | IpV6 v6 \<Rightarrow> BuilderIpv6 v6 (ucast p))) cs calls"
  using assms
proof (induction cs)
  case (Cons c cs)
  obtain ip p where c: "c = \<lparr>cidr_ip = Some (proto_of_ip ip), cidr_prefix = p\<rparr>" "unat p \<le> host_prefix ip"
    using Cons.prems by (auto simp: valid_cidr_def)
  then have "unat p \<le> 255" by (simp add: host_prefix_def split: if_splits)
  moreover from this have "u8_try_from p = Some (ucast p)" by (simp add: u8_try_from_def)
  moreover have "parse_proto_cidr c = Some (ip, p)" using c(1) by (simp add: parse_proto_cidr_eq_Some)
  ultimately show ?case using Cons c(1) by auto
qed simp

lemma sint_uint_pos:
  assumes "0 \<le> sint (w :: 32 word)"
  shows "uint w = sint w"
proof -
  have b: "uint w < 2 ^ 32" using uint_bounded [of w] by simp
  have "sint w = take_bit 32 (uint w) - 2 ^ 32 * of_bool (bit (uint w) 31)"
    using signed_take_bit_eq_take_bit_minus [of 31 "uint w"] by (simp add: sint_uint)
  moreover have "take_bit 32 (uint w) = uint w" using b by (simp add: take_bit_int_eq_self_iff)
  ultimately show ?thesis using assms b by (cases "bit (uint w) 31") simp_all
qed

lemma mtu_calls_valid:
  assumes "valid_mtu m addrs" and "m \<noteq> 0"
  shows "\<exists>w. mtu_calls m = [BuilderMtu w] \<and> uint w = sint m"
proof -
  have m: "576 \<le> sint m" "sint m \<le> 65535" using assms by (auto simp: valid_mtu_def)
  then have "uint m = sint m" by (simp add: sint_uint_pos)
  moreover have "uint (ucast m :: 16 word) = uint m mod 65536"
    by (simp add: unsigned_ucast_eq take_bit_eq_mod)
  ultimately show ?thesis using m by (simp add: mtu_calls_def)
qed

subsection \<open>The device\<close>

text \<open>What is used of the crate: creating a device adds one, dropping it removes it, nothing else does either.\<close>

definition device_kernel :: "('dev, 'intr, 'os) device_ops \<Rightarrow> ('os \<Rightarrow> 'dev set) \<Rightarrow> bool" where
  "device_kernel D devs \<longleftrightarrow>
     (\<forall>calls s. case build_sync D calls s of
        (Ok d, s') \<Rightarrow> d \<notin> devs s \<and> devs s' = insert d (devs s) | (Err _, s') \<Rightarrow> devs s' = devs s) \<and>
     (\<forall>d s. devs (snd (set_nonblocking D d s)) = devs s) \<and> (\<forall>d s. devs (snd (device_name D d s)) = devs s) \<and>
     (\<forall>s. devs (snd (interrupt_new D s)) = devs s) \<and> (\<forall>i s. devs (snd (interrupt_trigger D i s)) = devs s) \<and>
     (\<forall>d s. devs (drop_device D d s) = devs s - {d})"

lemma device_kernel_build:
  "device_kernel D devs \<Longrightarrow>
     (case build_sync D calls s of
        (Ok d, s') \<Rightarrow> d \<notin> devs s \<and> devs s' = insert d (devs s) | (Err _, s') \<Rightarrow> devs s' = devs s)"
  by (simp add: device_kernel_def)

text \<open>The calls of \<open>start_on_device\<close> one by one, and what it makes of their results.\<close>

definition device_outcome ::
    "('dev, 'intr, 'os) device_ops \<Rightarrow> ('ep, 'os) platform \<Rightarrow> 'dev \<Rightarrow> (unit, io_error) result \<times> 'os \<Rightarrow>
       ('intr, io_error) result \<times> 'os \<Rightarrow> string \<Rightarrow> ('os hook, string) result option \<times> 'os \<Rightarrow>
       (('dev, 'intr, 'os) tun_session, string) result option \<times> 'os" where
  "device_outcome D X dev = (\<lambda>(nr, s1) (ir, s3) iface (c, s4).
     (case nr of
          Err e \<Rightarrow> (Some (Err (''failed to configure non-blocking TUN: '' @ io_str X e)), drop_device D dev s1)
        | Ok _ \<Rightarrow>
            (case ir of
               Err e \<Rightarrow> (Some (Err (''failed to create TUN interrupt event: '' @ io_str X e)), drop_device D dev s3)
             | Ok intr \<Rightarrow>
                 (case c of
                    None \<Rightarrow> (None, drop_device D dev s4)
                  | Some (Err e) \<Rightarrow> (Some (Err (''failed to configure platform session: '' @ e)),
                      drop_device D dev (snd (interrupt_trigger D intr s4)))
                  | Some (Ok hook) \<Rightarrow> (Some (Ok \<lparr>session_name = iface, device = dev, interrupt = intr,
                      closed = False, cleanup_hook = Some hook\<rparr>), s4)))))"

lemma start_on_device_steps:
  obtains nr s1 nm s2 ir s3 iface c s4 where
    "(if os = Windows then (Ok (), s) else set_nonblocking D dev s) = (nr, s1)"
    "device_name D dev s1 = (nm, s2)" "interrupt_new D s2 = (ir, s3)"
    "iface = (case nm of Ok n \<Rightarrow> n | Err _ \<Rightarrow> interface_name config)"
    "configure config iface eps s3 = (c, s4)"
    "start_on_device os D X configure config eps dev s = device_outcome D X dev (nr, s1) (ir, s3) iface (c, s4)"
proof -
  obtain nr s1 where n: "(if os = Windows then (Ok (), s) else set_nonblocking D dev s) = (nr, s1)"
    by (meson surj_pair)
  obtain nm s2 where nm: "device_name D dev s1 = (nm, s2)" by (meson surj_pair)
  obtain ir s3 where ir: "interrupt_new D s2 = (ir, s3)" by (meson surj_pair)
  let ?iface = "case nm of Ok n \<Rightarrow> n | Err _ \<Rightarrow> interface_name config"
  obtain c s4 where c: "configure config ?iface eps s3 = (c, s4)" by (meson surj_pair)
  have "start_on_device os D X configure config eps dev s = device_outcome D X dev (nr, s1) (ir, s3) ?iface (c, s4)"
    using nm ir c unfolding start_on_device_def n by (cases nr; cases ir) (simp_all add: device_outcome_def)
  with n nm ir c show thesis by (intro that [OF n nm ir refl c])
qed

lemma start_on_device_devs:
  assumes "device_kernel D devs" and "\<And>c n e s. devs (snd (configure c n e s)) = devs s"
    and "start_on_device os D X configure config eps dev s = (r, s')"
  shows "case r of Some (Ok t) \<Rightarrow> device t = dev \<and> devs s' = devs s | _ \<Rightarrow> devs s' = devs s - {dev}"
proof -
  have nb: "devs (snd (set_nonblocking D d s)) = devs s" and nm: "devs (snd (device_name D d s)) = devs s"
    and nw: "devs (snd (interrupt_new D s)) = devs s" and tr: "devs (snd (interrupt_trigger D i s)) = devs s"
    and dr: "devs (drop_device D d s) = devs s - {d}" for d i s
    using assms(1) by (simp_all add: device_kernel_def)
  obtain nr s1 nam s2 ir s3 iface c s4 where
    calls: "(if os = Windows then (Ok (), s) else set_nonblocking D dev s) = (nr, s1)"
      "device_name D dev s1 = (nam, s2)" "interrupt_new D s2 = (ir, s3)" "configure config iface eps s3 = (c, s4)"
    and run: "start_on_device os D X configure config eps dev s = device_outcome D X dev (nr, s1) (ir, s3) iface (c, s4)"
    by (rule start_on_device_steps)
  have "devs s1 = devs s" using calls(1) nb [of dev s] by (auto split: if_splits)
  moreover have "devs s2 = devs s1" "devs s3 = devs s2" "devs s4 = devs s3"
    using calls(2-4) nm [of dev s1] nw [of s2] assms(2) [of config iface eps s3] by simp_all
  ultimately show ?thesis using run assms(3) by (auto simp: device_outcome_def dr tr split: option.splits result.splits)
qed

lemma prepare_keeps:
  assumes "platform_keeps X v"
  shows "v (snd (snd (prepare_session_start os X script cleared s))) = v s"
proof -
  let ?c = "command_of X ''clear-stale-nrpt-rules'' ''powershell'' (powershell_args script CLEAR_STALE_NRPT_RULES_SCRIPT)
    [(''WG_KOTLIN_NRPT_COMMENT_PREFIX'', NRPT_COMMENT_PREFIX)] s"
  have "v (snd ?c) = v s" using assms by (simp add: run_command_table platform_keeps_def)
  then show ?thesis
    by (cases ?c; cases "fst ?c") (simp_all add: prepare_session_start_def clear_stale_nrpt_rules_once_def)
qed

text \<open>The shape of a run of \<^verbatim>\<open>start\<close> that gets as far as the device.\<close>

lemma start_cases:
  assumes "start os D X script dll configure config cleared s = (r, cleared', s')"
    and "valid_config os' config" and "platform_keeps X v"
  obtains (early) e where "r = Some (Err e)" "v s' = v s"
  | (no_device) e calls s1 e' where "r = Some (Err e)" "v s1 = v s" "build_sync D calls s1 = (Err e', s')"
  | (device) eps s1 s2 s3 calls dev where
      "resolve_endpoint_routes (io_str X) (endpoints X) config s = (Ok eps, s1)" "v s2 = v s"
      "build_sync D calls s2 = (Ok dev, s3)" "start_on_device os D X configure config eps dev s3 = (r, s')"
proof -
  obtain addrs where addrs: "address_calls (addresses config) = Some addrs"
    using address_calls_valid [of "addresses config"] assms(2) by (auto simp: valid_config_def)
  obtain re s1 where re: "resolve_endpoint_routes (io_str X) (endpoints X) config s = (re, s1)"
    by (cases "resolve_endpoint_routes (io_str X) (endpoints X) config s")
  obtain rp cl s2 where rp: "prepare_session_start os X script cleared s1 = (rp, cl, s2)"
    by (cases "prepare_session_start os X script cleared s1")
  have k1: "v s1 = v s"
    using resolve_endpoint_routes_keeps [OF assms(3), of "io_str X" config s] re by simp
  have k2: "v s2 = v s"
    using prepare_keeps [OF assms(3), of os script cleared s1] rp k1 by simp
  note run = assms(1) [unfolded start_def]
  consider (a) e where "r = Some (Err e)" "s' \<in> {s, s1, s2}"
    | (b) eps wintun where "re = Ok eps" "wintun_calls os dll = Ok wintun"
        "(case build_sync D ([BuilderName (interface_name config)] @ addrs @ mtu_calls (mtu config) @ wintun) s2 of
            (Err e, s) \<Rightarrow> (Some (Err (''failed to create TUN device: '' @ io_str X e)), cl, s)
          | (Ok dev, s) \<Rightarrow> let (r, s) = start_on_device os D X configure config eps dev s in (r, cl, s)) =
         (r, cleared', s')"
    using run by (cases "validate_interface_name os (interface_name config)"; cases "os = Windows \<and> dll = None";
        cases re; cases rp; cases "wintun_calls os dll") (auto simp: re rp addrs)
  then show thesis
  proof cases
    case a
    then show thesis using early k1 k2 by auto
  next
    case b
    let ?calls = "[BuilderName (interface_name config)] @ addrs @ mtu_calls (mtu config) @ wintun"
    show thesis
    proof (cases "build_sync D ?calls s2")
      case (Pair rb s3)
      show thesis
      proof (cases rb)
        case (Ok dev)
        with b Pair have "start_on_device os D X configure config eps dev s3 = (r, s')"
          by (auto split: prod.splits)
        with b Pair Ok re k2 show thesis by (intro device [of eps s1 s2 ?calls dev s3]) simp_all
      next
        case (Err e)
        with b Pair k2 show thesis by (intro no_device [of _ s2 ?calls e]) auto
      qed
    qed
  qed
qed

text \<open>A configured session carries the hook that the platform code returned.\<close>

lemma start_on_device_configured:
  assumes "start_on_device os D X configure config eps dev s = (r, s')"
    and "\<And>n s. fst (configure config n eps s) \<noteq> None"
  shows "r \<noteq> None" and "r = Some (Ok t) \<Longrightarrow> \<not> closed t \<and>
    (\<exists>hook s1. cleanup_hook t = Some hook \<and> configure config (session_name t) eps s1 = (Some (Ok hook), s'))"
proof -
  obtain nr s1 nm s2 ir s3 iface c s4 where
    c: "configure config iface eps s3 = (c, s4)"
    and run: "start_on_device os D X configure config eps dev s = device_outcome D X dev (nr, s1) (ir, s3) iface (c, s4)"
    by (rule start_on_device_steps)
  have "c \<noteq> None" using assms(2) [of iface s3] c by simp
  then show "r \<noteq> None" using run assms(1) by (auto simp: device_outcome_def split: option.splits result.splits)
  show "\<not> closed t \<and>
      (\<exists>hook s1. cleanup_hook t = Some hook \<and> configure config (session_name t) eps s1 = (Some (Ok hook), s'))"
    if "r = Some (Ok t)"
    using run assms(1) c that by (auto simp: device_outcome_def split: option.splits result.splits)
qed

lemma configure_no_panic:
  assumes "valid_config os config"
    and "configure = linux_configure_session X \<or> configure = windows_configure_session X script W"
  shows "fst (configure config interface eps s) \<noteq> None"
proof -
  obtain ips where "ips_to_args (config_servers config) = Some ips" using ips_to_args_valid [OF assms(1)] by blast
  with assms(2) show ?thesis
    by (auto simp: linux_configure_session_def windows_configure_session_def case_prod_beta Let_def split: result.split)
qed

text \<open>A session that was started on Linux or Windows: its hook removes exactly its tunnel routes and its endpoint routes.\<close>

lemma started_session:
  assumes "valid_config os' config"
    and "configure = linux_configure_session X \<or> configure = windows_configure_session X script W"
    and "route_kernel (route_mgr X) (endpoints X) table hosts" and "\<And>s. is_ok (fst (rm_new (route_mgr X) s))"
    and "keeps_table (processes X) table" and "keeps_table (processes X) hosts"
    and "start os D X script' dll configure config cleared s = (Some (Ok t), cleared', s')"
  obtains eps hook where "fst (resolve_endpoint_routes (io_str X) (endpoints X) config s) = Ok eps"
    "\<not> closed t" "cleanup_hook t = Some hook"
    "\<And>s. table (snd (hook s)) = table s - set (filtered_routes config (session_name t))"
    "\<And>s. hosts (snd (hook s)) = hosts s - set eps"
proof -
  have k: "platform_keeps X (\<lambda>_. ())" by (simp add: platform_keeps_def keeps_table_def)
  show thesis
    using assms(7,1) k
  proof (cases rule: start_cases)
    case (device eps sa sb sc calls dev)
    from start_on_device_configured(2) [OF device(4) configure_no_panic [OF assms(1,2)] refl]
    obtain hook sd where h: "\<not> closed t" "cleanup_hook t = Some hook"
      "configure config (session_name t) eps sd = (Some (Ok hook), s')" by blast
    from configure_tables [OF assms(1-6) h(3)]
    have "table (snd (hook s)) = table s - set (filtered_routes config (session_name t))"
      "hosts (snd (hook s)) = hosts s - set eps" for s by simp_all
    then show thesis using h device(1) by (intro that [of eps hook]) simp_all
  qed simp_all
qed

subsection \<open>Systems for the examples\<close>

text \<open>A device crate whose state is the set of the device names, and one that keeps no state.\<close>

definition tun_devices :: "(string, unit, string set) device_ops" where
  "tun_devices =
     \<lparr>build_sync = (\<lambda>calls s. case calls of
        BuilderName n # _ \<Rightarrow> if n \<in> s then (Err (OsError 16), s) else (Ok n, insert n s)
      | _ \<Rightarrow> (Err (OsError 22), s)),
      set_nonblocking = (\<lambda>d s. (Ok (), s)), device_name = (\<lambda>d s. (Ok d, s)), interrupt_new = (\<lambda>s. (Ok (), s)),
      interrupt_trigger = (\<lambda>i s. (Ok (), s)), recv_intr = (\<lambda>d i b s. (Err (IoError Interrupted []), b, s)),
      send_intr = (\<lambda>d i p s. (Ok (length p), s)), drop_device = (\<lambda>d s. s - {d})\<rparr>"

definition plain_device :: "(string, unit, 'os) device_ops" where
  "plain_device =
     \<lparr>build_sync = (\<lambda>calls s. (Ok (case calls of BuilderName n # _ \<Rightarrow> n | _ \<Rightarrow> []), s)),
      set_nonblocking = (\<lambda>d s. (Ok (), s)), device_name = (\<lambda>d s. (Ok d, s)), interrupt_new = (\<lambda>s. (Ok (), s)),
      interrupt_trigger = (\<lambda>i s. (Ok (), s)), recv_intr = (\<lambda>d i b s. (Err (IoError Interrupted []), b, s)),
      send_intr = (\<lambda>d i p s. (Ok (length p), s)), drop_device = (\<lambda>d s. s)\<rparr>"

text \<open>A platform whose calls all succeed and change nothing.\<close>

definition idle_platform :: "(ip_addr, 'os) platform" where
  "idle_platform =
     \<lparr>io_str = (\<lambda>_. ''io''), to_lowercase = (\<lambda>s. s),
      route_mgr = \<lparr>rm_new = (\<lambda>s. (Ok (), s)), rm_add = (\<lambda>r s. (Ok (), s)), rm_delete = (\<lambda>r s. (Ok (), s)),
                   rm_find = (\<lambda>ip s. (Ok None, s))\<rparr>,
      endpoints = \<lparr>ep_lookup = (\<lambda>ip s. (Ok ip, s)), ep_replace = (\<lambda>e s. (Ok (), s)), ep_delete = (\<lambda>e s. (Ok (), s))\<rparr>,
      processes = \<lparr>new_runtime = (\<lambda>s. (Ok (), s)), geteuid = (\<lambda>s. 0), spawn = (\<lambda>cmd s. (Err (OsError 2), s))\<rparr>\<rparr>"

lemma tun_devices_kernel: "device_kernel tun_devices (\<lambda>s. s)"
  by (simp add: device_kernel_def tun_devices_def split: list.split builder_call.split)

lemma idle_platform_keeps: "platform_keeps idle_platform v"
  by (simp add: platform_keeps_def keeps_table_def idle_platform_def)

lemma sample_resolve:
  "peer_endpoints config = peer_endpoints sample_config \<Longrightarrow>
     resolve_endpoint_routes io sample_endpoints config s = (Ok [IpV4 0xC0000201], s)"
  by (simp add: resolve_endpoint_routes_def sample_config_def parse_proto_ip_def sample_endpoints_def be_nat_def)

text \<open>On the sample platform a valid configuration starts, on every device that works and keeps its name.\<close>

definition working_device :: "(string, unit, 'os) device_ops \<Rightarrow> string \<Rightarrow> 'os \<Rightarrow> 'os \<Rightarrow> bool" where
  "working_device D n s s1 \<longleftrightarrow>
     (\<forall>cs. build_sync D (BuilderName n # cs) s = (Ok n, s1)) \<and> (\<forall>d s. set_nonblocking D d s = (Ok (), s)) \<and>
     (\<forall>d s. device_name D d s = (Ok d, s)) \<and> (\<forall>s. interrupt_new D s = (Ok (), s))"

lemma sample_session_starts:
  assumes "valid_config Linux config" and "peer_endpoints config = peer_endpoints sample_config"
    and "working_device D (interface_name config) s s1"
  shows "\<exists>t c s'. start Linux D sample_platform (\<lambda>_. []) None (linux_configure_session sample_platform)
     config False s = (Some (Ok t), c, s') \<and> session_name t = interface_name config"
proof -
  let ?n = "interface_name config" and ?e = "IpV4 0xC0000201"
  have v: "validate_interface_name Linux ?n = Ok ()" using assms(1) unfolding validate_interface_name_ok valid_config_def by simp
  have ep: "resolve_endpoint_routes (io_str sample_platform) (endpoints sample_platform) config s = (Ok [?e], s)"
    using sample_resolve [OF assms(2)] unfolding sample_platform_simps by metis
  obtain addrs where a: "address_calls (addresses config) = Some addrs"
    using address_calls_valid [of "addresses config"] assms(1) unfolding valid_config_def by metis
  obtain hook where h: "fst (linux_configure_session sample_platform config ?n [?e] s1) = Some (Ok hook)"
    using sample_configured [OF assms(1)] by blast
  have w: "build_sync D (BuilderName ?n # cs) s = (Ok ?n, s1)" "set_nonblocking D d x = (Ok (), x)" "device_name D d x = (Ok d, x)"
      "interrupt_new D x = (Ok (), x)" for cs d x
    using assms(3) unfolding working_device_def by blast+
  have "fst (start_on_device Linux D sample_platform (linux_configure_session sample_platform) config [?e] ?n s1) =
      Some (Ok \<lparr>session_name = ?n, device = ?n, interrupt = (), closed = False, cleanup_hook = Some hook\<rparr>)"
    using h by (simp add: start_on_device_def w case_prod_beta Let_def)
  then obtain t s' where t: "session_name t = ?n"
    "start_on_device Linux D sample_platform (linux_configure_session sample_platform) config [?e] ?n s1 = (Some (Ok t), s')"
    by (metis prod.collapse tun_session.select_convs(1))
  show ?thesis
    using v ep a t
    by (intro exI [of _ t] exI [of _ False] exI [of _ s'])
       (simp add: start_def prepare_session_start_def wintun_calls_def w(1))
qed

section \<open>Properties\<close>

text \<open>
  C22: Starting a session for a validated configuration never panics on Linux or Windows: the unwraps of
  its addresses and DNS servers cannot fail. A session that starts is open and carries its cleanup hook.
\<close>

theorem start_never_panics:
  assumes "valid_config os' config"
    and "configure = linux_configure_session X \<or> configure = windows_configure_session X script W"
    and "start os D X script' dll configure config cleared s = (r, cleared', s')"
  shows "r \<noteq> None \<and> (\<forall>t. r = Some (Ok t) \<longrightarrow> \<not> closed t \<and> cleanup_hook t \<noteq> None)"
proof -
  have k: "platform_keeps X (\<lambda>_. ())" by (simp add: platform_keeps_def keeps_table_def)
  show ?thesis
    using assms(3,1) k
  proof (cases rule: start_cases)
    case (device eps s1 s2 s3 calls dev)
    from start_on_device_configured [OF device(4) configure_no_panic [OF assms(1,2)]] show ?thesis by auto
  qed simp_all
qed

theorem start_never_panics_witness:
  "fst (start Linux tun_devices idle_platform (\<lambda>_. []) None (linux_configure_session idle_platform)
     sample_config False {}) \<noteq> None"
proof -
  let ?r = "start Linux tun_devices idle_platform (\<lambda>_. []) None (linux_configure_session idle_platform) sample_config False {}"
  have "?r = (fst ?r, fst (snd ?r), snd (snd ?r))" by simp
  from start_never_panics [OF sample_config_valid disjI1 [OF refl] this] show ?thesis by blast
qed

text \<open>
  C21: A session that fails to start, or panics, leaves no device behind; one that starts has created
  exactly its own device.
\<close>

theorem start_owns_device:
  assumes "valid_config os' config"
    and "configure = linux_configure_session X \<or> configure = windows_configure_session X script W"
    and "device_kernel D devs" and "platform_keeps X devs"
    and "start os D X script' dll configure config cleared s = (r, cleared', s')"
  shows "case r of
      Some (Ok t) \<Rightarrow> device t \<notin> devs s \<and> devs s' = insert (device t) (devs s)
    | _ \<Rightarrow> devs s' = devs s"
  using assms(5,1,4)
proof (cases rule: start_cases)
  case (no_device e calls s1 e')
  with device_kernel_build [OF assms(3), where calls = calls and s = s1] have "devs s' = devs s1" by simp
  with no_device show ?thesis by simp
next
  case (device eps s1 s2 s3 calls dev)
  from device_kernel_build [OF assms(3), where calls = calls and s = s2] device(3)
  have d: "dev \<notin> devs s2" "devs s3 = insert dev (devs s2)" by simp_all
  have "devs (snd (configure c n e s)) = devs s" for c n e s by (rule configure_keeps [OF assms(4,2)])
  with start_on_device_devs [of D devs configure os X config eps dev s3 r s'] assms(3) device(2,4) d
  show ?thesis by (auto split: option.splits result.splits)
qed simp

theorem start_owns_device_witness:
  "let r = start Linux tun_devices idle_platform (\<lambda>_. []) None (linux_configure_session idle_platform)
       sample_config False {''utun1''}
   in case fst r of
        Some (Ok t) \<Rightarrow> device t \<notin> {''utun1''} \<and> snd (snd r) = insert (device t) {''utun1''}
      | _ \<Rightarrow> snd (snd r) = {''utun1''}"
proof -
  let ?r = "start Linux tun_devices idle_platform (\<lambda>_. []) None (linux_configure_session idle_platform)
       sample_config False {''utun1''}"
  have "?r = (fst ?r, fst (snd ?r), snd (snd ?r))" by simp
  from start_owns_device [OF sample_config_valid disjI1 [OF refl] tun_devices_kernel idle_platform_keeps this]
  show ?thesis unfolding Let_def .
qed

text \<open>
  The device of a valid session is created with exactly the configured values: the addresses in
  order, each with its own prefix length, and the MTU unchanged although it is narrowed to 16 bits, or
  no MTU call if it is zero.
\<close>

lemma builder_calls_faithful:
  assumes "valid_config os config"
  shows "\<exists>calls. address_calls (addresses config) = Some calls \<and>
    list_all2 (\<lambda>c call. \<exists>ip p. c = \<lparr>cidr_ip = Some (proto_of_ip ip), cidr_prefix = p\<rparr> \<and>
      (case ip of
         IpV4 v4 \<Rightarrow> \<exists>b. call = BuilderIpv4 v4 b \<and> unat b = unat p
       | IpV6 v6 \<Rightarrow> \<exists>b. call = BuilderIpv6 v6 b \<and> unat b = unat p)) (addresses config) calls \<and>
    (if mtu config = 0 then mtu_calls (mtu config) = []
     else \<exists>w. mtu_calls (mtu config) = [BuilderMtu w] \<and> uint w = sint (mtu config))"
proof -
  have c: "\<forall>c \<in> set (addresses config). valid_cidr c" and m: "valid_mtu (mtu config) (addresses config)"
    using assms by (simp_all add: valid_config_def)
  have widen: "case ip of
         IpV4 v4 \<Rightarrow> \<exists>b. call = BuilderIpv4 v4 b \<and> unat b = unat p
       | IpV6 v6 \<Rightarrow> \<exists>b. call = BuilderIpv6 v6 b \<and> unat b = unat p"
    if "unat p \<le> 255"
      "call = (case ip of IpV4 v4 \<Rightarrow> BuilderIpv4 v4 (ucast p) | IpV6 v6 \<Rightarrow> BuilderIpv6 v6 (ucast p))"
    for ip and p :: "32 word" and call
    using that by (cases ip) (simp_all add: unat_ucast_byte)
  obtain calls where "address_calls (addresses config) = Some calls"
    "list_all2 (\<lambda>c call. \<exists>ip p. c = \<lparr>cidr_ip = Some (proto_of_ip ip), cidr_prefix = p\<rparr> \<and> unat p \<le> 255 \<and>
      call = (case ip of IpV4 v4 \<Rightarrow> BuilderIpv4 v4 (ucast p) | IpV6 v6 \<Rightarrow> BuilderIpv6 v6 (ucast p)))
      (addresses config) calls"
    using address_calls_valid [OF c] by blast
  moreover from this(2) have "list_all2 (\<lambda>c call. \<exists>ip p. c = \<lparr>cidr_ip = Some (proto_of_ip ip), cidr_prefix = p\<rparr> \<and>
      (case ip of
         IpV4 v4 \<Rightarrow> \<exists>b. call = BuilderIpv4 v4 b \<and> unat b = unat p
       | IpV6 v6 \<Rightarrow> \<exists>b. call = BuilderIpv6 v6 b \<and> unat b = unat p)) (addresses config) calls"
    by (rule list_all2_mono) (use widen in blast)
  ultimately show ?thesis using mtu_calls_valid [OF m] by (auto simp: mtu_calls_def)
qed

text \<open>
  However often, and by however many owners, a session is closed, its cleanup hook runs exactly
  once, after the device was interrupted; only the first call reports its result and the later ones
  succeed without effect.
\<close>

lemma close_runs_hook_once:
  assumes "\<not> closed t" and "cleanup_hook t = Some hook"
  shows "close_all D (Suc n) t s =
      (t\<lparr>closed := True, cleanup_hook := None\<rparr>, snd (hook (snd (interrupt_trigger D (interrupt t) s)))) \<and>
    fst (close D t s) = fst (hook (snd (interrupt_trigger D (interrupt t) s))) \<and>
    (\<forall>s'. close D (t\<lparr>closed := True, cleanup_hook := None\<rparr>) s' = (Ok (), t\<lparr>closed := True, cleanup_hook := None\<rparr>, s'))"
  using assms close_all_once [of "Suc n" D t s] by (simp add: close_open)

end
