(* ===== verification/Server.thy ===== *)
theory Server
  imports Session Ipc
begin

text \<open>
  The request and session parts of server.rs: the messages of daemon.proto, the admission of a
  session (\<^verbatim>\<open>DaemonService::session\<close> up to the spawned task), the packet loops and the teardown of
  \<^verbatim>\<open>run_session_loop\<close>. What a \<^verbatim>\<open>select!\<close> finds ready is a \<open>poll\<close>; a loop is run on the list of
  the polls it sees and is \<^term>\<open>None\<close> while it still waits. The texts that tonic gives a status are a
  parameter \<open>status_text\<close>. The life cycle of the sessions is in the theory of the service.
\<close>

section \<open>Definitions\<close>

definition MAX_PACKET_FRAME_SIZE :: nat where "MAX_PACKET_FRAME_SIZE = 65535"
definition MAX_ACTIVE_SESSIONS :: nat where "MAX_ACTIVE_SESSIONS = 16"
definition PACKET_CHANNEL_CAPACITY :: nat where "PACKET_CHANNEL_CAPACITY = 64"

datatype client_payload =
    Config tun_session_config
  | OutgoingPacket "byte list"
  | ShutdownRequest bool

record client_message =
  client_payload :: "client_payload option"

datatype server_payload =
    Started string
  | IncomingPacket "byte list"
  | SessionError string string
  | Ready "32 word" "32 word"

record server_message =
  server_payload :: "server_payload option"

datatype status_code = InvalidArgument | FailedPrecondition | ResourceExhausted | Unavailable | Internal

record status =
  status_code :: status_code
  status_message :: string

abbreviation status :: "status_code \<Rightarrow> string \<Rightarrow> status" where
  "status c m \<equiv> \<lparr>status_code = c, status_message = m\<rparr>"

record status_text =
  code_str :: "status_code \<Rightarrow> string"
  status_str :: "status \<Rightarrow> string"

definition error_message :: "status_text \<Rightarrow> status \<Rightarrow> server_message" where
  "error_message T st =
     \<lparr>server_payload = Some (SessionError (code_str T (status_code st)) (status_message st))\<rparr>"

definition extract_config :: "client_message \<Rightarrow> (tun_session_config, status) result" where
  "extract_config message =
     (case client_payload message of
        Some (Config config) \<Rightarrow> Ok config
      | Some (OutgoingPacket _) \<Rightarrow> Err (status InvalidArgument ''first session message must contain config'')
      | Some (ShutdownRequest _) \<Rightarrow> Err (status InvalidArgument ''first session message must contain config'')
      | None \<Rightarrow> Err (status InvalidArgument ''first session message payload is missing''))"

subsection \<open>Admission\<close>

datatype admission = Duplicate | LimitReached | Admitted

definition reserve :: "string \<Rightarrow> string set \<Rightarrow> admission \<times> string set" where
  "reserve name sessions =
     (if name \<in> sessions then (Duplicate, sessions)
      else if card sessions \<ge> MAX_ACTIVE_SESSIONS then (LimitReached, sessions)
      else (Admitted, insert name sessions))"

definition release :: "string \<Rightarrow> string set \<Rightarrow> string set" where
  "release name sessions = sessions - {name}"

definition normalize_interface_name :: "target_os \<Rightarrow> string \<Rightarrow> string" where
  "normalize_interface_name os name =
     (if os = Macos
      then let index = trim_start_matches (CHR ''0'') (drop 4 name)
           in ''utun'' @ (if index = [] then ''0'' else index)
      else name)"

definition rejected_line :: "string \<Rightarrow> string \<Rightarrow> string" where
  "rejected_line name error = ''session rejected interface='' @ name @ '': '' @ error"

text \<open>
  The request after the check of the shutdown flag: the first message received (\<^term>\<open>None\<close> when the
  channel closed first), the active sessions; returned with the lines logged.
\<close>

definition session_request ::
    "target_os \<Rightarrow> (client_message, status) result option \<Rightarrow> string set \<Rightarrow>
       (tun_session_config, status) result \<times> string set \<times> string list" where
  "session_request os first sessions =
     (case first of
        None \<Rightarrow> (Err (status InvalidArgument ''first session message must contain config''), sessions, [])
      | Some (Err st) \<Rightarrow> (Err st, sessions, [])
      | Some (Ok message) \<Rightarrow>
          (case extract_config message of
             Err st \<Rightarrow> (Err st, sessions, [])
           | Ok config \<Rightarrow>
               (case validate_config os config of
                  Err error \<Rightarrow>
                    (Err (status InvalidArgument error), sessions, [rejected_line (interface_name config) error])
                | Ok _ \<Rightarrow>
                    let name = normalize_interface_name os (interface_name config);
                        config = config\<lparr>interface_name := name\<rparr>
                    in (case reserve name sessions of
                          (Duplicate, sessions) \<Rightarrow>
                            let error = ''Session already active for '' @ name
                            in (Err (status FailedPrecondition error), sessions, [rejected_line name error])
                        | (LimitReached, sessions) \<Rightarrow>
                            let error = ''Daemon session limit reached ('' @ dec_str MAX_ACTIVE_SESSIONS @ '')''
                            in (Err (status ResourceExhausted error), sessions, [rejected_line name error])
                        | (Admitted, sessions) \<Rightarrow> (Ok config, sessions, [])))))"

subsection \<open>Responses\<close>

type_synonym response = "(server_message, status) result"

record channel =
  queue :: "response list"
  rx_closed :: bool

definition new_channel :: channel where
  "new_channel = \<lparr>queue = [], rx_closed = False\<rparr>"

definition full :: "channel \<Rightarrow> bool" where
  "full c \<longleftrightarrow> PACKET_CHANNEL_CAPACITY \<le> length (queue c)"

text \<open>\<^verbatim>\<open>Sender::send\<close> waits (\<^term>\<open>None\<close>) while the channel is full; \<^verbatim>\<open>try_send\<close> gives up at once.\<close>

definition send :: "response \<Rightarrow> channel \<Rightarrow> (bool \<times> channel) option" where
  "send m c = (if rx_closed c then Some (False, c)
               else if full c then None
               else Some (True, c\<lparr>queue := queue c @ [m]\<rparr>))"

definition try_send :: "response \<Rightarrow> channel \<Rightarrow> channel" where
  "try_send m c = (case send m c of Some (_, c) \<Rightarrow> c | None \<Rightarrow> c)"

text \<open>\<^verbatim>\<open>send_response\<close>: \<open>stop\<close> says whether the stop signal (or its dropped sender) is ready.\<close>

definition send_response :: "server_message \<Rightarrow> bool \<Rightarrow> channel \<Rightarrow> (bool \<times> channel) option" where
  "send_response m stop c = (if stop then Some (False, c) else send (Ok m) c)"

subsection \<open>The reader\<close>

definition is_interrupted :: "target_os \<Rightarrow> io_error \<Rightarrow> bool" where
  "is_interrupted os e =
     (case e of
        IoError k _ \<Rightarrow> k = Interrupted
      | OsError n \<Rightarrow> n = (if os = Windows then 10004 else 4))"

text \<open>What the reader does with the outcome of one \<^verbatim>\<open>read_packet\<close>.\<close>

datatype read_action = SkipPacket | Forward server_message | ReadStop | ReadFailed server_message string

definition on_read ::
    "target_os \<Rightarrow> (io_error \<Rightarrow> string) \<Rightarrow> status_text \<Rightarrow> (byte list, io_error) result \<Rightarrow> read_action" where
  "on_read os io T r =
     (case r of
        Ok packet \<Rightarrow>
          if length packet > MAX_PACKET_FRAME_SIZE \<or> packet = [] then SkipPacket
          else Forward \<lparr>server_payload = Some (IncomingPacket packet)\<rparr>
      | Err error \<Rightarrow>
          if is_interrupted os error then ReadStop
          else let read_error = ''failed reading TUN packet: '' @ io error
               in ReadFailed (error_message T (status Internal read_error)) read_error)"

text \<open>
  The blocking reader task. Each entry is what \<^verbatim>\<open>read_packet\<close> returned and what
  \<^verbatim>\<open>send_response\<close> returned if it was called for it. The result is the responses delivered, in order,
  and the value sent on \<^verbatim>\<open>read_done\<close>, \<^term>\<open>None\<close> while the task still runs.
\<close>

fun read_task ::
    "target_os \<Rightarrow> (io_error \<Rightarrow> string) \<Rightarrow> status_text \<Rightarrow> ((byte list, io_error) result \<times> bool) list \<Rightarrow>
       server_message list \<times> string option option" where
  "read_task os io T [] = ([], None)"
| "read_task os io T ((r, sent) # rest) =
     (case on_read os io T r of
        SkipPacket \<Rightarrow> read_task os io T rest
      | Forward m \<Rightarrow>
          if sent then (case read_task os io T rest of (ms, fin) \<Rightarrow> (m # ms, fin)) else ([], Some None)
      | ReadStop \<Rightarrow> ([], Some None)
      | ReadFailed m error \<Rightarrow> (if sent then [m] else [], Some (Some error)))"

subsection \<open>The writer\<close>

text \<open>
  What the \<^verbatim>\<open>select!\<close> of the write loop finds: the shutdown flag, the closed response channel, the
  reader's result (\<open>Some None\<close> when its sender was dropped), and the next client message
  (\<open>Some None\<close> when the channel closed).
\<close>

record poll =
  shutdown_ready :: bool
  tx_closed_ready :: bool
  read_done_ready :: "string option option option"
  incoming_ready :: "(client_message, status) result option option"

datatype select_result =
    LoopEnd "(unit, status) result"
  | NextMessage client_message
  | Waiting

definition select :: "poll \<Rightarrow> select_result" where
  "select p =
     (if shutdown_ready p then LoopEnd (Ok ())
      else if tx_closed_ready p then LoopEnd (Ok ())
      else (case read_done_ready p of
              Some (Some (Some error)) \<Rightarrow> LoopEnd (Err (status Internal error))
            | Some (Some None) \<Rightarrow> LoopEnd (Ok ())
            | Some None \<Rightarrow> LoopEnd (Ok ())
            | None \<Rightarrow>
                (case incoming_ready p of
                   Some (Some (Err st)) \<Rightarrow> LoopEnd (Err st)
                 | Some (Some (Ok message)) \<Rightarrow> NextMessage message
                 | Some None \<Rightarrow> LoopEnd (Ok ())
                 | None \<Rightarrow> Waiting)))"

text \<open>One message of the client: \<^term>\<open>None\<close> when the loop goes on.\<close>

definition on_message ::
    "('dev, 'intr, 'os) device_ops \<Rightarrow> (io_error \<Rightarrow> string) \<Rightarrow> ('dev, 'intr, 'os) tun_session \<Rightarrow> client_message \<Rightarrow>
       'os \<Rightarrow> status option \<times> 'os" where
  "on_message D io t message s =
     (case client_payload message of
        Some (OutgoingPacket packet) \<Rightarrow>
          if length packet > MAX_PACKET_FRAME_SIZE \<or> packet = [] then (None, s)
          else (case write_packet D t packet s of
                  (Err error, s) \<Rightarrow> (Some (status Internal (''failed writing TUN packet: '' @ io error)), s)
                | (Ok _, s) \<Rightarrow> (None, s))
      | Some (Config _) \<Rightarrow> (Some (status InvalidArgument ''config must be sent only once, at session start''), s)
      | Some (ShutdownRequest _) \<Rightarrow>
          (Some (status InvalidArgument ''shutdown requires a separate control connection''), s)
      | None \<Rightarrow> (None, s))"

fun write_loop ::
    "('dev, 'intr, 'os) device_ops \<Rightarrow> (io_error \<Rightarrow> string) \<Rightarrow> ('dev, 'intr, 'os) tun_session \<Rightarrow> poll list \<Rightarrow>
       'os \<Rightarrow> (unit, status) result option \<times> 'os" where
  "write_loop D io t [] s = (None, s)"
| "write_loop D io t (p # ps) s =
     (case select p of
        LoopEnd r \<Rightarrow> (Some r, s)
      | Waiting \<Rightarrow> write_loop D io t ps s
      | NextMessage message \<Rightarrow>
          (case on_message D io t message s of
             (Some st, s) \<Rightarrow> (Some (Err st), s)
           | (None, s) \<Rightarrow> write_loop D io t ps s))"

subsection \<open>Teardown\<close>

text \<open>
  The end of \<^verbatim>\<open>run_session_loop\<close>: reports, logged lines and the release of the name. The reports go
  through \<^verbatim>\<open>try_send\<close>.
\<close>

definition report_write ::
    "status_text \<Rightarrow> string \<Rightarrow> (unit, status) result \<Rightarrow> channel \<Rightarrow> channel \<times> string list" where
  "report_write T name write_result c =
     (case write_result of
        Err st \<Rightarrow> (try_send (Ok (error_message T st)) c,
                  [''session failed interface='' @ name @ '': '' @ status_str T st])
      | Ok _ \<Rightarrow> (c, []))"

definition report_close ::
    "status_text \<Rightarrow> string \<Rightarrow> (unit, string) result \<Rightarrow> channel \<Rightarrow> channel \<times> string list" where
  "report_close T name close_result c =
     (case close_result of
        Err error \<Rightarrow>
          (try_send (Ok (error_message T (status Internal (''failed closing TUN session: '' @ error)))) c,
           [''session cleanup failed interface='' @ name @ '': '' @ error])
      | Ok _ \<Rightarrow> (c, []))"

definition report_join :: "string \<Rightarrow> (unit, string) result \<Rightarrow> string list" where
  "report_join name read_join_result =
     (case read_join_result of
        Err error \<Rightarrow> [''session reader failed interface='' @ name @ '': '' @ error]
      | Ok _ \<Rightarrow> [])"

definition teardown ::
    "status_text \<Rightarrow> string \<Rightarrow> (unit, status) result \<Rightarrow> (unit, string) result \<Rightarrow> (unit, string) result \<Rightarrow> nat \<Rightarrow>
       channel \<Rightarrow> string set \<Rightarrow> channel \<times> string set \<times> string list" where
  "teardown T name write_result close_result read_join_result elapsed_ms c sessions =
     (let (c, l1) = report_write T name write_result c;
          (c, l2) = report_close T name close_result c
      in (c, release name sessions,
          l1 @ l2 @ report_join name read_join_result @
          [''session stopped interface='' @ name @ '' duration_ms='' @ dec_str elapsed_ms]))"

text \<open>
  The blocking task that closes the session. \<open>close_panic\<close> is given if the cleanup hook panics: the text of
  the join error, and the state in which the hook left the system.
\<close>

definition close_task ::
    "('dev, 'intr, 'os) device_ops \<Rightarrow> ('dev, 'intr, 'os) tun_session \<Rightarrow> (string \<times> 'os) option \<Rightarrow> 'os \<Rightarrow>
       (unit, string) result \<times> ('dev, 'intr, 'os) tun_session \<times> 'os" where
  "close_task D t close_panic s =
     (case close_panic of
        Some (error, s') \<Rightarrow>
          (Err (''failed joining session cleanup: '' @ error), t\<lparr>closed := True, cleanup_hook := None\<rparr>, s')
      | None \<Rightarrow> close D t s)"

text \<open>
  \<^verbatim>\<open>run_session_loop\<close> as a whole, for the polls its write loop sees. The clones of the session that the closing task
  and the reader own are gone when both have been joined, and with the last one the device is dropped.
\<close>

definition run_session_loop ::
    "('dev, 'intr, 'os) device_ops \<Rightarrow> (io_error \<Rightarrow> string) \<Rightarrow> status_text \<Rightarrow> ('dev, 'intr, 'os) tun_session \<Rightarrow>
       poll list \<Rightarrow> (string \<times> 'os) option \<Rightarrow> (unit, string) result \<Rightarrow> nat \<Rightarrow> channel \<Rightarrow> string set \<Rightarrow> 'os \<Rightarrow>
       (('dev, 'intr, 'os) tun_session \<times> channel \<times> string set \<times> string list) option \<times> 'os" where
  "run_session_loop D io T t polls close_panic read_join elapsed_ms c sessions s =
     (case write_loop D io t polls s of
        (None, s) \<Rightarrow> (None, s)
      | (Some write_result, s) \<Rightarrow>
          let (close_result, t', s) = close_task D t close_panic s;
              s = drop_device D (device t) s;
              (c, sessions, lines) =
                teardown T (session_name t) write_result close_result read_join elapsed_ms c sessions
          in (Some (t', c, sessions, lines), s))"

subsection \<open>Specification\<close>

text \<open>The packets that the daemon passes on, in either direction.\<close>

definition forwardable :: "byte list \<Rightarrow> bool" where
  "forwardable packet \<longleftrightarrow> packet \<noteq> [] \<and> length packet \<le> 65535"

definition packet_message :: "byte list \<Rightarrow> client_message" where
  "packet_message packet = \<lparr>client_payload = Some (OutgoingPacket packet)\<rparr>"

definition incoming_poll :: "client_message \<Rightarrow> poll" where
  "incoming_poll m = \<lparr>shutdown_ready = False, tx_closed_ready = False, read_done_ready = None,
                      incoming_ready = Some (Some (Ok m))\<rparr>"

definition write_all_packets ::
    "('dev, 'intr, 'os) device_ops \<Rightarrow> ('dev, 'intr, 'os) tun_session \<Rightarrow> byte list list \<Rightarrow> 'os \<Rightarrow> 'os" where
  "write_all_packets D t packets s = fold (\<lambda>q s. snd (write_packet D t q s)) packets s"

text \<open>A status text and a first message for the examples.\<close>

definition sample_text :: status_text where
  "sample_text = \<lparr>code_str = (\<lambda>_. ''code''), status_str = status_message\<rparr>"

definition sample_first :: "(client_message, status) result option" where
  "sample_first = Some (Ok \<lparr>client_payload = Some (Config sample_config)\<rparr>)"

section \<open>Lemmas\<close>

lemmas server_limits = MAX_PACKET_FRAME_SIZE_def MAX_ACTIVE_SESSIONS_def PACKET_CHANNEL_CAPACITY_def

subsection \<open>The registry of active sessions\<close>

text \<open>
  What the service relies on: reserving a name either changes nothing or adds a name that was free
  while a slot was free, and releasing removes it. Then no sequence of calls overfills the registry.
\<close>

datatype 'k registry_call = ReserveCall 'k | ReleaseCall 'k

locale registry =
  fixes reserve_op :: "'k \<Rightarrow> 'r \<Rightarrow> admission \<times> 'r"
    and release_op :: "'k \<Rightarrow> 'r \<Rightarrow> 'r"
    and held :: "'r \<Rightarrow> 'k set"
    and capacity :: nat
  assumes admitted: "reserve_op k r = (Admitted, r') \<Longrightarrow>
      k \<notin> held r \<and> card (held r) < capacity \<and> held r' = insert k (held r)"
    and refused: "reserve_op k r = (a, r') \<Longrightarrow> a \<noteq> Admitted \<Longrightarrow> held r' = held r"
    and released: "held (release_op k r) = held r - {k}"
begin

definition within :: "'r \<Rightarrow> bool" where
  "within r \<longleftrightarrow> finite (held r) \<and> card (held r) \<le> capacity"

lemma reserve_within: "within r \<Longrightarrow> within (snd (reserve_op k r))"
  using admitted [of k r] refused [of k r]
  by (cases "reserve_op k r"; cases "fst (reserve_op k r) = Admitted")
     (auto simp: within_def card_insert_if)

lemma release_within: "within r \<Longrightarrow> within (release_op k r)"
  by (auto simp: within_def released intro: le_trans [OF card_Diff1_le])

primrec call :: "'k registry_call \<Rightarrow> 'r \<Rightarrow> 'r" where
  "call (ReserveCall k) r = snd (reserve_op k r)"
| "call (ReleaseCall k) r = release_op k r"

lemma calls_within: "within r \<Longrightarrow> within (fold call cs r)"
proof (induction cs arbitrary: r)
  case (Cons c cs)
  then have "within (call c r)" by (cases c) (simp_all add: reserve_within release_within)
  with Cons.IH show ?case by simp
qed simp

end

lemma reserve_Admitted:
  "reserve n A = (Admitted, A') \<longleftrightarrow> n \<notin> A \<and> card A < 16 \<and> A' = insert n A"
  by (auto simp: reserve_def server_limits)

lemma reserve_not_Admitted: "reserve n A = (a, A') \<Longrightarrow> a \<noteq> Admitted \<Longrightarrow> A' = A"
  by (auto simp: reserve_def split: if_splits)

interpretation sessions: registry reserve release "\<lambda>A. A" MAX_ACTIVE_SESSIONS
  by unfold_locales
     (auto simp: reserve_Admitted server_limits release_def dest: reserve_not_Admitted)

subsection \<open>Requests\<close>

lemma extract_config_Ok [simp]:
  "extract_config m = Ok c \<longleftrightarrow> client_payload m = Some (Config c)"
  by (auto simp: extract_config_def split: option.splits client_payload.splits)

lemma session_request_Ok:
  "session_request os first A = (Ok c', A', ls) \<longleftrightarrow>
     (\<exists>m c n. first = Some (Ok m) \<and> client_payload m = Some (Config c) \<and> valid_config os c \<and>
        n = normalize_interface_name os (interface_name c) \<and> c' = c\<lparr>interface_name := n\<rparr> \<and>
        n \<notin> A \<and> card A < 16 \<and> A' = insert n A \<and> ls = [])"
  (is "?l \<longleftrightarrow> ?r")
proof -
  have "?l \<longleftrightarrow> (\<exists>m c n. first = Some (Ok m) \<and> extract_config m = Ok c \<and> validate_config os c = Ok () \<and>
        n = normalize_interface_name os (interface_name c) \<and> c' = c\<lparr>interface_name := n\<rparr> \<and>
        reserve n A = (Admitted, A') \<and> ls = [])"
    by (simp add: session_request_def Let_def del: extract_config_Ok
             split: option.splits result.splits admission.splits prod.splits) auto
  then show ?thesis
    by (simp only: extract_config_Ok validate_config_ok reserve_Admitted) auto
qed

lemma session_request_Err: "session_request os first A = (Err st, A', ls) \<Longrightarrow> A' = A"
  by (auto simp: session_request_def Let_def
           split: option.splits result.splits admission.splits prod.splits
           dest: reserve_not_Admitted)

subsection \<open>Interface names on macOS\<close>

lemma normalize_macos:
  assumes "valid_interface_name os name"
  shows "normalize_interface_name Macos name = ''utun'' @ dec_str (dec_value (drop 4 name))"
proof -
  have "list_all is_ascii_digit (drop 4 name)"
    using assms by (auto simp: valid_interface_name_def list_all_iff)
  from trim_zeros_dec_str [OF this] show ?thesis
    by (simp add: normalize_interface_name_def Let_def)
qed

subsection \<open>Packet loops\<close>

lemma on_read_packet:
  "on_read os io T (Ok packet) =
     (if forwardable packet then Forward \<lparr>server_payload = Some (IncomingPacket packet)\<rparr> else SkipPacket)"
  by (auto simp: on_read_def forwardable_def server_limits)

lemma read_task_packets:
  "read_task os io T (map (\<lambda>q. (Ok q, True)) packets @ rest) =
     (case read_task os io T rest of (ms, fin) \<Rightarrow>
        (map (\<lambda>q. \<lparr>server_payload = Some (IncomingPacket q)\<rparr>) (filter forwardable packets) @ ms, fin))"
  by (induction packets) (auto simp: on_read_packet split: prod.splits)

lemma select_incoming [simp]: "select (incoming_poll m) = NextMessage m"
  by (simp add: select_def incoming_poll_def)

lemma on_message_packet:
  "on_message D io t (packet_message q) s =
     (if forwardable q
      then (case write_packet D t q s of
              (Err e, s) \<Rightarrow> (Some (status Internal (''failed writing TUN packet: '' @ io e)), s)
            | (Ok _, s) \<Rightarrow> (None, s))
      else (None, s))"
  by (auto simp: on_message_def packet_message_def forwardable_def server_limits)

lemma write_loop_packets:
  assumes "\<And>q s. q \<in> set packets \<Longrightarrow> forwardable q \<Longrightarrow> is_ok (fst (write_packet D t q s))"
  shows "write_loop D io t (map (\<lambda>q. incoming_poll (packet_message q)) packets @ rest) s =
    write_loop D io t rest (write_all_packets D t (filter forwardable packets) s)"
  using assms
proof (induction packets arbitrary: s)
  case (Cons q packets)
  show ?case
  proof (cases "forwardable q")
    case True
    then obtain s' where "write_packet D t q s = (Ok (), s')"
      using Cons.prems [of q s] by (cases "write_packet D t q s"; cases "fst (write_packet D t q s)") auto
    with True Cons show ?thesis by (simp add: on_message_packet write_all_packets_def)
  next
    case False
    with Cons show ?thesis by (simp add: on_message_packet write_all_packets_def)
  qed
qed (simp add: write_all_packets_def)

subsection \<open>Teardown\<close>

lemma teardown_sessions [simp]:
  "fst (snd (teardown T name w cl j ms c A)) = A - {name}"
  by (simp add: teardown_def release_def split: prod.splits)

lemma send_bound: "send m c = Some (b, c') \<Longrightarrow> length (queue c) \<le> 64 \<Longrightarrow> length (queue c') \<le> 64"
  by (auto simp: send_def full_def server_limits split: if_splits)

lemma try_send_bound: "length (queue c) \<le> 64 \<Longrightarrow> length (queue (try_send m c)) \<le> 64"
  by (auto simp: try_send_def dest: send_bound split: option.splits)

lemma teardown_bound:
  "length (queue c) \<le> 64 \<Longrightarrow> length (queue (fst (teardown T name w cl j ms c A))) \<le> 64"
  by (simp add: teardown_def report_write_def report_close_def try_send_bound split: result.splits)

lemma select_shutdown: "shutdown_ready p \<or> tx_closed_ready p \<Longrightarrow> select p = LoopEnd (Ok ())"
  by (auto simp: select_def)

lemma write_loop_ends: "p \<in> set ps \<Longrightarrow> select p = LoopEnd r \<Longrightarrow> fst (write_loop D io t ps s) \<noteq> None"
proof (induction ps arbitrary: s)
  case (Cons q ps)
  show ?case
  proof (cases "p \<in> set ps")
    case True
    with Cons have "fst (write_loop D io t ps s) \<noteq> None" for s by blast
    then show ?thesis by (auto split: select_result.split option.split prod.split)
  next
    case False
    with Cons.prems show ?thesis by simp
  qed
qed simp

lemma teardown_lines:
  "\<exists>ls. snd (snd (teardown T name w cl j ms c A)) =
     ls @ [''session stopped interface='' @ name @ '' duration_ms='' @ dec_str ms]"
  by (simp add: teardown_def split: prod.splits)

section \<open>Properties\<close>



text \<open>
  C23: On macOS two valid names are the same session exactly if they denote the same device index,
  however many zeros they are written with; the canonical name is valid again and is its own canonical
  form. On the other platforms the name is kept.
\<close>

theorem macos_names_canonical:
  assumes "valid_interface_name Macos a" and "valid_interface_name Macos b"
  shows "(normalize_interface_name Macos a = normalize_interface_name Macos b \<longleftrightarrow>
           dec_value (drop 4 a) = dec_value (drop 4 b)) \<and>
    valid_interface_name Macos (normalize_interface_name Macos a) \<and>
    normalize_interface_name Macos (normalize_interface_name Macos a) = normalize_interface_name Macos a"
proof -
  let ?n = "''utun'' @ dec_str (dec_value (drop 4 a))"
  have lt: "dec_value (drop 4 a) < 2 ^ 32 - 1" using assms(1) by (auto simp: valid_interface_name_def)
  then have "length (dec_str (dec_value (drop 4 a))) \<le> 10"
    by (intro dec_str_length) simp_all
  then have "valid_interface_name Macos ?n"
    using lt dec_str_digits [of "dec_value (drop 4 a)"]
    by (auto simp: valid_interface_name_def list_all_iff)
  then show ?thesis
    using assms by (simp add: normalize_macos dec_str_inject)
qed

theorem macos_names_canonical_witness:
  "normalize_interface_name Macos ''utun007'' = normalize_interface_name Macos ''utun7''"
proof -
  have "validate_interface_name Macos ''utun007'' = Ok () \<and> validate_interface_name Macos ''utun7'' = Ok ()"
    by (simp add: validate_interface_name_def validation_limits parse_uint_def name_eval)
  then show ?thesis
    using macos_names_canonical [of "''utun007''" "''utun7''"]
    by (simp add: validate_interface_name_ok name_eval)
qed

text \<open>
  The reader forwards the packets of the device in order and unchanged, dropping exactly those
  that are empty or longer than 65535 bytes, until the read is interrupted; then it reports no error.
  Any other read error is sent to the client once and is the reader's result.
\<close>

lemma read_task_forwards:
  "read_task os io T (map (\<lambda>q. (Ok q, True)) packets @ (Err e, True) # rest) =
    (map (\<lambda>q. \<lparr>server_payload = Some (IncomingPacket q)\<rparr>)
        (filter (\<lambda>q. q \<noteq> [] \<and> length q \<le> 65535) packets) @
       (if is_interrupted os e then []
        else [error_message T (status Internal (''failed reading TUN packet: '' @ io e))]),
     Some (if is_interrupted os e then None else Some (''failed reading TUN packet: '' @ io e)))"
  unfolding read_task_packets by (simp add: on_read_def Let_def forwardable_def [abs_def])

text \<open>
  The writer hands the client's packets to the device in order and unchanged, dropping exactly
  those that are empty or longer than 65535 bytes, until the loop ends; nothing is written after that.
\<close>

lemma write_loop_forwards:
  assumes "\<And>q s. q \<in> set packets \<Longrightarrow> forwardable q \<Longrightarrow> is_ok (fst (write_packet D t q s))"
    and "select p = LoopEnd r"
  shows "write_loop D io t (map (\<lambda>q. incoming_poll (packet_message q)) packets @ p # rest) s =
    (Some r, write_all_packets D t (filter (\<lambda>q. q \<noteq> [] \<and> length q \<le> 65535) packets) s)"
  using write_loop_packets [where packets = packets, OF assms(1)] assms(2)
  by (simp add: forwardable_def [abs_def])

text \<open>
  C11: The session loop always ends in the same way. Once it sees the shutdown flag or the client gone
  it ends, whatever messages came before and whatever is queued behind; then the session is closed with
  its cleanup hook taken, its name alone is released, and the stop is logged last.
\<close>

theorem session_loop_ends:
  assumes "p \<in> set polls" and "shutdown_ready p \<or> tx_closed_ready p"
  shows "\<exists>t' c' lines s'.
    run_session_loop D io T t polls panic rj ms c A s =
      (Some (t', c', A - {session_name t}, lines @
         [''session stopped interface='' @ session_name t @ '' duration_ms='' @ dec_str ms]), s') \<and>
    closed t' \<and> (\<not> closed t \<longrightarrow> cleanup_hook t' = None)"
proof -
  obtain w s1 where w: "write_loop D io t polls s = (Some w, s1)"
    using write_loop_ends [OF assms(1) select_shutdown [OF assms(2)], of D io t s]
    by (cases "write_loop D io t polls s") auto
  obtain r t' s2 where cl: "close_task D t panic s1 = (r, t', s2)" by (cases "close_task D t panic s1")
  obtain c' A' ls where td: "teardown T (session_name t) w r rj ms c A = (c', A', ls)"
    by (cases "teardown T (session_name t) w r rj ms c A")
  have "A' = A - {session_name t}" using teardown_sessions td by (metis fst_conv snd_conv)
  moreover obtain l where "ls = l @ [''session stopped interface='' @ session_name t @ '' duration_ms='' @ dec_str ms]"
    using teardown_lines td by (metis snd_conv)
  moreover have "\<not> closed t \<Longrightarrow> cleanup_hook t' = None"
    using cl by (auto simp: close_task_def close_open split: option.splits)
  moreover have "closed t'" using cl by (auto simp: close_task_def dest: close_result_closed split: option.splits)
  ultimately show ?thesis
    using w cl td by (simp add: run_session_loop_def)
qed

theorem session_loop_ends_witness:
  "\<exists>t' c' lines s'.
    run_session_loop sample_device (\<lambda>_. []) sample_text sample_session
      [incoming_poll (packet_message [69]),
       \<lparr>shutdown_ready = False, tx_closed_ready = True, read_done_ready = None, incoming_ready = None\<rparr>]
      None (Ok ()) 5 new_channel {''utun3'', ''utun7''} [] = (Some (t', c', {''utun3''}, lines), s') \<and> closed t'"
  using session_loop_ends [of "\<lparr>shutdown_ready = False, tx_closed_ready = True, read_done_ready = None, incoming_ready = None\<rparr>"
      "[incoming_poll (packet_message [69]),
        \<lparr>shutdown_ready = False, tx_closed_ready = True, read_done_ready = None, incoming_ready = None\<rparr>]"
      sample_device "\<lambda>_. []" sample_text sample_session None "Ok ()" 5 new_channel "{''utun3'', ''utun7''}" "[]"]
  by (fastforce simp: sample_session_def)

end
