(* ===== verification/Service.thy ===== *)
theory Service
  imports Server
begin

text \<open>
  The life cycle of the sessions of one \<^verbatim>\<open>DaemonService\<close> (server.rs), as a step relation: the tasks of
  all connections interleave on the shared set of active sessions and the shutdown flag. A task of the
  model is one call of \<^verbatim>\<open>DaemonService::session\<close>: the request, the spawned initialization, the session
  loop and its teardown. Every access of the shared set under its lock is one step.

  \<open>reports c n\<close> says that a device created for the configuration \<open>c\<close> may report the
  name \<open>n\<close>, which is what \<^verbatim>\<open>device.name()\<close> gives. Interface names are released under the reported
  name, so the correctness of the registry depends on it.
\<close>

section \<open>Definitions\<close>

datatype phase =
    Requested "(client_message, status) result option"
  | Refused status
  | Spawned tun_session_config
  | Starting tun_session_config
  | Running string
  | Finished

record task =
  phase :: phase
  responses :: channel

record service =
  active_sessions :: "string set"
  stopping :: bool
  tasks :: "task list"
  log_lines :: "string list"

definition new_service :: service where
  "new_service = \<lparr>active_sessions = {}, stopping = False, tasks = [], log_lines = []\<rparr>"

abbreviation set_task :: "nat \<Rightarrow> task \<Rightarrow> service \<Rightarrow> service" where
  "set_task i t svc \<equiv> svc\<lparr>tasks := (tasks svc)[i := t]\<rparr>"

text \<open>The call of \<^verbatim>\<open>session\<close>, up to its check of the shutdown flag.\<close>

definition connect :: "(client_message, status) result option \<Rightarrow> service \<Rightarrow> service" where
  "connect first svc =
     svc\<lparr>tasks := tasks svc @
       [\<lparr>phase = (if stopping svc then Refused (status Unavailable ''daemon is shutting down'') else Requested first),
         responses = new_channel\<rparr>]\<rparr>"

definition admit :: "target_os \<Rightarrow> nat \<Rightarrow> (client_message, status) result option \<Rightarrow> service \<Rightarrow> service" where
  "admit os i first svc =
     (case session_request os first (active_sessions svc) of
        (r, sessions, lines) \<Rightarrow>
          (set_task i ((tasks svc ! i)\<lparr>phase := (case r of Ok config \<Rightarrow> Spawned config | Err st \<Rightarrow> Refused st)\<rparr>) svc)
            \<lparr>active_sessions := sessions, log_lines := log_lines svc @ lines\<rparr>)"

text \<open>The start of the spawned task, which gives up if the client or the daemon is gone.\<close>

definition begin_task :: "nat \<Rightarrow> tun_session_config \<Rightarrow> service \<Rightarrow> service" where
  "begin_task i config svc =
     (if rx_closed (responses (tasks svc ! i)) \<or> stopping svc
      then (set_task i ((tasks svc ! i)\<lparr>phase := Finished\<rparr>) svc)
             \<lparr>active_sessions := release (interface_name config) (active_sessions svc)\<rparr>
      else set_task i ((tasks svc ! i)\<lparr>phase := Starting config\<rparr>) svc)"

definition start_failed :: "nat \<Rightarrow> tun_session_config \<Rightarrow> string \<Rightarrow> service \<Rightarrow> service" where
  "start_failed i config error svc =
     (set_task i \<lparr>phase = Finished,
                  responses = try_send (Err (status FailedPrecondition error)) (responses (tasks svc ! i))\<rparr> svc)
       \<lparr>active_sessions := release (interface_name config) (active_sessions svc),
        log_lines := log_lines svc @
          [''session start failed interface='' @ interface_name config @ '': '' @ error]\<rparr>"

text \<open>\<^term>\<open>None\<close> while the send of the started message waits.\<close>

definition session_started :: "nat \<Rightarrow> string \<Rightarrow> service \<Rightarrow> service option" where
  "session_started i name svc =
     (case send (Ok \<lparr>server_payload = Some (Started name)\<rparr>) (responses (tasks svc ! i)) of
        None \<Rightarrow> None
      | Some (_, c) \<Rightarrow>
          Some ((set_task i \<lparr>phase = Running name, responses = c\<rparr> svc)
                  \<lparr>log_lines := log_lines svc @ [''session started interface='' @ name]\<rparr>))"

definition end_session ::
    "status_text \<Rightarrow> nat \<Rightarrow> string \<Rightarrow> (unit, status) result \<Rightarrow> (unit, string) result \<Rightarrow> (unit, string) result \<Rightarrow>
       nat \<Rightarrow> service \<Rightarrow> service" where
  "end_session T i name write_result close_result read_join elapsed_ms svc =
     (case teardown T name write_result close_result read_join elapsed_ms (responses (tasks svc ! i))
             (active_sessions svc) of
        (c, sessions, lines) \<Rightarrow>
          (set_task i \<lparr>phase = Finished, responses = c\<rparr> svc)
            \<lparr>active_sessions := sessions, log_lines := log_lines svc @ lines\<rparr>)"

text \<open>The steps that a task takes by itself.\<close>

inductive task_step ::
    "status_text \<Rightarrow> target_os \<Rightarrow> (tun_session_config \<Rightarrow> string \<Rightarrow> bool) \<Rightarrow> service \<Rightarrow> service \<Rightarrow> bool"
  for T os reports where
    admit_step: "i < length (tasks svc) \<Longrightarrow> phase (tasks svc ! i) = Requested first \<Longrightarrow>
      task_step T os reports svc (admit os i first svc)"
  | begin_step: "i < length (tasks svc) \<Longrightarrow> phase (tasks svc ! i) = Spawned config \<Longrightarrow>
      task_step T os reports svc (begin_task i config svc)"
  | failed_step: "i < length (tasks svc) \<Longrightarrow> phase (tasks svc ! i) = Starting config \<Longrightarrow>
      task_step T os reports svc (start_failed i config error svc)"
  | started_step: "i < length (tasks svc) \<Longrightarrow> phase (tasks svc ! i) = Starting config \<Longrightarrow> reports config name \<Longrightarrow>
      session_started i name svc = Some svc' \<Longrightarrow> task_step T os reports svc svc'"
  | ended_step: "i < length (tasks svc) \<Longrightarrow> phase (tasks svc ! i) = Running name \<Longrightarrow>
      task_step T os reports svc (end_session T i name w cl j ms svc)"

text \<open>The steps of the clients, of the packet flow and of the shutdown request.\<close>

inductive env_step :: "service \<Rightarrow> service \<Rightarrow> bool" where
    connect_step: "env_step svc (connect first svc)"
  | disconnect_step: "i < length (tasks svc) \<Longrightarrow>
      env_step svc (set_task i ((tasks svc ! i)\<lparr>responses := (responses (tasks svc ! i))\<lparr>rx_closed := True\<rparr>\<rparr>) svc)"
  | deliver_step: "i < length (tasks svc) \<Longrightarrow> phase (tasks svc ! i) = Running name \<Longrightarrow>
      send_response m stop (responses (tasks svc ! i)) = Some (b, c) \<Longrightarrow>
      env_step svc (set_task i ((tasks svc ! i)\<lparr>responses := c\<rparr>) svc)"
  | receive_step: "i < length (tasks svc) \<Longrightarrow> queue (responses (tasks svc ! i)) = m # q \<Longrightarrow>
      env_step svc (set_task i ((tasks svc ! i)\<lparr>responses := (responses (tasks svc ! i))\<lparr>queue := q\<rparr>\<rparr>) svc)"
  | shutdown_step: "env_step svc (svc\<lparr>stopping := True\<rparr>)"

definition server_step ::
    "status_text \<Rightarrow> target_os \<Rightarrow> (tun_session_config \<Rightarrow> string \<Rightarrow> bool) \<Rightarrow> service \<Rightarrow> service \<Rightarrow> bool" where
  "server_step T os reports svc svc' \<longleftrightarrow> task_step T os reports svc svc' \<or> env_step svc svc'"

text \<open>\<^verbatim>\<open>wait_for_sessions\<close>, on the sets it finds each time it looks; \<^term>\<open>None\<close> while it waits.\<close>

fun wait_for_sessions :: "string set list \<Rightarrow> unit option" where
  "wait_for_sessions [] = None"
| "wait_for_sessions (A # rest) = (if A = {} then Some () else wait_for_sessions rest)"

subsection \<open>Specification\<close>

text \<open>The name that a task has reserved, and those of all tasks.\<close>

definition held_name :: "phase \<Rightarrow> string list" where
  "held_name p = (case p of
     Spawned config \<Rightarrow> [interface_name config] | Starting config \<Rightarrow> [interface_name config] | Running n \<Rightarrow> [n]
   | _ \<Rightarrow> [])"

definition held_names :: "service \<Rightarrow> string list" where
  "held_names svc = concat (map (held_name \<circ> phase) (tasks svc))"

text \<open>The abstract registry: a set of at most sixteen names.\<close>

inductive slot_step :: "string set \<Rightarrow> string set \<Rightarrow> bool" where
    slot_keep: "slot_step A A"
  | slot_take: "n \<notin> A \<Longrightarrow> card A < 16 \<Longrightarrow> slot_step A (insert n A)"
  | slot_free: "n \<in> A \<Longrightarrow> slot_step A (A - {n})"

text \<open>The number of steps that the tasks can still take.\<close>

definition steps_left :: "phase \<Rightarrow> nat" where
  "steps_left p = (case p of Requested _ \<Rightarrow> 4 | Spawned _ \<Rightarrow> 3 | Starting _ \<Rightarrow> 2 | Running _ \<Rightarrow> 1 | _ \<Rightarrow> 0)"

definition pending_steps :: "service \<Rightarrow> nat" where
  "pending_steps svc = sum_list (map (steps_left \<circ> phase) (tasks svc))"

definition registry_inv :: "service \<Rightarrow> bool" where
  "registry_inv svc \<longleftrightarrow>
     active_sessions svc = set (held_names svc) \<and> distinct (held_names svc) \<and> length (held_names svc) \<le> 16"

definition channel_inv :: "service \<Rightarrow> bool" where
  "channel_inv svc \<longleftrightarrow>
     (\<forall>t \<in> set (tasks svc). length (queue (responses t)) \<le> 64 \<and>
        (phase t \<in> range Requested \<union> range Spawned \<union> range Starting \<longrightarrow> queue (responses t) = []))"

text \<open>A run for the examples: one client asks for the sample session and is admitted.\<close>

definition sample_service :: service where
  "sample_service = admit Linux 0 sample_first (connect sample_first new_service)"

section \<open>Lemmas\<close>

subsection \<open>Updating one task\<close>

lemma split_task:
  assumes "i < length ts"
  obtains xs ys where "ts = xs @ ts ! i # ys" and "\<And>t. ts[i := t] = xs @ t # ys"
  using assms by (metis id_take_nth_drop upd_conv_take_nth_drop)

lemma held_names_update:
  assumes "i < length (tasks svc)"
  obtains a b where "held_names svc = a @ held_name (phase (tasks svc ! i)) @ b"
    and "\<And>svc' t. tasks svc' = (tasks svc)[i := t] \<Longrightarrow> held_names svc' = a @ held_name (phase t) @ b"
proof -
  obtain xs ys where x: "tasks svc = xs @ tasks svc ! i # ys" "\<And>t. (tasks svc)[i := t] = xs @ t # ys"
    using split_task [OF assms] by blast
  let ?h = "\<lambda>ts. concat (map (held_name \<circ> phase) ts)"
  have "held_names svc = ?h xs @ held_name (phase (tasks svc ! i)) @ ?h ys"
    unfolding held_names_def by (subst x(1)) simp
  moreover have "held_names svc' = ?h xs @ held_name (phase t) @ ?h ys"
    if "tasks svc' = (tasks svc)[i := t]" for svc' t
    unfolding held_names_def that x(2) by simp
  ultimately show thesis by (rule that)
qed

lemma pending_update:
  assumes "i < length (tasks svc)" and "tasks svc' = (tasks svc)[i := t]"
  shows "pending_steps svc' + steps_left (phase (tasks svc ! i)) = pending_steps svc + steps_left (phase t)"
proof -
  obtain xs ys where x: "tasks svc = xs @ tasks svc ! i # ys" "\<And>t. (tasks svc)[i := t] = xs @ t # ys"
    using split_task [OF assms(1)] by blast
  have "pending_steps svc = sum_list (map (steps_left \<circ> phase) xs) + steps_left (phase (tasks svc ! i)) +
      sum_list (map (steps_left \<circ> phase) ys)"
    unfolding pending_steps_def by (subst x(1)) simp
  then show ?thesis
    unfolding pending_steps_def [of svc'] assms(2) x(2) by simp
qed

subsection \<open>The effect of a step\<close>

text \<open>What a step of a task does to the shared set: nothing, one name taken or one name given back.\<close>

definition set_change ::
    "(tun_session_config \<Rightarrow> string \<Rightarrow> bool) \<Rightarrow> phase \<Rightarrow> phase \<Rightarrow> string set \<Rightarrow> string set \<Rightarrow> bool" where
  "set_change reports p p' A A' \<longleftrightarrow>
     held_name p' = held_name p \<and> A' = A \<or>
     (\<exists>n. held_name p = [] \<and> held_name p' = [n] \<and> n \<notin> A \<and> card A < 16 \<and> A' = insert n A) \<or>
     (\<exists>n. held_name p = [n] \<and> held_name p' = [] \<and> A' = A - {n}) \<or>
     (\<exists>c n. held_name p = [interface_name c] \<and> reports c n \<and> held_name p' = [n] \<and> A' = A)"

lemma admit_effect:
  assumes "phase (tasks svc ! i) = Requested first"
  shows "\<exists>t. tasks (admit os i first svc) = (tasks svc)[i := t] \<and>
    steps_left (phase t) < 4 \<and> queue (responses t) = queue (responses (tasks svc ! i)) \<and>
    stopping (admit os i first svc) = stopping svc \<and>
    set_change reports (Requested first) (phase t) (active_sessions svc) (active_sessions (admit os i first svc))"
proof (cases "session_request os first (active_sessions svc)")
  case (fields r A ls)
  show ?thesis
  proof (cases r)
    case (Ok c)
    then have "interface_name c \<notin> active_sessions svc \<and> card (active_sessions svc) < 16 \<and>
        A = insert (interface_name c) (active_sessions svc)"
      using fields session_request_Ok [of os first "active_sessions svc" c A ls] by auto
    with fields Ok show ?thesis
      by (auto simp: admit_def set_change_def held_name_def steps_left_def)
  next
    case (Err st)
    with fields session_request_Err [of os first "active_sessions svc"] show ?thesis
      by (auto simp: admit_def set_change_def held_name_def steps_left_def)
  qed
qed

lemma task_step_effect:
  assumes "task_step T os reports svc svc'"
  obtains i t where "i < length (tasks svc)" and "tasks svc' = (tasks svc)[i := t]"
    and "stopping svc' = stopping svc"
    and "steps_left (phase t) < steps_left (phase (tasks svc ! i))"
    and "set_change reports (phase (tasks svc ! i)) (phase t) (active_sessions svc) (active_sessions svc')"
  using assms
proof cases
  case (admit_step i first)
  then show thesis
    using admit_effect [of svc i first os reports] that [of i] by (auto simp: steps_left_def)
next
  case (begin_step i config)
  then show thesis
    by (intro that [of i "tasks svc' ! i"])
       (auto simp: begin_task_def set_change_def held_name_def steps_left_def release_def)
next
  case (failed_step i config error)
  then show thesis
    by (intro that [of i "tasks svc' ! i"])
       (auto simp: start_failed_def set_change_def held_name_def steps_left_def release_def)
next
  case (started_step i config name)
  then show thesis
    by (intro that [of i "tasks svc' ! i"])
       (auto simp: session_started_def set_change_def held_name_def steps_left_def split: option.splits)
next
  case (ended_step i name w cl j ms)
  then show thesis
    using teardown_sessions [of T name w cl j ms "responses (tasks svc ! i)" "active_sessions svc"]
    by (intro that [of i "tasks svc' ! i"])
       (auto simp del: teardown_sessions
             simp: end_session_def set_change_def held_name_def steps_left_def split: prod.splits)
qed

lemma same_phases:
  assumes "map phase (tasks svc') = map phase (tasks svc)"
  shows "held_names svc' = held_names svc" and "pending_steps svc' = pending_steps svc"
  using arg_cong [OF assms, of "map held_name"] arg_cong [OF assms, of "map steps_left"]
  by (simp_all add: held_names_def pending_steps_def)

lemma env_step_phases:
  assumes "env_step svc svc'"
  shows "map phase (tasks svc') = map phase (tasks svc) \<or> (\<exists>first. svc' = connect first svc)"
  using assms by cases (auto simp: map_update list_update_same_conv)

lemma connect_effect:
  "held_names (connect first svc) = held_names svc"
  "stopping svc \<Longrightarrow> pending_steps (connect first svc) = pending_steps svc"
  by (simp_all add: connect_def held_names_def held_name_def pending_steps_def steps_left_def)

lemma env_step_effect:
  assumes "env_step svc svc'"
  shows "active_sessions svc' = active_sessions svc" and "held_names svc' = held_names svc"
    and "stopping svc \<Longrightarrow> stopping svc' \<and> pending_steps svc' = pending_steps svc"
proof -
  show "active_sessions svc' = active_sessions svc"
    using assms by cases (simp_all add: connect_def)
  have "stopping svc \<Longrightarrow> stopping svc'"
    using assms by cases (simp_all add: connect_def)
  then show "held_names svc' = held_names svc"
    and "stopping svc \<Longrightarrow> stopping svc' \<and> pending_steps svc' = pending_steps svc"
    using env_step_phases [OF assms] same_phases [of svc' svc] connect_effect by auto
qed

subsection \<open>The registry\<close>

lemma slot_finite: "finite A \<Longrightarrow> slot_step A A' \<Longrightarrow> finite A'"
  by (auto elim: slot_step.cases)

lemma slot_card: "finite A \<Longrightarrow> card A \<le> 16 \<Longrightarrow> slot_step A A' \<Longrightarrow> card A' \<le> 16"
  by (auto simp: card_insert_if elim!: slot_step.cases intro: le_trans [OF card_Diff1_le])

lemma server_step_slot_or_release:
  assumes "server_step T os reports svc svc'"
  shows "slot_step (active_sessions svc) (active_sessions svc') \<or>
    (\<exists>n. active_sessions svc' = active_sessions svc - {n})"
proof (cases "env_step svc svc'")
  case True
  then show ?thesis by (simp add: env_step_effect slot_keep)
next
  case False
  then have "task_step T os reports svc svc'" using assms by (simp add: server_step_def)
  then obtain p p' where "set_change reports p p' (active_sessions svc) (active_sessions svc')"
    by (rule task_step_effect)
  then show ?thesis by (auto simp: set_change_def intro: slot_step.intros)
qed

definition capacity_inv :: "service \<Rightarrow> bool" where
  "capacity_inv svc \<longleftrightarrow> finite (active_sessions svc) \<and> card (active_sessions svc) \<le> 16"

lemma capacity_step: "capacity_inv svc \<Longrightarrow> server_step T os reports svc svc' \<Longrightarrow> capacity_inv svc'"
  using server_step_slot_or_release [of T os reports svc svc'] slot_finite slot_card
  by (auto simp: capacity_inv_def intro: le_trans [OF card_Diff1_le])

interpretation capacity: invariant new_service "server_step T os reports" capacity_inv for T os reports
  by unfold_locales (simp add: capacity_inv_def new_service_def, rule capacity_step)

lemma registry_task_step:
  assumes stable: "\<And>c n. reports c n \<Longrightarrow> n = interface_name c"
    and inv: "registry_inv svc"
    and step: "task_step T os reports svc svc'"
  shows "registry_inv svc' \<and> slot_step (active_sessions svc) (active_sessions svc')"
proof -
  obtain i t where i: "i < length (tasks svc)" and t: "tasks svc' = (tasks svc)[i := t]"
    and ch: "set_change reports (phase (tasks svc ! i)) (phase t) (active_sessions svc) (active_sessions svc')"
    using step by (rule task_step_effect)
  obtain a b where h: "held_names svc = a @ held_name (phase (tasks svc ! i)) @ b"
    and h': "held_names svc' = a @ held_name (phase t) @ b"
    using held_names_update [OF i] t by metis
  consider (keep) "held_names svc' = held_names svc" "active_sessions svc' = active_sessions svc"
    | (take) n where "held_names svc = a @ b" "held_names svc' = a @ n # b" "n \<notin> active_sessions svc"
        "card (active_sessions svc) < 16" "active_sessions svc' = insert n (active_sessions svc)"
    | (free) n where "held_names svc = a @ n # b" "held_names svc' = a @ b"
        "active_sessions svc' = active_sessions svc - {n}"
    using ch stable unfolding set_change_def h h' by fastforce
  then show ?thesis
  proof cases
    case keep
    with inv show ?thesis by (simp add: registry_inv_def slot_keep)
  next
    case take
    have "card (set (held_names svc)) < 16" "distinct (held_names svc)"
      using take(4) inv unfolding registry_inv_def by metis+
    then have "length (a @ b) < 16" using distinct_card [of "held_names svc"] take(1) by simp
    with take inv show ?thesis by (auto simp: registry_inv_def intro: slot_take)
  next
    case free
    then have "n \<in> active_sessions svc" "active_sessions svc' = set (a @ b)" "distinct (a @ b)"
      using inv by (auto simp: registry_inv_def)
    with free inv show ?thesis
      using slot_free [of n "active_sessions svc"] by (simp add: registry_inv_def)
  qed
qed

lemma registry_step:
  assumes "\<And>c n. reports c n \<Longrightarrow> n = interface_name c" and "registry_inv svc"
    and "server_step T os reports svc svc'"
  shows "registry_inv svc' \<and> slot_step (active_sessions svc) (active_sessions svc')"
proof (cases "env_step svc svc'")
  case True
  then show ?thesis using assms(2) by (simp add: registry_inv_def env_step_effect slot_keep)
next
  case False
  then show ?thesis using assms registry_task_step by (metis server_step_def)
qed

lemma registry_init: "registry_inv new_service"
  by (simp add: registry_inv_def new_service_def held_names_def)

text \<open>A device that keeps the name it was created with.\<close>

definition keeps_name :: "tun_session_config \<Rightarrow> string \<Rightarrow> bool" where
  "keeps_name c n \<longleftrightarrow> n = interface_name c"

interpretation slots: simulation new_service "server_step T os keeps_name" registry_inv slot_step active_sessions
  for T os
  using registry_init registry_step [of keeps_name] by unfold_locales (auto simp: keeps_name_def)

lemma server_step_mono:
  "(\<And>c n. reports c n \<Longrightarrow> reports' c n) \<Longrightarrow> server_step T os reports svc svc' \<Longrightarrow> server_step T os reports' svc svc'"
  unfolding server_step_def by (auto elim!: task_step.cases intro: task_step.intros)

lemma registry_reachable:
  assumes "\<And>c n. reports c n \<Longrightarrow> n = interface_name c" and "(server_step T os reports)\<^sup>*\<^sup>* new_service svc"
  shows "registry_inv svc"
proof -
  have "(server_step T os keeps_name)\<^sup>*\<^sup>* new_service svc"
    using assms(2) server_step_mono [of reports keeps_name T os] assms(1)
    by (auto simp: keeps_name_def elim!: rtranclp_mono [THEN predicate2D, rotated])
  then show ?thesis by (rule slots.reachable_inv [unfolded capacity.reachable_def])
qed

subsection \<open>Draining\<close>

lemma task_step_pending: "task_step T os reports svc svc' \<Longrightarrow> pending_steps svc' < pending_steps svc"
proof (elim task_step_effect)
  fix i t
  assume "i < length (tasks svc)" and "tasks svc' = (tasks svc)[i := t]"
    and "steps_left (phase t) < steps_left (phase (tasks svc ! i))"
  then show ?thesis using pending_update [of i svc svc' t] by linarith
qed

lemma server_step_pending:
  assumes "server_step T os reports svc svc'" and "stopping svc"
  shows "stopping svc' \<and> pending_steps svc' \<le> pending_steps svc"
proof (cases "env_step svc svc'")
  case True
  then show ?thesis using env_step_effect(3) assms(2) by simp
next
  case False
  then have step: "task_step T os reports svc svc'" using assms(1) by (simp add: server_step_def)
  then have "stopping svc' = stopping svc" by (rule task_step_effect)
  with task_step_pending [OF step] assms(2) show ?thesis by simp
qed

text \<open>A task that still holds a name can take a step, whatever its blocking call returned.\<close>

lemma held_task_steps:
  assumes "i < length (tasks svc)" and "held_name (phase (tasks svc ! i)) \<noteq> []"
  shows "\<exists>svc'. task_step T os reports svc svc'"
  using assms by (cases "phase (tasks svc ! i)") (auto simp: held_name_def intro: task_step.intros)

lemma no_step_no_names: "(\<And>svc'. \<not> task_step T os reports svc svc') \<Longrightarrow> held_names svc = []"
  using held_task_steps [of _ svc T os reports] by (fastforce simp: held_names_def set_conv_nth)

subsection \<open>Response channels\<close>

lemma channel_update:
  assumes "channel_inv svc" and "tasks svc' = (tasks svc)[i := t]" and "length (queue (responses t)) \<le> 64"
    and "phase t \<in> range Requested \<union> range Spawned \<union> range Starting \<Longrightarrow> queue (responses t) = []"
  shows "channel_inv svc'"
  unfolding channel_inv_def assms(2)
proof (intro ballI)
  fix t' assume "t' \<in> set ((tasks svc)[i := t])"
  then have "t' = t \<or> t' \<in> set (tasks svc)" using set_update_subset_insert by fastforce
  with assms(1,3,4) show "length (queue (responses t')) \<le> 64 \<and>
      (phase t' \<in> range Requested \<union> range Spawned \<union> range Starting \<longrightarrow> queue (responses t') = [])"
    unfolding channel_inv_def by blast
qed

lemma channel_task:
  assumes "channel_inv svc" and "i < length (tasks svc)"
  shows "length (queue (responses (tasks svc ! i))) \<le> 64"
    and "phase (tasks svc ! i) \<in> range Requested \<union> range Spawned \<union> range Starting \<Longrightarrow>
      queue (responses (tasks svc ! i)) = []"
  using assms nth_mem unfolding channel_inv_def by blast+

lemma channel_task_step:
  assumes inv: "channel_inv svc" and "task_step T os reports svc svc'"
  shows "channel_inv svc'"
  using assms(2)
proof cases
  case (admit_step i first)
  then obtain t where "tasks svc' = (tasks svc)[i := t]" "queue (responses t) = queue (responses (tasks svc ! i))"
    using admit_effect by metis
  then show ?thesis using admit_step channel_task [OF inv, of i] by (intro channel_update [OF inv]) auto
next
  case (begin_step i config)
  then show ?thesis
    using channel_task [OF inv, of i]
    by (intro channel_update [OF inv, of _ i "tasks svc' ! i"]) (auto simp: begin_task_def)
next
  case (failed_step i config error)
  then show ?thesis
    using channel_task [OF inv, of i]
    by (intro channel_update [OF inv, of _ i "tasks svc' ! i"]) (auto simp: start_failed_def try_send_bound)
next
  case (started_step i config name)
  then show ?thesis
    using channel_task [OF inv, of i]
    by (intro channel_update [OF inv, of _ i "tasks svc' ! i"])
       (auto simp: session_started_def dest: send_bound split: option.splits)
next
  case (ended_step i name w cl j ms)
  then show ?thesis
    using channel_task [OF inv, of i]
      teardown_bound [of "responses (tasks svc ! i)" T name w cl j ms "active_sessions svc"]
    by (intro channel_update [OF inv, of _ i "tasks svc' ! i"]) (auto simp: end_session_def split: prod.splits)
qed

lemma channel_env_step:
  assumes inv: "channel_inv svc" and "env_step svc svc'"
  shows "channel_inv svc'"
  using assms(2)
proof cases
  case (connect_step first)
  then show ?thesis using inv by (auto simp: channel_inv_def connect_def new_channel_def)
next
  case (disconnect_step i)
  then show ?thesis
    using channel_task [OF inv, of i] by (intro channel_update [OF inv, of _ i "tasks svc' ! i"]) auto
next
  case (deliver_step i name m stop b c)
  then show ?thesis
    using channel_task [OF inv, of i]
    by (intro channel_update [OF inv, of _ i "tasks svc' ! i"])
       (auto simp: send_response_def dest: send_bound split: if_splits)
next
  case (receive_step i m q)
  then show ?thesis
    using channel_task [OF inv, of i] by (intro channel_update [OF inv, of _ i "tasks svc' ! i"]) auto
next
  case shutdown_step
  then show ?thesis using inv by (simp add: channel_inv_def)
qed

interpretation channels: invariant new_service "server_step T os reports" channel_inv for T os reports
  by unfold_locales
     (simp add: channel_inv_def new_service_def, metis channel_task_step channel_env_step server_step_def)

subsection \<open>The sample run\<close>

lemma sample_request:
  "session_request os sample_first {} =
     (Ok (sample_config\<lparr>interface_name := normalize_interface_name os ''utun07''\<rparr>),
      {normalize_interface_name os ''utun07''}, [])"
proof -
  have "interface_name sample_config = ''utun07''" by (simp add: sample_config_def)
  then show ?thesis
    using sample_config_valid by (auto simp: session_request_Ok sample_first_def)
qed

lemma sample_service_eq:
  "sample_service =
     \<lparr>active_sessions = {''utun07''}, stopping = False,
      tasks = [\<lparr>phase = Spawned sample_config, responses = new_channel\<rparr>], log_lines = []\<rparr>"
proof -
  have "sample_config\<lparr>interface_name := ''utun07''\<rparr> = sample_config" by (simp add: sample_config_def)
  then show ?thesis
    using sample_request [of Linux]
    by (simp add: sample_service_def admit_def connect_def new_service_def normalize_interface_name_def)
qed

lemma task_steps_server: "task_step T os reports svc svc' \<Longrightarrow> server_step T os reports svc svc'"
  by (simp add: server_step_def)

lemma sample_connected: "server_step T os reports new_service (connect sample_first new_service)"
  by (simp add: server_step_def env_step.connect_step)

lemma sample_reachable: "(server_step T Linux reports)\<^sup>*\<^sup>* new_service sample_service"
proof -
  have "task_step T Linux reports (connect sample_first new_service) sample_service"
    unfolding sample_service_def
    by (rule task_step.admit_step) (simp_all add: connect_def new_service_def)
  then show ?thesis
    using sample_connected by (meson converse_rtranclp_into_rtranclp r_into_rtranclp server_step_def)
qed

lemma sample_begun:
  "begin_task 0 sample_config sample_service =
     sample_service\<lparr>tasks := [\<lparr>phase = Starting sample_config, responses = new_channel\<rparr>]\<rparr>"
  by (simp add: begin_task_def sample_service_eq new_channel_def)

definition sample_running :: "string \<Rightarrow> service" where
  "sample_running name =
     sample_service\<lparr>tasks := [\<lparr>phase = Running name,
        responses = \<lparr>queue = [Ok \<lparr>server_payload = Some (Started name)\<rparr>], rx_closed = False\<rparr>\<rparr>],
      log_lines := [''session started interface='' @ name]\<rparr>"

lemma sample_started:
  "session_started 0 name (begin_task 0 sample_config sample_service) = Some (sample_running name)"
  unfolding sample_begun sample_running_def
  by (simp add: session_started_def send_def new_channel_def full_def server_limits sample_service_eq)

lemma sample_running_reachable:
  assumes "reports sample_config name"
  shows "(server_step T Linux reports)\<^sup>*\<^sup>* new_service (sample_running name)"
proof -
  let ?s2 = "begin_task 0 sample_config sample_service"
  have "task_step T Linux reports sample_service ?s2"
    by (rule task_step.begin_step) (simp_all add: sample_service_eq)
  moreover have "task_step T Linux reports ?s2 (sample_running name)"
    by (rule task_step.started_step [where i = 0 and config = sample_config and name = name])
       (simp_all add: sample_begun assms sample_started [unfolded sample_begun])
  ultimately show ?thesis
    using sample_reachable [of T reports] task_steps_server by (metis rtranclp.rtrancl_into_rtrancl)
qed

lemma sample_ended:
  "tasks (end_session T 0 name w cl j ms (sample_running name)) =
     [\<lparr>phase = Finished, responses = fst (teardown T name w cl j ms (responses (tasks (sample_running name) ! 0)) {''utun07''})\<rparr>]"
  "active_sessions (end_session T 0 name w cl j ms (sample_running name)) = {''utun07''} - {name}"
  by (simp_all add: end_session_def teardown_def release_def sample_running_def sample_service_eq split: prod.splits)

section \<open>Properties\<close>

text \<open>
  C16: However the tasks of all connections interleave, and whatever names the devices report, the
  daemon never has more than sixteen names reserved.
\<close>

theorem sessions_bounded:
  assumes "(server_step T os reports)\<^sup>*\<^sup>* new_service svc"
  shows "finite (active_sessions svc) \<and> card (active_sessions svc) \<le> MAX_ACTIVE_SESSIONS"
  using assms capacity.reachable_inv [unfolded capacity.reachable_def]
  by (simp add: capacity_inv_def server_limits)

theorem sessions_bounded_witness:
  "card (active_sessions sample_service) \<le> MAX_ACTIVE_SESSIONS \<and> active_sessions sample_service \<noteq> {}"
  using sessions_bounded [OF sample_reachable] by (simp add: sample_service_eq)

text \<open>
  C1: If devices keep the name they are created with, the set of active sessions is exact at every
  reachable state: it holds the names of the tasks between admission and the end of their teardown,
  and no two of these tasks have the same name.
\<close>

theorem registry_exact:
  assumes "\<And>c n. reports c n \<Longrightarrow> n = interface_name c"
    and "(server_step T os reports)\<^sup>*\<^sup>* new_service svc"
  shows "active_sessions svc = set (held_names svc) \<and> distinct (held_names svc)"
  using registry_reachable [OF assms] by (simp add: registry_inv_def)

theorem registry_exact_witness:
  "active_sessions sample_service = set (held_names sample_service) \<and> distinct (held_names sample_service) \<and>
   held_names sample_service = [''utun07'']"
  using registry_exact [of keeps_name, OF _ sample_reachable]
  by (simp add: keeps_name_def sample_service_eq held_names_def held_name_def sample_config_def)

text \<open>
  C6: With such devices the service refines the registry of slots: every run of the service is, on
  the set of active sessions, a run in which names are taken only while they are free and a slot is
  free, and only taken names are given back.
\<close>

theorem service_refines_slots:
  assumes "(server_step T os keeps_name)\<^sup>*\<^sup>* new_service svc" and "server_step T os keeps_name svc svc'"
  shows "slot_step\<^sup>*\<^sup>* {} (active_sessions svc) \<and> slot_step (active_sessions svc) (active_sessions svc')"
proof
  show "slot_step\<^sup>*\<^sup>* {} (active_sessions svc)"
    using slots.reachable_spec [OF assms(1)] by (simp add: new_service_def)
  have "registry_inv svc" using assms(1) by (rule registry_reachable [rotated]) (simp add: keeps_name_def)
  then show "slot_step (active_sessions svc) (active_sessions svc')"
    using slots.simulates assms(2) by blast
qed

theorem service_refines_slots_witness:
  "slot_step\<^sup>*\<^sup>* {} {''utun07''} \<and> slot_step {''utun07''} {}"
proof -
  let ?svc = "sample_service\<lparr>stopping := True\<rparr>"
  have "server_step sample_text Linux keeps_name sample_service ?svc"
    by (simp add: server_step_def env_step.shutdown_step)
  then have "(server_step sample_text Linux keeps_name)\<^sup>*\<^sup>* new_service ?svc"
    by (rule rtranclp.rtrancl_into_rtrancl [OF sample_reachable])
  moreover have "server_step sample_text Linux keeps_name ?svc (begin_task 0 sample_config ?svc)"
    by (simp add: server_step_def sample_service_eq task_step.begin_step)
  ultimately show ?thesis
    using service_refines_slots
    by (fastforce simp: sample_service_eq begin_task_def release_def sample_config_def)
qed




text \<open>
  The responses of a session never exceed the capacity of its channel, and the started message
  never has to wait for room: the channel of a starting session is empty.
\<close>

lemma responses_bounded:
  assumes "(server_step T os reports)\<^sup>*\<^sup>* new_service svc" and "i < length (tasks svc)"
  shows "length (queue (responses (tasks svc ! i))) \<le> PACKET_CHANNEL_CAPACITY \<and>
    (phase (tasks svc ! i) = Starting c \<longrightarrow> session_started i name svc \<noteq> None)"
proof -
  have inv: "channel_inv svc"
    using channels.reachable_inv assms(1) unfolding capacity.reachable_def by blast
  show ?thesis
    using channel_task [OF inv assms(2)]
    by (auto simp: server_limits session_started_def send_def full_def split: option.splits)
qed

end
