(* ===== verification/Ip_Text.thy ===== *)
theory Ip_Text
  imports Ip_Util
begin

text \<open>
  The parser of the standard library behind \<^verbatim>\<open>str::parse::<IpAddr>()\<close>, which the tunnel binding applies
  to the source address of a packet. A reader takes the text left and returns a value and the rest, or
  \<^term>\<open>None\<close> without consuming anything, as \<^verbatim>\<open>read_atomically\<close> does.
\<close>

section \<open>Definitions\<close>

type_synonym 'a reader = "string \<Rightarrow> ('a \<times> string) option"

text \<open>\<^verbatim>\<open>char::to_digit\<close> for the radices 10 and 16.\<close>

definition to_digit :: "nat \<Rightarrow> char \<Rightarrow> nat option" where
  "to_digit radix c =
     (let d = (if is_ascii_digit c then code c - 48
               else if 97 \<le> code c \<and> code c \<le> 122 then code c - 87
               else if 65 \<le> code c \<and> code c \<le> 90 then code c - 55
               else radix)
      in if d < radix then Some d else None)"

definition is_radix_digit :: "nat \<Rightarrow> char \<Rightarrow> bool" where
  "is_radix_digit radix c \<longleftrightarrow> to_digit radix c \<noteq> None"

definition radix_value :: "nat \<Rightarrow> string \<Rightarrow> nat" where
  "radix_value radix s = foldl (\<lambda>n c. radix * n + the (to_digit radix c)) 0 s"

definition read_number :: "nat \<Rightarrow> nat \<Rightarrow> bool \<Rightarrow> nat \<Rightarrow> nat reader" where
  "read_number radix max_digits allow_zero_prefix max_value s =
     (let ds = takeWhile (is_radix_digit radix) s
      in if length ds > max_digits then None
         else if radix_value radix ds > max_value then None
         else if ds = [] then None
         else if \<not> allow_zero_prefix \<and> hd ds = CHR ''0'' \<and> length ds > 1 then None
         else Some (radix_value radix ds, dropWhile (is_radix_digit radix) s))"

fun read_given_char :: "char \<Rightarrow> string \<Rightarrow> string option" where
  "read_given_char c [] = None"
| "read_given_char c (x # s) = (if x = c then Some s else None)"

definition read_separator :: "char \<Rightarrow> nat \<Rightarrow> 'a reader \<Rightarrow> 'a reader" where
  "read_separator sep index inner s =
     (if index > 0 then (case read_given_char sep s of None \<Rightarrow> None | Some s' \<Rightarrow> inner s') else inner s)"

definition read_octet :: "nat reader" where
  "read_octet = read_number 10 3 False 255"

text \<open>The loop over the octets of an IPv4 address: \<open>i\<close> is the index of the next one.\<close>

fun read_octets :: "nat \<Rightarrow> nat \<Rightarrow> nat list reader" where
  "read_octets 0 i s = Some ([], s)"
| "read_octets (Suc n) i s =
     (case read_separator (CHR ''.'') i read_octet s of
        None \<Rightarrow> None
      | Some (b, s') \<Rightarrow>
          (case read_octets n (Suc i) s' of None \<Rightarrow> None | Some (bs, r) \<Rightarrow> Some (b # bs, r)))"

definition read_ipv4_addr :: "ip_addr reader" where
  "read_ipv4_addr s =
     (case read_octets 4 0 s of
        None \<Rightarrow> None
      | Some (bs, r) \<Rightarrow> Some (IpV4 (of_nat (foldl (\<lambda>n b. 256 * n + b) 0 bs)), r))"

definition read_group :: "nat reader" where
  "read_group = read_number 16 4 True 65535"

text \<open>
  The groups of an IPv6 address from index \<open>i\<close> up to a limit of \<open>i + n\<close>: the groups read,
  whether they end in an embedded IPv4 address, and the rest. A trailing IPv4 address needs two groups.
\<close>

fun read_groups :: "nat \<Rightarrow> nat \<Rightarrow> string \<Rightarrow> nat list \<times> bool \<times> string" where
  "read_groups 0 i s = ([], False, s)"
| "read_groups (Suc n) i s =
     (case (if 0 < n then read_separator (CHR '':'') i read_ipv4_addr s else None) of
        Some (IpV4 w, s') \<Rightarrow> ([unat w div 65536, unat w mod 65536], True, s')
      | _ \<Rightarrow>
          (case read_separator (CHR '':'') i read_group s of
             Some (g, s') \<Rightarrow> (case read_groups n (Suc i) s' of (gs, v4, r) \<Rightarrow> (g # gs, v4, r))
           | None \<Rightarrow> ([], False, s)))"

definition ipv6_of_groups :: "nat list \<Rightarrow> ip_addr" where
  "ipv6_of_groups gs = IpV6 (of_nat (foldl (\<lambda>n g. 65536 * n + g) 0 gs))"

definition read_ipv6_addr :: "ip_addr reader" where
  "read_ipv6_addr s =
     (case read_groups 8 0 s of
        (head, head_ipv4, s1) \<Rightarrow>
          if length head = 8 then Some (ipv6_of_groups head, s1)
          else if head_ipv4 then None
          else (case read_given_char (CHR '':'') s1 of
                  None \<Rightarrow> None
                | Some s2 \<Rightarrow>
                    (case read_given_char (CHR '':'') s2 of
                       None \<Rightarrow> None
                     | Some s3 \<Rightarrow>
                         (case read_groups (8 - (length head + 1)) 0 s3 of
                            (tail, _, s4) \<Rightarrow>
                              Some (ipv6_of_groups (head @ replicate (8 - length head - length tail) 0 @ tail), s4)))))"

definition parse_ip :: "string \<Rightarrow> ip_addr option" where
  "parse_ip s =
     (case (case read_ipv4_addr s of Some r \<Rightarrow> Some r | None \<Rightarrow> read_ipv6_addr s) of
        Some (ip, []) \<Rightarrow> Some ip
      | _ \<Rightarrow> None)"

section \<open>Lemmas\<close>

lemma is_radix_digit_10 [simp]: "is_radix_digit 10 c \<longleftrightarrow> is_ascii_digit c"
  by (auto simp: is_radix_digit_def to_digit_def Let_def is_ascii_digit_def)

lemma to_digit_10 [simp]: "is_ascii_digit c \<Longrightarrow> to_digit 10 c = Some (digit_value c)"
  by (auto simp: to_digit_def Let_def is_ascii_digit_def digit_value_def)

lemma radix_value_10: "list_all is_ascii_digit s \<Longrightarrow> radix_value 10 s = dec_value s"
proof (induction s rule: rev_induct)
  case (snoc c s)
  then show ?case by (simp add: radix_value_def dec_value_def)
qed (simp add: radix_value_def dec_value_def)

text \<open>A decimal number is read back when what follows it is not a digit.\<close>

lemma read_octet_dec_str:
  assumes "n < 256" and "r = [] \<or> \<not> is_ascii_digit (hd r)"
  shows "read_octet (dec_str n @ r) = Some (n, r)"
proof -
  let ?d = "dec_str n"
  have d: "list_all is_ascii_digit ?d" by (rule dec_str_digits)
  have tw: "takeWhile (is_radix_digit 10) (?d @ r) = ?d" "dropWhile (is_radix_digit 10) (?d @ r) = r"
    using d assms(2) by (cases r; simp add: list_all_iff)+
  have len: "length ?d \<le> 3" using assms(1) by (intro dec_str_length) simp_all
  have "\<not> (hd ?d = CHR ''0'' \<and> length ?d > 1)"
  proof (cases "n = 0")
    case True
    then show ?thesis by (simp add: radix_str_less)
  next
    case False
    then show ?thesis using dec_str_no_leading_zero [of n] by simp
  qed
  then show ?thesis
    using assms(1) len tw by (simp add: read_octet_def read_number_def Let_def radix_value_10 [OF d])
qed

lemma read_octets_join:
  assumes "\<forall>n \<in> set ns. n < 256" and "r = [] \<or> \<not> is_ascii_digit (hd r)"
  shows "read_octets (length ns) (Suc i) (concat (map (\<lambda>n. CHR ''.'' # dec_str n) ns) @ r) = Some (ns, r)"
  using assms(1)
proof (induction ns arbitrary: i)
  case (Cons n ns)
  let ?r = "concat (map (\<lambda>n. CHR ''.'' # dec_str n) ns) @ r"
  have "?r = [] \<or> \<not> is_ascii_digit (hd ?r)"
    using assms(2) by (cases ns) (auto simp: is_ascii_digit_def code_def)
  then have "read_octet (dec_str n @ ?r) = Some (n, ?r)" using Cons.prems by (intro read_octet_dec_str) simp_all
  then show ?case using Cons by (simp add: read_separator_def)
qed simp

lemma join_dots: "ns \<noteq> [] \<Longrightarrow> join ''.'' (map f ns) = f (hd ns) @ concat (map (\<lambda>n. CHR ''.'' # f n) (tl ns))"
proof (induction ns)
  case (Cons n ns)
  then show ?case by (cases ns) auto
qed simp

lemma foldl_bytes: "foldl (\<lambda>n b. 256 * n + b) a (map unat bs) = foldl (\<lambda>n b. 256 * n + unat (b :: byte)) a bs"
  by (induction bs arbitrary: a) simp_all

lemma unat_word_bound: "unat (w :: 32 word) < 4294967296"
proof -
  have "unat w < 2 ^ LENGTH(32)" by (rule unsigned_less)
  then show ?thesis by simp
qed

lemma parse_ipv4: "parse_ip (ip_to_string (IpV4 w)) = Some (IpV4 w)"
proof -
  let ?bs = "nat_be 4 (unat w)"
  let ?ns = "map unat ?bs"
  have "length ?ns = Suc 3" by simp
  then obtain a ns where ns: "?ns = a # ns" "length ns = 3" by (metis length_Suc_conv)
  have bound: "\<forall>n \<in> set ?ns. n < 256" using unat_byte_bound by auto
  have s: "ip_to_string (IpV4 w) = dec_str a @ concat (map (\<lambda>n. CHR ''.'' # dec_str n) ns)"
  proof -
    have "ip_to_string (IpV4 w) = join ''.'' (map dec_str ?ns)" by (simp add: ipv4_str_def comp_def)
    then show ?thesis unfolding ns(1) using join_dots [of "a # ns" dec_str] by simp
  qed
  have b: "a < 256" "\<forall>n \<in> set ns. n < 256" using bound unfolding ns(1) by auto
  let ?r = "concat (map (\<lambda>n. CHR ''.'' # dec_str n) ns)"
  have "?r = [] \<or> \<not> is_ascii_digit (hd ?r)" using ns(2) by (cases ns) (auto simp: is_ascii_digit_def code_def)
  then have "read_octet (dec_str a @ ?r) = Some (a, ?r)" using b(1) by (intro read_octet_dec_str)
  moreover have "read_octets 3 1 ?r = Some (ns, [])"
    using read_octets_join [of ns "[]" 0] b(2) ns(2) by simp
  ultimately have "read_octets 4 0 (dec_str a @ ?r) = Some (a # ns, [])"
    by (simp add: numeral_eq_Suc read_separator_def)
  moreover have "foldl (\<lambda>n b. 256 * n + b) 0 (a # ns) = unat w"
  proof -
    have "foldl (\<lambda>n b. 256 * n + b) 0 ?ns = be_nat ?bs" by (simp only: foldl_bytes be_nat_def)
    also have "\<dots> = unat w" 
      using be_nat_nat_be [of 4 "unat w"] unat_word_bound [of w] by simp
    finally show ?thesis by (simp only: ns(1))
  qed
  ultimately show ?thesis
    unfolding s by (simp add: parse_ip_def read_ipv4_addr_def)
qed

end
