(* ===== verification/Tunnel.thy ===== *)
theory Tunnel
  imports Ip_Text
begin

text \<open>
  The binding of the WireGuard implementation, src/commonMain/rust/lib.rs of
  wg-kotlin-uniffi-boringtun. The crates boringtun, x25519, base64 and hex are the parameter
  \<open>crypto\<close>; an operation of the tunnel gets the slice of the session's buffer it may write and
  returns the slice as it left it, or \<^term>\<open>None\<close> if it panics. A panic while the state is locked
  poisons the mutex, which is the field \<open>poisoned\<close>.
\<close>

section \<open>Definitions\<close>

definition MAX_IP_PACKET_SIZE :: nat where "MAX_IP_PACKET_SIZE = 65535"
definition DATA_PACKET_OVERHEAD :: nat where "DATA_PACKET_OVERHEAD = 32"
definition MIN_PACKET_BUFFER_SIZE :: nat where "MIN_PACKET_BUFFER_SIZE = 148"
definition MAX_PACKET_BUFFER_SIZE :: nat where
  "MAX_PACKET_BUFFER_SIZE = MAX_IP_PACKET_SIZE + DATA_PACKET_OVERHEAD"
definition MAX_PEER_INDEX :: nat where "MAX_PEER_INDEX = 0x00ffffff"

datatype tunn_result =
    TunnDone
  | TunnErr "32 word"
  | TunnWriteToNetwork bytes
  | TunnWriteToTunnelV4 bytes "32 word"
  | TunnWriteToTunnelV6 bytes "128 word"

type_synonym 'tun tunn_op = "bytes \<Rightarrow> 'tun \<Rightarrow> (tunn_result \<times> bytes \<times> 'tun) option"

record 'tun crypto =
  public_from :: "bytes \<Rightarrow> bytes"
  hex_encode :: "bytes \<Rightarrow> string"
  base64_encode :: "bytes \<Rightarrow> string"
  decode_slice :: "string \<Rightarrow> nat \<Rightarrow> bytes option"
  tunn_new :: "bytes \<Rightarrow> bytes \<Rightarrow> bytes option \<Rightarrow> 16 word option \<Rightarrow> 32 word \<Rightarrow> 'tun"
  encapsulate :: "bytes \<Rightarrow> 'tun tunn_op"
  decapsulate :: "ip_addr \<Rightarrow> bytes \<Rightarrow> 'tun tunn_op"
  update_timers :: "'tun tunn_op"

datatype tunnel_error =
    InvalidIndex | InvalidBase64Key | PacketTooLarge | BufferTooLarge | InvalidSourceIp | TunnelInternal

datatype tunnel_packet_result =
    PacketDone
  | PacketError "32 word"
  | WriteToNetwork bytes
  | WriteToTunnelV4 bytes
  | WriteToTunnelV6 bytes

record 'tun tunnel_session =
  tunnel :: 'tun
  buffer :: bytes
  poisoned :: bool

text \<open>
  The random generator of the system is a parameter: a function that draws the bytes of a secret
  (\<^verbatim>\<open>StaticSecret::random_from_rng(OsRng).to_bytes()\<close>) from its state.
\<close>

definition generate_secret_key :: "('rng \<Rightarrow> bytes \<times> 'rng) \<Rightarrow> 'rng \<Rightarrow> bytes \<times> 'rng" where
  "generate_secret_key random_from_rng rng = (let (key, rng') = random_from_rng rng in (key, rng'))"

definition generate_public_key :: "'tun crypto \<Rightarrow> bytes \<Rightarrow> bytes option" where
  "generate_public_key T secret_key = (if length secret_key \<noteq> 32 then None else Some (public_from T secret_key))"

definition convert_x25519_key_to_hex :: "'tun crypto \<Rightarrow> bytes \<Rightarrow> string option" where
  "convert_x25519_key_to_hex T key = (if length key \<noteq> 32 then None else Some (hex_encode T key))"

definition convert_x25519_key_to_base64 :: "'tun crypto \<Rightarrow> bytes \<Rightarrow> string option" where
  "convert_x25519_key_to_base64 T key = (if length key \<noteq> 32 then None else Some (base64_encode T key))"

definition packet_buffer_size :: "32 word \<Rightarrow> nat \<Rightarrow> (nat, tunnel_error) result" where
  "packet_buffer_size requested minimum_size =
     (let requested_size = unat requested
      in if requested_size > MAX_PACKET_BUFFER_SIZE then Err BufferTooLarge
         else Ok (max requested_size minimum_size))"

definition parse_key_bytes :: "'tun crypto \<Rightarrow> string \<Rightarrow> bytes option" where
  "parse_key_bytes T encoded =
     (if \<not> (43 \<le> length encoded \<and> length encoded \<le> 44) then None
      else (case decode_slice T encoded 32 of
              None \<Rightarrow> None
            | Some key \<Rightarrow> if length key \<noteq> 32 then None else Some key))"

fun map_tunn_result :: "tunn_result \<Rightarrow> tunnel_packet_result" where
  "map_tunn_result TunnDone = PacketDone"
| "map_tunn_result (TunnErr err) = PacketError err"
| "map_tunn_result (TunnWriteToNetwork packet) = WriteToNetwork packet"
| "map_tunn_result (TunnWriteToTunnelV4 packet _) = WriteToTunnelV4 packet"
| "map_tunn_result (TunnWriteToTunnelV6 packet _) = WriteToTunnelV6 packet"

definition create_new_tunnel ::
    "'tun crypto \<Rightarrow> string \<Rightarrow> string \<Rightarrow> string option \<Rightarrow> 16 word \<Rightarrow> 32 word \<Rightarrow> ('tun tunnel_session, tunnel_error) result" where
  "create_new_tunnel T secret_key public_key preshared_key keep_alive index =
     (if unat index > MAX_PEER_INDEX then Err InvalidIndex
      else and_then (ok_or (parse_key_bytes T secret_key) InvalidBase64Key) (\<lambda>private.
           and_then (ok_or (parse_key_bytes T public_key) InvalidBase64Key) (\<lambda>public.
           and_then (case preshared_key of
                       Some v \<Rightarrow> map_ok Some (ok_or (parse_key_bytes T v) InvalidBase64Key)
                     | None \<Rightarrow> Ok None) (\<lambda>preshared.
           Ok \<lparr>tunnel = tunn_new T private public preshared (if keep_alive = 0 then None else Some keep_alive) index,
               buffer = replicate MAX_PACKET_BUFFER_SIZE 0, poisoned = False\<rparr>))))"

text \<open>
  The common end of the packet methods: lock the state, take the slice \<^verbatim>\<open>buffer[..dst_size]\<close> (a panic
  if it is out of range), run the operation.
\<close>

definition locked ::
    "'tun tunn_op \<Rightarrow> nat \<Rightarrow> 'tun tunnel_session \<Rightarrow>
       (tunnel_packet_result, tunnel_error) result option \<times> 'tun tunnel_session" where
  "locked op dst_size t =
     (if poisoned t then (Some (Err TunnelInternal), t)
      else if dst_size > length (buffer t) then (None, t\<lparr>poisoned := True\<rparr>)
      else (case op (take dst_size (buffer t)) (tunnel t) of
              None \<Rightarrow> (None, t\<lparr>poisoned := True\<rparr>)
            | Some (r, sl, tun) \<Rightarrow>
                (Some (Ok (map_tunn_result r)), t\<lparr>tunnel := tun, buffer := sl @ drop dst_size (buffer t)\<rparr>)))"

definition encrypt_raw_packet ::
    "'tun crypto \<Rightarrow> bytes \<Rightarrow> 32 word \<Rightarrow> 'tun tunnel_session \<Rightarrow>
       (tunnel_packet_result, tunnel_error) result option \<times> 'tun tunnel_session" where
  "encrypt_raw_packet T src dst_size t =
     (if length src > MAX_IP_PACKET_SIZE then (Some (Err PacketTooLarge), t)
      else let minimum_size = max (length src + DATA_PACKET_OVERHEAD) MIN_PACKET_BUFFER_SIZE
           in (case packet_buffer_size dst_size minimum_size of
                 Err e \<Rightarrow> (Some (Err e), t)
               | Ok n \<Rightarrow> locked (encapsulate T src) n t))"

definition decrypt_to_raw_packet ::
    "'tun crypto \<Rightarrow> bytes \<Rightarrow> 32 word \<Rightarrow> string \<Rightarrow> 'tun tunnel_session \<Rightarrow>
       (tunnel_packet_result, tunnel_error) result option \<times> 'tun tunnel_session" where
  "decrypt_to_raw_packet T src dst_size source_ip t =
     (if length src > MAX_PACKET_BUFFER_SIZE then (Some (Err PacketTooLarge), t)
      else (case parse_ip source_ip of
              None \<Rightarrow> (Some (Err InvalidSourceIp), t)
            | Some ip \<Rightarrow>
                let minimum_size = (if src = [] then MAX_PACKET_BUFFER_SIZE
                                    else max (length src) MIN_PACKET_BUFFER_SIZE)
                in (case packet_buffer_size dst_size minimum_size of
                      Err e \<Rightarrow> (Some (Err e), t)
                    | Ok n \<Rightarrow> locked (decapsulate T ip src) n t)))"

definition run_periodic_task ::
    "'tun crypto \<Rightarrow> 32 word \<Rightarrow> 'tun tunnel_session \<Rightarrow>
       (tunnel_packet_result, tunnel_error) result option \<times> 'tun tunnel_session" where
  "run_periodic_task T dst_size t =
     (case packet_buffer_size dst_size MIN_PACKET_BUFFER_SIZE of
        Err e \<Rightarrow> (Some (Err e), t)
      | Ok n \<Rightarrow> locked (update_timers T) n t)"

text \<open>A client's calls on one session, in the order the mutex serves them.\<close>

datatype tunnel_call = EncryptCall bytes "32 word" | DecryptCall bytes "32 word" string | PeriodicCall "32 word"

fun call_tunnel ::
    "'tun crypto \<Rightarrow> tunnel_call \<Rightarrow> 'tun tunnel_session \<Rightarrow>
       (tunnel_packet_result, tunnel_error) result option \<times> 'tun tunnel_session" where
  "call_tunnel T (EncryptCall src n) t = encrypt_raw_packet T src n t"
| "call_tunnel T (DecryptCall src n ip) t = decrypt_to_raw_packet T src n ip t"
| "call_tunnel T (PeriodicCall n) t = run_periodic_task T n t"

primrec run_calls ::
    "'tun crypto \<Rightarrow> tunnel_call list \<Rightarrow> 'tun tunnel_session \<Rightarrow>
       (tunnel_packet_result, tunnel_error) result option list \<times> 'tun tunnel_session" where
  "run_calls T [] t = ([], t)"
| "run_calls T (c # cs) t =
     (let (r, t') = call_tunnel T c t; (rs, t'') = run_calls T cs t' in (r # rs, t''))"

subsection \<open>Specification\<close>

text \<open>An operation works in the slice it is given: it keeps its length, and a packet it returns lies in it.\<close>

definition within_slice :: "'tun tunn_op \<Rightarrow> bool" where
  "within_slice op \<longleftrightarrow>
     (\<forall>sl tun r sl' tun'. op sl tun = Some (r, sl', tun') \<longrightarrow>
        length sl' = length sl \<and>
        (case r of TunnWriteToNetwork p \<Rightarrow> length p \<le> length sl
         | TunnWriteToTunnelV4 p _ \<Rightarrow> length p \<le> length sl
         | TunnWriteToTunnelV6 p _ \<Rightarrow> length p \<le> length sl | _ \<Rightarrow> True))"

definition crypto_wf :: "'tun crypto \<Rightarrow> bool" where
  "crypto_wf T \<longleftrightarrow>
     (\<forall>src. within_slice (encapsulate T src)) \<and> (\<forall>ip src. within_slice (decapsulate T ip src)) \<and>
     within_slice (update_timers T)"

fun packet_of :: "tunnel_packet_result \<Rightarrow> bytes" where
  "packet_of (WriteToNetwork p) = p"
| "packet_of (WriteToTunnelV4 p) = p"
| "packet_of (WriteToTunnelV6 p) = p"
| "packet_of _ = []"

text \<open>The argument error of a call, in the order of the checks, and the buffer size of an accepted one.\<close>

definition call_error :: "tunnel_call \<Rightarrow> tunnel_error option" where
  "call_error c =
     (case c of
        EncryptCall src n \<Rightarrow>
          if length src > 65535 then Some PacketTooLarge else if unat n > 65567 then Some BufferTooLarge else None
      | DecryptCall src n ip \<Rightarrow>
          if length src > 65567 then Some PacketTooLarge else if parse_ip ip = None then Some InvalidSourceIp
          else if unat n > 65567 then Some BufferTooLarge else None
      | PeriodicCall n \<Rightarrow> if unat n > 65567 then Some BufferTooLarge else None)"

definition call_size :: "tunnel_call \<Rightarrow> nat" where
  "call_size c =
     (case c of
        EncryptCall src n \<Rightarrow> max (unat n) (max (length src + 32) 148)
      | DecryptCall src n ip \<Rightarrow> max (unat n) (if src = [] then 65567 else max (length src) 148)
      | PeriodicCall n \<Rightarrow> max (unat n) 148)"

definition call_op :: "'tun crypto \<Rightarrow> tunnel_call \<Rightarrow> 'tun tunn_op" where
  "call_op T c =
     (case c of
        EncryptCall src n \<Rightarrow> encapsulate T src
      | DecryptCall src n ip \<Rightarrow> decapsulate T (the (parse_ip ip)) src
      | PeriodicCall n \<Rightarrow> update_timers T)"

text \<open>The text of a key: its length, and that it decodes to a key.\<close>

definition key_text :: "'tun crypto \<Rightarrow> string \<Rightarrow> bool" where
  "key_text T k \<longleftrightarrow>
     length k \<in> {43, 44} \<and> (case decode_slice T k 32 of Some key \<Rightarrow> length key = 32 | None \<Rightarrow> False)"

fun key_list :: "string option \<Rightarrow> string list" where
  "key_list None = []"
| "key_list (Some k) = [k]"

text \<open>
  What the crates promise for keys: public keys and secrets have 32 bytes, and the base64 text of 32 bytes has 44 characters
  (it is padded) and decodes to them.
\<close>

definition key_crate :: "'tun crypto \<Rightarrow> ('rng \<Rightarrow> bytes \<times> 'rng) \<Rightarrow> bool" where
  "key_crate T random \<longleftrightarrow>
     (\<forall>g. length (fst (random g)) = 32) \<and> (\<forall>k. length (public_from T k) = 32) \<and>
     (\<forall>k. length k = 32 \<longrightarrow> length (base64_encode T k) = 44 \<and> decode_slice T (base64_encode T k) 32 = Some k)"

text \<open>A crate for the examples: packets are copied, and any text of the right length is the same key.\<close>

definition sample_crypto :: "nat crypto" where
  "sample_crypto =
     \<lparr>public_from = (\<lambda>k. k), hex_encode = (\<lambda>k. []), base64_encode = (\<lambda>k. []),
      decode_slice = (\<lambda>s n. Some (replicate n 7)),
      tunn_new = (\<lambda>a b c d i. 0),
      encapsulate = (\<lambda>src sl tun. Some (TunnWriteToNetwork src, src @ drop (length src) sl, tun + 1)),
      decapsulate = (\<lambda>ip src sl tun. Some (TunnDone, sl, tun)),
      update_timers = (\<lambda>sl tun. None)\<rparr>"

definition empty_crypto :: "nat crypto" where
  "empty_crypto = sample_crypto\<lparr>encapsulate := \<lambda>src sl tun. Some (TunnDone, sl, tun + 1)\<rparr>"

text \<open>A padded text for the examples of keys: a character for each byte and twelve more.\<close>

definition text_crypto :: "nat crypto" where
  "text_crypto = sample_crypto\<lparr>public_from := \<lambda>k. replicate 32 9,
     base64_encode := \<lambda>k. map (\<lambda>b. char_of (unat b)) k @ replicate 12 CHR ''='',
     decode_slice := \<lambda>s n. Some (map (\<lambda>c. of_nat (of_char c)) (take n s))\<rparr>"

section \<open>Lemmas\<close>

lemmas tunnel_limits = MAX_IP_PACKET_SIZE_def DATA_PACKET_OVERHEAD_def MIN_PACKET_BUFFER_SIZE_def
  MAX_PACKET_BUFFER_SIZE_def MAX_PEER_INDEX_def

lemma call_tunnel_eq:
  "call_tunnel T c t =
     (case call_error c of Some e \<Rightarrow> (Some (Err e), t) | None \<Rightarrow> locked (call_op T c) (call_size c) t)"
  by (cases c)
     (auto simp: encrypt_raw_packet_def decrypt_to_raw_packet_def run_periodic_task_def packet_buffer_size_def
        call_error_def call_size_def call_op_def tunnel_limits Let_def split: option.splits)

lemma call_size_bound: "call_error c = None \<Longrightarrow> call_size c \<le> 65567"
  by (cases c) (auto simp: call_error_def call_size_def split: if_splits)

lemma call_op_within: "crypto_wf T \<Longrightarrow> within_slice (call_op T c)"
  by (cases c) (simp_all add: crypto_wf_def call_op_def)

lemma locked_buffer:
  "within_slice op \<Longrightarrow> length (buffer (snd (locked op n t))) = length (buffer t)"
  by (auto simp: locked_def within_slice_def split: option.split prod.split)

lemma locked_Ok:
  assumes "fst (locked op n t) = Some (Ok r)"
  obtains tr sl tun where "n \<le> length (buffer t)" "op (take n (buffer t)) (tunnel t) = Some (tr, sl, tun)"
    "r = map_tunn_result tr"
  using assms by (auto simp: locked_def split: option.splits if_splits)

lemma locked_packet:
  assumes "within_slice op" and "fst (locked op n t) = Some (Ok r)"
  shows "length (packet_of r) \<le> n"
proof -
  obtain tr sl tun where o: "n \<le> length (buffer t)" "op (take n (buffer t)) (tunnel t) = Some (tr, sl, tun)"
    "r = map_tunn_result tr"
    using locked_Ok [OF assms(2)] by blast
  have "case tr of TunnWriteToNetwork p \<Rightarrow> length p \<le> length (take n (buffer t))
      | TunnWriteToTunnelV4 p _ \<Rightarrow> length p \<le> length (take n (buffer t))
      | TunnWriteToTunnelV6 p _ \<Rightarrow> length p \<le> length (take n (buffer t)) | _ \<Rightarrow> True"
    using assms(1) o(2) unfolding within_slice_def by blast
  then show ?thesis using o(1,3) by (cases tr) simp_all
qed

lemma call_tunnel_buffer:
  "crypto_wf T \<Longrightarrow> length (buffer (snd (call_tunnel T c t))) = length (buffer t)"
  by (simp add: call_tunnel_eq locked_buffer call_op_within split: option.split)

lemma call_tunnel_poisoned:
  "length (buffer t) = 65567 \<Longrightarrow>
     poisoned (snd (call_tunnel T c t)) \<longleftrightarrow> poisoned t \<or> fst (call_tunnel T c t) = None"
  "poisoned t \<Longrightarrow> fst (call_tunnel T c t) \<noteq> None"
  by (auto simp: call_tunnel_eq locked_def split: option.split)

lemma run_calls_inv:
  assumes "crypto_wf T" and "length (buffer t) = 65567" and "run_calls T cs t = (rs, t')"
  shows "length (buffer t') = 65567 \<and> (poisoned t' \<longleftrightarrow> poisoned t \<or> None \<in> set rs) \<and>
    count_list rs None \<le> (if poisoned t then 0 else 1)"
  using assms(2,3)
proof (induction cs arbitrary: t rs)
  case (Cons c cs)
  obtain r t1 where c: "call_tunnel T c t = (r, t1)" by (cases "call_tunnel T c t")
  obtain rs1 where rs: "run_calls T cs t1 = (rs1, t')" "rs = r # rs1"
    using Cons.prems(2) c by (auto split: prod.splits)
  have "length (buffer t1) = 65567" using call_tunnel_buffer [OF assms(1), of c t] Cons.prems(1) c by simp
  from Cons.IH [OF this rs(1)] show ?case
    using call_tunnel_poisoned [of t T c] Cons.prems(1) c rs(2) by (auto split: if_splits)
qed simp

lemma empty_crypto_wf: "crypto_wf empty_crypto"
  by (simp add: crypto_wf_def within_slice_def empty_crypto_def sample_crypto_def)

lemma byte_char: "of_nat (unat b mod 256) = (b :: 8 word)"
proof -
  have "unat b < 256" using unsigned_less [of b] by simp
  then show ?thesis by simp
qed

lemma text_crypto_keys: "key_crate text_crypto (\<lambda>g. (replicate 32 g, g + 1))"
  by (simp add: key_crate_def text_crypto_def sample_crypto_def comp_def byte_char)

lemma parse_key_bytes_eq:
  "parse_key_bytes T k = (if key_text T k then Some (the (decode_slice T k 32)) else None)"
  by (auto simp: parse_key_bytes_def key_text_def split: option.split)

lemma create_new_tunnel_eq:
  "create_new_tunnel T secret_key public_key preshared_key keep_alive index =
     (if 2 ^ 24 \<le> unat index then Err InvalidIndex
      else if \<not> list_all (key_text T) (secret_key # public_key # key_list preshared_key) then Err InvalidBase64Key
      else Ok \<lparr>tunnel = tunn_new T (the (decode_slice T secret_key 32)) (the (decode_slice T public_key 32))
                 (map_option (\<lambda>k. the (decode_slice T k 32)) preshared_key)
                 (if keep_alive = 0 then None else Some keep_alive) index,
               buffer = replicate 65567 0, poisoned = False\<rparr>)"
  by (cases preshared_key)
     (simp_all add: create_new_tunnel_def parse_key_bytes_eq tunnel_limits ok_or_def and_then_def map_ok_def)

lemma index_shift: "drop_bit 8 (push_bit 8 (w :: 32 word)) = w \<longleftrightarrow> unat w < 2 ^ 24"
proof -
  have "drop_bit 8 (push_bit 8 w) = take_bit 24 w"
    by (rule bit_word_eqI) (auto simp: bit_simps)
  moreover have "take_bit 24 w = w \<longleftrightarrow> unat (take_bit 24 w) = unat w"
    by (rule word_unat_eq_iff)
  moreover have "unat (take_bit 24 w) = take_bit 24 (unat w)" by (simp only: unsigned_take_bit_eq)
  moreover have "take_bit 24 (unat w) = unat w \<longleftrightarrow> unat w < 2 ^ 24" by (simp only: take_bit_nat_eq_self_iff)
  ultimately show ?thesis by simp
qed

lemma create_buffer:
  "create_new_tunnel T sk pk psk ka i = Ok t \<Longrightarrow> length (buffer t) = 65567 \<and> \<not> poisoned t"
  by (auto simp: create_new_tunnel_eq split: if_splits)

section \<open>Properties\<close>

text \<open>
  C27: The packet methods of a tunnel session, after any sequence of calls on a session that was created. The buffer
  has kept its full size. A call is answered with the first error of its arguments and changes nothing; a call with good
  arguments is refused as an internal error exactly when an earlier call panicked, which happens at most once; otherwise the
  operation of the crate runs on a slice that is in range, at least as large as the caller asked for and the
  protocol needs (for an encryption 32 bytes more than the packet, never less than 148 bytes, for a
  drain the whole buffer), and a packet it returns fits in the slice. The slice itself never causes a panic.
\<close>

theorem tunnel_session_serves:
  assumes "crypto_wf T" and "create_new_tunnel T sk pk psk keep_alive index = Ok t0"
    and "run_calls T cs t0 = (rs, t)"
  shows "length (buffer t) = MAX_PACKET_BUFFER_SIZE \<and> count_list rs None \<le> 1 \<and>
    call_tunnel T c t =
      (case call_error c of
         Some e \<Rightarrow> (Some (Err e), t)
       | None \<Rightarrow>
           if None \<in> set rs then (Some (Err TunnelInternal), t)
           else (case call_op T c (take (call_size c) (buffer t)) (tunnel t) of
                   None \<Rightarrow> (None, t\<lparr>poisoned := True\<rparr>)
                 | Some (r, sl, tun) \<Rightarrow>
                     (Some (Ok (map_tunn_result r)), t\<lparr>tunnel := tun, buffer := sl @ drop (call_size c) (buffer t)\<rparr>))) \<and>
    (call_error c = None \<longrightarrow> length (take (call_size c) (buffer t)) = call_size c \<and> 148 \<le> call_size c) \<and>
    (\<forall>r. fst (call_tunnel T c t) = Some (Ok r) \<longrightarrow> length (packet_of r) \<le> call_size c)"
proof -
  have t: "length (buffer t) = 65567" "poisoned t \<longleftrightarrow> None \<in> set rs" "count_list rs None \<le> 1"
    using run_calls_inv [OF assms(1) _ assms(3)] create_buffer [OF assms(2)] by auto
  have n: "148 \<le> call_size c" by (cases c) (auto simp: call_size_def)
  have "length (packet_of r) \<le> call_size c" if "fst (call_tunnel T c t) = Some (Ok r)" for r
    using that locked_packet [OF call_op_within [OF assms(1)], of c "call_size c" t r]
    by (auto simp: call_tunnel_eq split: option.splits)
  then show ?thesis
    using t n call_size_bound [of c] by (auto simp: call_tunnel_eq locked_def tunnel_limits split: option.split)
qed

theorem tunnel_session_serves_witness:
  "let t = \<lparr>tunnel = 0, buffer = replicate MAX_PACKET_BUFFER_SIZE 0, poisoned = False\<rparr>
   in fst (call_tunnel empty_crypto (EncryptCall [1] 0) (snd (run_calls empty_crypto [PeriodicCall 0] t))) = Some (Err TunnelInternal)"
proof -
  let ?k = "replicate 43 CHR ''A''"
  let ?t = "\<lparr>tunnel = 0, buffer = replicate MAX_PACKET_BUFFER_SIZE 0, poisoned = False\<rparr>"
  have t: "create_new_tunnel empty_crypto ?k ?k None 0 1 = Ok ?t"
    by (simp add: create_new_tunnel_def parse_key_bytes_def empty_crypto_def sample_crypto_def ok_or_def MAX_PEER_INDEX_def)
  have "run_calls empty_crypto [PeriodicCall 0] ?t = ([None], ?t\<lparr>poisoned := True\<rparr>)"
    by (simp add: run_periodic_task_def packet_buffer_size_def locked_def tunnel_limits empty_crypto_def sample_crypto_def)
  from tunnel_session_serves [OF empty_crypto_wf t this, of "EncryptCall [1] 0"] this show ?thesis
    by (simp add: Let_def call_error_def)
qed

text \<open>
  C28: Keys that the library generates can be used for tunnels. The secret it draws has a public key, both have a base64 text,
  and a tunnel is created from these texts for every index of 24 bits; the crate is given exactly the bytes
  that were drawn, the peer's public key, and no keep-alive when it is zero. The same holds for a preshared key that is drawn
  and exported in this way.
\<close>

theorem generated_keys_usable:
  assumes "key_crate T random" and "unat index < 2 ^ 24"
    and "generate_secret_key random g1 = (sk, g1')" and "generate_secret_key random g2 = (peer, g2')"
    and "generate_secret_key random g3 = (psk, g3')"
  shows "\<exists>pk skt pkt pskt t. generate_public_key T peer = Some pk \<and> convert_x25519_key_to_base64 T sk = Some skt \<and>
    convert_x25519_key_to_base64 T pk = Some pkt \<and> convert_x25519_key_to_base64 T psk = Some pskt \<and>
    create_new_tunnel T skt pkt (if shared then Some pskt else None) keep_alive index = Ok t \<and>
    tunnel t = tunn_new T sk pk (if shared then Some psk else None) (if keep_alive = 0 then None else Some keep_alive) index"
proof -
  have "length sk = 32" "length peer = 32" "length psk = 32" "length (public_from T peer) = 32"
    using assms by (auto simp: key_crate_def generate_secret_key_def split: prod.splits dest: spec [of _ g1] spec [of _ g2] spec [of _ g3])
  moreover have "key_text T (base64_encode T k) \<and> the (decode_slice T (base64_encode T k) 32) = k" if "length k = 32" for k
    using assms(1) that by (simp add: key_crate_def key_text_def)
  ultimately show ?thesis
    using assms(2) by (simp add: generate_public_key_def convert_x25519_key_to_base64_def create_new_tunnel_eq)
qed

theorem generated_keys_usable_witness:
  "\<exists>pk skt pkt t. generate_public_key text_crypto (replicate 32 8) = Some pk \<and>
     convert_x25519_key_to_base64 text_crypto (replicate 32 7) = Some skt \<and> convert_x25519_key_to_base64 text_crypto pk = Some pkt \<and>
     create_new_tunnel text_crypto skt pkt None 25 1 = Ok t"
  using generated_keys_usable [OF text_crypto_keys, of 1 7 "replicate 32 7" 8 8 "replicate 32 8" 9 9 "replicate 32 9" 10 False 25]
  by (simp add: generate_secret_key_def) blast

text \<open>
  A tunnel is created exactly for a peer index of at most 24 bits and keys whose texts have 43 or 44
  characters and decode to 32 bytes; the index is checked first, a keep-alive of zero means none, and
  the buffer starts with its full size. The index limit is the right one: an index survives the shift
  by 8 bits that boringtun applies to it exactly when it is below the limit.
\<close>

lemma create_new_tunnel_accepts:
  "create_new_tunnel T secret_key public_key preshared_key keep_alive index =
     (if 2 ^ 24 \<le> unat index then Err InvalidIndex
      else if \<not> list_all (key_text T) (secret_key # public_key # key_list preshared_key) then Err InvalidBase64Key
      else Ok \<lparr>tunnel = tunn_new T (the (decode_slice T secret_key 32)) (the (decode_slice T public_key 32))
                 (map_option (\<lambda>k. the (decode_slice T k 32)) preshared_key)
                 (if keep_alive = 0 then None else Some keep_alive) index,
               buffer = replicate 65567 0, poisoned = False\<rparr>) \<and>
   (drop_bit 8 (push_bit 8 index) = index \<longleftrightarrow> unat index < 2 ^ 24)"
  by (simp add: create_new_tunnel_eq index_shift)

end
