(* ===== verification/Std_Text.thy ===== *)
theory Std_Text
  imports Prelude
begin

text \<open>
  More of Rust's standard library, as far as the daemon uses it: \<^verbatim>\<open>str::lines\<close>,
  \<^verbatim>\<open>split_whitespace\<close>, \<^verbatim>\<open>rsplit_once\<close> and \<^verbatim>\<open>replace\<close> of a character, and Unix paths with their
  components, parent and file name. Texts are bytes of their UTF-8 encoding, as in \<open>Prelude\<close>.
\<close>

section \<open>Definitions\<close>

definition newline_char :: char where "newline_char = char_of (10 :: nat)"
definition return_char :: char where "return_char = char_of (13 :: nat)"

text \<open>\<^verbatim>\<open>lines\<close>: a line ends with a newline, with or without a carriage return before it; the text after
  the last newline is a line only if it is not empty, and keeps its carriage return.\<close>

definition strip_return :: "string \<Rightarrow> string" where
  "strip_return s = (if s \<noteq> [] \<and> last s = return_char then butlast s else s)"

definition lines :: "string \<Rightarrow> string list" where
  "lines s =
     (let ps = split_on newline_char s
      in map strip_return (butlast ps) @ (if last ps = [] then [] else [last ps]))"

text \<open>\<^verbatim>\<open>split_whitespace\<close>: \<open>acc\<close> is the word read so far.\<close>

definition word_list :: "string \<Rightarrow> string list" where
  "word_list acc = (if acc = [] then [] else [acc])"

function split_ws :: "string \<Rightarrow> string \<Rightarrow> string list" where
  "split_ws acc [] = word_list acc"
| "split_ws acc (c # s) =
     (case strip_any whitespace_encodings (c # s) of
        Some r \<Rightarrow> word_list acc @ split_ws [] r
      | None \<Rightarrow> split_ws (acc @ [c]) s)"
  by pat_completeness auto

lemma whitespace_not_empty: "[] \<notin> set whitespace_encodings"
  by (simp add: whitespace_encodings_def)

lemma strip_whitespace_shorter: "strip_any whitespace_encodings s = Some r \<Longrightarrow> length r < length s"
  using strip_any_SomeD [of whitespace_encodings s r] whitespace_not_empty by fastforce

termination split_ws
  by (relation "measure (\<lambda>(acc, s). length s)") (auto dest: strip_whitespace_shorter)

definition split_whitespace :: "string \<Rightarrow> string list" where
  "split_whitespace s = split_ws [] s"

definition rsplit_once :: "'a \<Rightarrow> 'a list \<Rightarrow> ('a list \<times> 'a list) option" where
  "rsplit_once d s =
     (case dropWhile (\<lambda>c. c \<noteq> d) (rev s) of
        [] \<Rightarrow> None
      | _ # r \<Rightarrow> Some (rev r, rev (takeWhile (\<lambda>c. c \<noteq> d) (rev s))))"

definition replace_char :: "'a \<Rightarrow> 'a list \<Rightarrow> 'a list \<Rightarrow> 'a list" where
  "replace_char d t s = concat (map (\<lambda>c. if c = d then t else [c]) s)"

definition starts_with :: "'a list \<Rightarrow> 'a list \<Rightarrow> bool" where
  "starts_with p s \<longleftrightarrow> strip_prefix p s \<noteq> None"

subsection \<open>Unix paths\<close>

datatype component = RootDir | CurDir | ParentDir | Normal string

type_synonym path = "component list"

fun path_part :: "string \<Rightarrow> component list" where
  "path_part p =
     (if p = [] \<or> p = ''.'' then [] else if p = ''..'' then [ParentDir] else [Normal p])"

text \<open>
  \<^verbatim>\<open>Path::components\<close>: repeated separators and single dots vanish, except a dot at the start of a
  relative path. Paths are compared by their components.
\<close>

definition path_components :: "string \<Rightarrow> path" where
  "path_components s =
     (let ps = split_on (CHR ''/'') s
      in (if s \<noteq> [] \<and> hd s = CHR ''/'' then [RootDir] else if hd ps = ''.'' then [CurDir] else []) @
         concat (map path_part ps))"

definition path_parent :: "path \<Rightarrow> path option" where
  "path_parent p = (if p = [] \<or> last p = RootDir then None else Some (butlast p))"

definition file_name :: "path \<Rightarrow> string option" where
  "file_name p = (if p = [] then None else (case last p of Normal n \<Rightarrow> Some n | _ \<Rightarrow> None))"

section \<open>Lemmas\<close>

text \<open>Printable ASCII characters other than the space; no encoding of white space starts with one.\<close>

definition is_graphic :: "char \<Rightarrow> bool" where
  "is_graphic c \<longleftrightarrow> 33 \<le> code c \<and> code c \<le> 126"

lemma strip_any_graphic: "is_graphic c \<Longrightarrow> strip_any whitespace_encodings (c # s) = None"
proof -
  assume c: "is_graphic c"
  have "\<forall>e \<in> set whitespace_encodings. \<not> is_graphic (hd e) \<and> e \<noteq> []"
    by (simp add: whitespace_encodings_def is_graphic_def)
  then have "\<And>e r. e \<in> set whitespace_encodings \<Longrightarrow> c # s \<noteq> e @ r"
    using c by (metis hd_append2 list.sel(1))
  then show ?thesis unfolding strip_any_None_iff by blast
qed

lemma split_ws_graphic: "list_all is_graphic w \<Longrightarrow> split_ws acc (w @ s) = split_ws (acc @ w) s"
  by (induction w arbitrary: acc) (simp_all add: strip_any_graphic)

declare split_ws.simps [simp del]

lemma strip_any_single:
  "[c] \<in> set es \<Longrightarrow> list_all (\<lambda>e. e \<noteq> [] \<and> (hd e = c \<longrightarrow> e = [c])) es \<Longrightarrow> strip_any es (c # s) = Some s"
proof (induction es)
  case (Cons e es)
  then show ?case by (cases "e = [c]") (auto simp: neq_Nil_conv)
qed simp

lemma char_of_neq: "m < 256 \<Longrightarrow> n < 256 \<Longrightarrow> (char_of (m :: nat) = char_of n) = (m = n)"
  by (metis code_char_of)

lemma strip_any_space_code:
  "n \<in> {9, 10, 32} \<Longrightarrow> strip_any whitespace_encodings (char_of (n :: nat) # s) = Some s"
  by (rule strip_any_single) (auto simp: whitespace_encodings_def char_of_neq)

lemma strip_any_space:
  "c \<in> {CHR '' '', newline_char, char_of (9 :: nat)} \<Longrightarrow> strip_any whitespace_encodings (c # s) = Some s"
proof -
  have "char_of (32 :: nat) = CHR '' ''" by (simp add: char_of_def bit_0)
  then show "c \<in> {CHR '' '', newline_char, char_of (9 :: nat)} \<Longrightarrow> ?thesis"
    using strip_any_space_code [of 9 s] strip_any_space_code [of 10 s] strip_any_space_code [of 32 s]
    by (auto simp: newline_char_def)
qed

lemma split_ws_space:
  "c \<in> {CHR '' '', newline_char, char_of (9 :: nat)} \<Longrightarrow> split_ws acc (c # s) = word_list acc @ split_ws [] s"
  using strip_any_space [of c s] by (simp add: split_ws.simps(2))

lemma rsplit_once_last: "d \<notin> set t \<Longrightarrow> rsplit_once d (s @ d # t) = Some (s, t)"
  by (auto simp: rsplit_once_def dropWhile_append takeWhile_append)

lemma replace_char_free: "d \<notin> set t \<Longrightarrow> d \<notin> set (replace_char d t s)"
  by (auto simp: replace_char_def)

lemma set_replace_char: "set (replace_char d t s) \<subseteq> set s \<union> set t"
  by (auto simp: replace_char_def split: if_splits)

lemma starts_with_iff: "starts_with p s \<longleftrightarrow> (\<exists>r. s = p @ r)"
  by (auto simp: starts_with_def)

end
