(* ===== verification/Logging.thy ===== *)
theory Logging
  imports Std_Text "HOL-Library.Sublist"
begin

text \<open>
  The logger, logging.rs: a bounded queue of messages, a worker thread that writes them, and callers
  that never wait for it. The file system and the writer are parameters; the callers and the worker
  are interleaved as a list of events.
\<close>

section \<open>Definitions\<close>

datatype message = Line string | Flush nat

text \<open>The writer behind the worker: \<open>put\<close> is \<^verbatim>\<open>write_all\<close>.\<close>

record 'w log_writer =
  put :: "string \<Rightarrow> 'w \<Rightarrow> (unit, io_error) result \<times> 'w"
  flush_out :: "'w \<Rightarrow> 'w"

text \<open>
  The queue, whether the worker still holds its receiving end, the writer, and the completions that
  were sent. A \<open>Flush\<close> message carries the number of the caller's completion channel.
\<close>

record 'w logger =
  queue :: "message list"
  attached :: bool
  out :: 'w
  completions :: "nat list"

definition LOG_QUEUE :: nat where "LOG_QUEUE = 256"

record ('w, 'os) log_system =
  create_dir_all :: "path \<Rightarrow> 'os \<Rightarrow> (unit, io_error) result \<times> 'os"
  open_append :: "path \<Rightarrow> 'os \<Rightarrow> ('w, io_error) result \<times> 'os"
  stdout :: 'w
  spawn_thread :: "'os \<Rightarrow> (unit, io_error) result \<times> 'os"

definition with_writer :: "('w, 'os) log_system \<Rightarrow> 'w \<Rightarrow> 'os \<Rightarrow> ('w logger, io_error) result \<times> 'os" where
  "with_writer F w s =
     (case spawn_thread F s of
        (Err e, s) \<Rightarrow> (Err e, s)
      | (Ok _, s) \<Rightarrow> (Ok \<lparr>queue = [], attached = True, out = w, completions = []\<rparr>, s))"

definition new_logger :: "('w, 'os) log_system \<Rightarrow> path option \<Rightarrow> 'os \<Rightarrow> ('w logger, io_error) result \<times> 'os" where
  "new_logger F file s =
     (case file of
        None \<Rightarrow> with_writer F (stdout F) s
      | Some p \<Rightarrow>
          (case (case path_parent p of
                   None \<Rightarrow> (Ok (), s)
                 | Some parent \<Rightarrow> if parent = [] then (Ok (), s) else create_dir_all F parent s) of
             (Err e, s) \<Rightarrow> (Err e, s)
           | (Ok _, s) \<Rightarrow>
               (case open_append F p s of
                  (Err e, s) \<Rightarrow> (Err e, s)
                | (Ok w, s) \<Rightarrow> with_writer F w s)))"

text \<open>\<^verbatim>\<open>try_send\<close> on the channel: refused when the receiver is gone or the queue is full.\<close>

definition try_enqueue :: "message \<Rightarrow> 'w logger \<Rightarrow> bool \<times> 'w logger" where
  "try_enqueue m l =
     (if \<not> attached l \<or> length (queue l) \<ge> LOG_QUEUE then (False, l) else (True, l\<lparr>queue := queue l @ [m]\<rparr>))"

text \<open>The clock is the time since the epoch in nanoseconds; before the epoch it counts as zero.\<close>

definition log_line :: "int \<Rightarrow> nat \<Rightarrow> string \<Rightarrow> string" where
  "log_line now pid message =
     (let timestamp = nat now div 1000000;
          message = replace_char newline_char [CHR 0x5C, CHR ''n''] (replace_char return_char [CHR 0x5C, CHR ''r''] message)
      in dec_str timestamp @ '' pid='' @ dec_str pid @ '' '' @ message)"

definition log_message :: "int \<Rightarrow> nat \<Rightarrow> string \<Rightarrow> 'w logger \<Rightarrow> 'w logger" where
  "log_message now pid message l = snd (try_enqueue (Line (log_line now pid message)) l)"

text \<open>
  A flush sends its completion channel; if that is accepted it waits, for half a second at most, and
  ignores whether the completion came. The result tells whether it waits.
\<close>

definition flush_log :: "nat \<Rightarrow> 'w logger \<Rightarrow> bool \<times> 'w logger" where
  "flush_log channel l = try_enqueue (Flush channel) l"

text \<open>\<^verbatim>\<open>writeln!\<close> writes the line and then the newline.\<close>

definition write_line :: "'w log_writer \<Rightarrow> string \<Rightarrow> 'w \<Rightarrow> (unit, io_error) result \<times> 'w" where
  "write_line W s w =
     (case put W s w of
        (Err e, w) \<Rightarrow> (Err e, w)
      | (Ok _, w) \<Rightarrow> put W [newline_char] w)"

text \<open>
  One turn of the worker. A failed write ends it: the receiver is dropped, with what is queued.
\<close>

definition worker_turn :: "'w log_writer \<Rightarrow> 'w logger \<Rightarrow> 'w logger" where
  "worker_turn W l =
     (if \<not> attached l then l
      else (case queue l of
              [] \<Rightarrow> l
            | Line s # q \<Rightarrow>
                (case write_line W s (out l) of
                   (Ok _, w) \<Rightarrow> l\<lparr>queue := q, out := w\<rparr>
                 | (Err _, w) \<Rightarrow> l\<lparr>queue := [], attached := False, out := w\<rparr>)
            | Flush channel # q \<Rightarrow>
                l\<lparr>queue := q, out := flush_out W (out l), completions := completions l @ [channel]\<rparr>))"

subsection \<open>Interleaving\<close>

datatype log_event = LogCall int nat string | FlushCall nat | WorkerTurn

fun log_event_step :: "'w log_writer \<Rightarrow> log_event \<Rightarrow> 'w logger \<Rightarrow> 'w logger" where
  "log_event_step W (LogCall now pid m) l = log_message now pid m l"
| "log_event_step W (FlushCall c) l = snd (flush_log c l)"
| "log_event_step W WorkerTurn l = worker_turn W l"

definition run_log :: "'w log_writer \<Rightarrow> log_event list \<Rightarrow> 'w logger \<Rightarrow> 'w logger" where
  "run_log W es l = fold (log_event_step W) es l"

subsection \<open>Specification\<close>

fun event_records :: "log_event \<Rightarrow> string list" where
  "event_records (LogCall now pid m) = [log_line now pid m]"
| "event_records _ = []"

definition records :: "log_event list \<Rightarrow> string list" where
  "records es = concat (map event_records es)"

fun message_lines :: "message \<Rightarrow> string list" where
  "message_lines (Line s) = [s]"
| "message_lines (Flush _) = []"

definition queued :: "'w logger \<Rightarrow> string list" where
  "queued l = concat (map message_lines (queue l))"

definition text_of :: "string list \<Rightarrow> string" where
  "text_of rs = concat (map (\<lambda>r. r @ [newline_char]) rs)"

text \<open>
  The writer appends: \<open>view\<close> is what reached the file. A failed write may have written a part.
\<close>

definition appends :: "'w log_writer \<Rightarrow> ('w \<Rightarrow> string) \<Rightarrow> bool" where
  "appends W view \<longleftrightarrow>
     (\<forall>t w w'. put W t w = (Ok (), w') \<longrightarrow> view w' = view w @ t) \<and>
     (\<forall>t w e w'. put W t w = (Err e, w') \<longrightarrow> (\<exists>p. prefix p t \<and> view w' = view w @ p)) \<and>
     (\<forall>w. view (flush_out W w) = view w)"

definition log_inv :: "('w \<Rightarrow> string) \<Rightarrow> string list \<Rightarrow> 'w logger \<Rightarrow> bool" where
  "log_inv view all l \<longleftrightarrow>
     (\<exists>rs part. view (out l) = text_of rs @ part \<and> subseq (rs @ queued l) all \<and>
        (if attached l then part = []
         else \<exists>r. subseq (rs @ [r]) all \<and> prefix part (r @ [newline_char])))"

definition new_log :: "'w \<Rightarrow> 'w logger" where
  "new_log w = \<lparr>queue = [], attached = True, out = w, completions = []\<rparr>"

definition string_writer :: "string log_writer" where
  "string_writer = \<lparr>put = \<lambda>t w. (Ok (), w @ t), flush_out = \<lambda>w. w\<rparr>"

section \<open>Lemmas\<close>

lemma records_snoc [simp]: "records (es @ [e]) = records es @ event_records e"
  by (simp add: records_def)

lemma records_Nil [simp]: "records [] = []"
  by (simp add: records_def)

lemma text_of_snoc [simp]: "text_of (rs @ [r]) = text_of rs @ r @ [newline_char]"
  by (simp add: text_of_def)

lemma text_of_Nil [simp]: "text_of [] = []"
  by (simp add: text_of_def)

lemma run_log_snoc [simp]: "run_log W (es @ [e]) l = log_event_step W e (run_log W es l)"
  by (simp add: run_log_def)

lemma run_log_Nil [simp]: "run_log W [] l = l"
  by (simp add: run_log_def)

lemma queued_simps [simp]:
  "queued (l\<lparr>queue := q, attached := a, out := w\<rparr>) = concat (map message_lines q)"
  "queued (l\<lparr>queue := q, out := w, completions := c\<rparr>) = concat (map message_lines q)"
  "queued (l\<lparr>queue := q, out := w\<rparr>) = concat (map message_lines q)"
  "queued (l\<lparr>queue := q\<rparr>) = concat (map message_lines q)"
  by (simp_all add: queued_def)

lemma subseq_extend: "subseq xs ys \<Longrightarrow> subseq xs (ys @ zs)"
  by (rule subseq_rev_drop_many)

lemma subseq_front: "subseq (xs @ ys) zs \<Longrightarrow> subseq xs zs"
  by (rule subseq_order.trans [OF subseq_rev_drop_many [OF subseq_order.order_refl]])

lemma subseq_elements: "subseq xs ys \<Longrightarrow> x \<in> set xs \<Longrightarrow> x \<in> set ys"
  by (induction rule: list_emb.induct) auto

text \<open>A successful line is appended whole; a failed one leaves a part of it.\<close>

lemma write_line_Ok:
  assumes "appends W view" and "write_line W s w = (Ok u, w')"
  shows "view w' = view w @ s @ [newline_char]"
proof -
  obtain r w1 where p: "put W s w = (r, w1)" by fastforce
  with assms(2) have r: "r = Ok ()" and "put W [newline_char] w1 = (Ok (), w')"
    by (auto simp: write_line_def split: result.splits)
  moreover from r p have "put W s w = (Ok (), w1)" by simp
  ultimately show ?thesis using assms(1) unfolding appends_def by (metis append.assoc)
qed

lemma write_line_Err:
  assumes "appends W view" and "write_line W s w = (Err e, w')"
  shows "\<exists>part. prefix part (s @ [newline_char]) \<and> view w' = view w @ part"
proof -
  obtain r w1 where p: "put W s w = (r, w1)" by fastforce
  show ?thesis
  proof (cases r)
    case (Ok u)
    with p have p: "put W s w = (Ok (), w1)" by simp
    with assms(2) have n: "put W [newline_char] w1 = (Err e, w')"
      by (simp add: write_line_def)
    from p have "view w1 = view w @ s" using assms(1) unfolding appends_def by blast
    moreover from n obtain q where "prefix q [newline_char]" "view w' = view w1 @ q"
      using assms(1) unfolding appends_def by blast
    ultimately have "prefix (s @ q) (s @ [newline_char])" and "view w' = view w @ s @ q"
      by (simp_all only: append_assoc same_prefix_prefix)
    then show ?thesis by blast
  next
    case (Err e')
    with p assms(2) have "put W s w = (Err e', w')" by (simp add: write_line_def)
    then obtain q where "prefix q s" "view w' = view w @ q"
      using assms(1) unfolding appends_def by blast
    then show ?thesis using prefix_prefix by blast
  qed
qed

lemma try_enqueue_inv:
  assumes "log_inv view all l"
  shows "log_inv view (all @ message_lines m) (snd (try_enqueue m l))"
proof -
  obtain rs part where i: "view (out l) = text_of rs @ part" "subseq (rs @ queued l) all"
      "if attached l then part = [] else \<exists>r. subseq (rs @ [r]) all \<and> prefix part (r @ [newline_char])"
    using assms unfolding log_inv_def by blast
  let ?l = "snd (try_enqueue m l)"
  have "subseq (rs @ queued ?l) (all @ message_lines m)"
  proof (cases "fst (try_enqueue m l)")
    case True
    then have "queued ?l = queued l @ message_lines m"
      by (auto simp: try_enqueue_def queued_def split: if_splits)
    then show ?thesis using list_emb_append_mono [OF i(2), of "message_lines m" "message_lines m"] by simp
  next
    case False
    then have "?l = l" by (auto simp: try_enqueue_def split: if_splits)
    then show ?thesis using i(2) by (simp add: subseq_extend)
  qed
  moreover have "out ?l = out l" "attached ?l = attached l" by (auto simp: try_enqueue_def)
  moreover have "\<exists>r. subseq (rs @ [r]) (all @ message_lines m) \<and> prefix part (r @ [newline_char])"
    if "\<not> attached l" using that i(3) subseq_extend by fastforce
  ultimately show ?thesis using i(1,3) unfolding log_inv_def by auto
qed

lemma log_inv_attached:
  "attached l \<Longrightarrow> log_inv view all l \<longleftrightarrow> (\<exists>rs. view (out l) = text_of rs \<and> subseq (rs @ queued l) all)"
  by (simp add: log_inv_def)

lemma log_inv_attachedI:
  "attached l \<Longrightarrow> view (out l) = text_of rs \<Longrightarrow> subseq (rs @ queued l) all \<Longrightarrow> log_inv view all l"
  by (subst log_inv_attached) blast+

lemma log_inv_detached:
  assumes "\<not> attached l" "queue l = []" "view (out l) = text_of rs @ part" "subseq (rs @ [r]) all"
    "prefix part (r @ [newline_char])"
  shows "log_inv view all l"
proof -
  have "subseq (rs @ queued l) all" using subseq_front [OF assms(4)] assms(2) by (simp add: queued_def)
  moreover have "if attached l then part = [] else \<exists>r. subseq (rs @ [r]) all \<and> prefix part (r @ [newline_char])"
    using assms(1,4,5) by (simp only: if_False) blast
  ultimately show ?thesis using assms(3) unfolding log_inv_def by blast
qed

lemma worker_turn_inv:
  assumes "appends W view" and "log_inv view all l"
  shows "log_inv view all (worker_turn W l)"
proof (cases "attached l \<and> queue l \<noteq> []")
  case False
  then show ?thesis using assms(2) by (auto simp: worker_turn_def)
next
  case True
  then obtain m q where q: "attached l" "queue l = m # q" by (cases "queue l") auto
  from assms(2) log_inv_attached [OF q(1)] obtain rs where "view (out l) = text_of rs" "subseq (rs @ queued l) all"
    by blast
  then have i: "view (out l) = text_of rs"
      "subseq (rs @ message_lines m @ concat (map message_lines q)) all"
    using q(2) by (simp_all add: queued_def)
  show ?thesis
  proof (cases m)
    case (Flush c)
    have "view (flush_out W (out l)) = text_of rs" using i(1) assms(1) unfolding appends_def by metis
    then have "log_inv view all (l\<lparr>queue := q, out := flush_out W (out l), completions := completions l @ [c]\<rparr>)"
      using q(1) i(2) Flush by (intro log_inv_attachedI [where rs = rs]) simp_all
    then show ?thesis using q Flush by (simp add: worker_turn_def)
  next
    case (Line s)
    obtain r w where w: "write_line W s (out l) = (r, w)" by fastforce
    have s: "subseq ((rs @ [s]) @ concat (map message_lines q)) all" using i(2) Line by simp
    show ?thesis
    proof (cases r)
      case (Ok u)
      then have "view w = text_of (rs @ [s])" using write_line_Ok [OF assms(1)] w i(1) by simp
      then have "log_inv view all (l\<lparr>queue := q, out := w\<rparr>)"
        using q(1) s by (intro log_inv_attachedI [where rs = "rs @ [s]"]) simp_all
      then show ?thesis using q Line w Ok by (simp add: worker_turn_def)
    next
      case (Err e)
      then obtain part where p: "prefix part (s @ [newline_char])" "view w = text_of rs @ part"
        using write_line_Err [OF assms(1), of s "out l" e w] w i(1) by auto
      have "subseq (rs @ [s]) all" using s by (rule subseq_front)
      with p have "log_inv view all (l\<lparr>queue := [], attached := False, out := w\<rparr>)"
        by (intro log_inv_detached [where rs = rs and part = part and r = s]) simp_all
      then show ?thesis using q Line w Err by (simp add: worker_turn_def)
    qed
  qed
qed

lemma run_log_inv:
  assumes "appends W view" and "view w = []"
  shows "log_inv view (records es) (run_log W es (new_log w))"
proof (induction es rule: rev_induct)
  case Nil
  show ?case using assms(2) by (intro log_inv_attachedI [where rs = "[]"]) (simp_all add: new_log_def queued_def)
next
  case (snoc e es)
  show ?case
  proof (cases e)
    case (LogCall now pid m)
    then show ?thesis using try_enqueue_inv [OF snoc, of "Line (log_line now pid m)"] by (simp add: log_message_def)
  next
    case (FlushCall c)
    then show ?thesis using try_enqueue_inv [OF snoc, of "Flush c"] by (simp add: flush_log_def)
  next
    case WorkerTurn
    then show ?thesis using worker_turn_inv [OF assms(1) snoc] by simp
  qed
qed

text \<open>No record contains a line break, so a reader of the log finds the records again.\<close>

lemma log_line_free: "newline_char \<notin> set (log_line now pid m)" "return_char \<notin> set (log_line now pid m)"
proof -
  have digits: "c \<notin> set (dec_str n)" if "\<not> is_ascii_digit c" for c n
    using dec_str_digits [of n] that by (auto simp: list_all_iff)
  have free: "newline_char \<notin> set (replace_char newline_char [CHR 0x5C, CHR ''n''] (replace_char return_char [CHR 0x5C, CHR ''r''] m))"
    "return_char \<notin> set (replace_char newline_char [CHR 0x5C, CHR ''n''] (replace_char return_char [CHR 0x5C, CHR ''r''] m))"
    using replace_char_free [of return_char "[CHR 0x5C, CHR ''r'']" m]
      set_replace_char [of newline_char "[CHR 0x5C, CHR ''n'']" "replace_char return_char [CHR 0x5C, CHR ''r''] m"]
    by (auto simp: replace_char_free newline_char_def return_char_def char_of_def bit_0)
  have n: "\<not> is_ascii_digit newline_char" "\<not> is_ascii_digit return_char"
    by (simp_all add: is_ascii_digit_def newline_char_def return_char_def)
  show "newline_char \<notin> set (log_line now pid m)" "return_char \<notin> set (log_line now pid m)"
    using free digits n by (auto simp: log_line_def newline_char_def return_char_def char_of_def bit_0)
qed

lemma records_free: "r \<in> set (records es) \<Longrightarrow> newline_char \<notin> set r \<and> return_char \<notin> set r"
proof -
  assume "r \<in> set (records es)"
  then obtain e where "r \<in> set (event_records e)" by (auto simp: records_def)
  then show ?thesis using log_line_free by (cases e) simp_all
qed

lemma split_text_of:
  "(\<And>r. r \<in> set rs \<Longrightarrow> newline_char \<notin> set r) \<Longrightarrow> split_on newline_char (text_of rs) = rs @ [[]]"
proof (induction rs)
  case (Cons r rs)
  have "text_of (r # rs) = r @ newline_char # text_of rs" by (simp add: text_of_def)
  then show ?case using Cons split_on_append [of newline_char r "text_of rs"] by simp
qed simp

lemma lines_text_of:
  assumes "\<And>r. r \<in> set rs \<Longrightarrow> newline_char \<notin> set r \<and> return_char \<notin> set r"
  shows "lines (text_of rs) = rs"
proof -
  have "map strip_return rs = rs"
    using assms by (intro map_idI) (metis last_in_set strip_return_def)
  then show ?thesis using split_text_of [of rs] assms by (simp add: lines_def Let_def)
qed

text \<open>While a writer never fails and the calls fit the queue, nothing is lost.\<close>

fun is_call :: "log_event \<Rightarrow> bool" where
  "is_call WorkerTurn = False"
| "is_call _ = True"

definition log_full :: "('w \<Rightarrow> string) \<Rightarrow> log_event list \<Rightarrow> 'w logger \<Rightarrow> bool" where
  "log_full view es l \<longleftrightarrow>
     attached l \<and> length (queue l) \<le> length (filter is_call es) \<and>
     (\<exists>rs. view (out l) = text_of rs \<and> rs @ queued l = records es)"

lemma enqueue_full:
  assumes "log_full view es l" and "length (filter is_call (es @ [e])) \<le> LOG_QUEUE" and "is_call e"
    and "message_lines m = event_records e"
  shows "log_full view (es @ [e]) (snd (try_enqueue m l))"
  using assms unfolding log_full_def by (auto simp: try_enqueue_def queued_def)

lemma worker_full:
  assumes "appends W view" and "\<And>t w. is_ok (fst (put W t w))" and "log_full view es l"
  shows "log_full view (es @ [WorkerTurn]) (worker_turn W l)"
proof (cases "queue l")
  case Nil
  then show ?thesis using assms(3) by (simp add: log_full_def worker_turn_def)
next
  case (Cons m q)
  obtain rs where l: "attached l" "length (queue l) \<le> length (filter is_call es)" "view (out l) = text_of rs"
      "rs @ queued l = records es"
    using assms(3) unfolding log_full_def by blast
  show ?thesis
  proof (cases m)
    case (Line s)
    obtain r w where w: "write_line W s (out l) = (r, w)" by fastforce
    obtain w1 where "put W s (out l) = (Ok (), w1)"
      using assms(2) [of s "out l"] by (cases "put W s (out l)") (auto simp: is_ok_iff)
    then have "is_ok r" using assms(2) [of "[newline_char]" w1] w by (simp add: write_line_def)
    then obtain u where u: "r = Ok u" by (auto simp: is_ok_iff)
    then have "view w = text_of (rs @ [s])" using write_line_Ok [OF assms(1)] w l(3) by simp
    moreover have "(rs @ [s]) @ concat (map message_lines q) = records es"
      using l(4) Cons Line by (simp add: queued_def)
    ultimately have "\<exists>rs. view w = text_of rs \<and> rs @ concat (map message_lines q) = records es" by blast
    then show ?thesis using l(1,2) Cons Line w u by (simp add: log_full_def worker_turn_def)
  next
    case (Flush c)
    have "view (flush_out W (out l)) = text_of rs" using assms(1) l(3) unfolding appends_def by metis
    moreover have "rs @ concat (map message_lines q) = records es" using l(4) Cons Flush by (simp add: queued_def)
    ultimately have "\<exists>rs. view (flush_out W (out l)) = text_of rs \<and> rs @ concat (map message_lines q) = records es"
      by blast
    then show ?thesis using l(1,2) Cons Flush by (simp add: log_full_def worker_turn_def)
  qed
qed

lemma run_log_full:
  assumes "appends W view" and "view w = []" and "\<And>t w. is_ok (fst (put W t w))"
    and "length (filter is_call es) \<le> LOG_QUEUE"
  shows "log_full view es (run_log W es (new_log w))"
  using assms(4)
proof (induction es rule: rev_induct)
  case Nil
  show ?case using assms(2) by (simp add: log_full_def new_log_def queued_def)
next
  case (snoc e es)
  then have IH: "log_full view es (run_log W es (new_log w))" by simp
  show ?case
    using enqueue_full [OF IH snoc.prems] worker_full [OF assms(1,3) IH]
    by (cases e) (simp_all add: log_message_def flush_log_def)
qed

lemma string_writer_appends: "appends string_writer (\<lambda>w. w)"
  by (simp add: appends_def string_writer_def)

section \<open>Properties\<close>

text \<open>
  C36: Whatever the callers and the worker do in whatever order, the log holds complete lines, each the
  record of one log call, in the order of the calls; only if a write failed, and then for good, is the
  last line cut short. A message cannot forge a record: splitting the log into lines gives back exactly
  the records that were written. Calls are dropped only when the queue is full or a write failed: with at most
  256 calls and a writer that works, what is written and what is queued are all the records.
\<close>

theorem log_lines_exact:
  assumes "appends W view" and "view w = []" and "l = run_log W es (new_log w)"
  shows "(attached l \<longrightarrow>
            (\<exists>rs. view (out l) = text_of rs \<and> lines (view (out l)) = rs \<and> subseq (rs @ queued l) (records es))) \<and>
         (\<not> attached l \<longrightarrow>
            (\<exists>rs r part. view (out l) = text_of rs @ part \<and> prefix part (r @ [newline_char]) \<and> subseq (rs @ [r]) (records es))) \<and>
         ((\<forall>t w. is_ok (fst (put W t w))) \<and> length (filter is_call es) \<le> 256 \<longrightarrow>
            attached l \<and> lines (view (out l)) @ queued l = records es)"
proof -
  have i: "log_inv view (records es) l" using run_log_inv [OF assms(1,2)] assms(3) by simp
  have lines_of: "lines (text_of rs) = rs" if "subseq (rs @ q) (records es)" for rs q
    using subseq_elements [OF subseq_front [OF that]] records_free by (intro lines_text_of) blast
  have "attached l \<Longrightarrow> \<exists>rs. view (out l) = text_of rs \<and> lines (view (out l)) = rs \<and> subseq (rs @ queued l) (records es)"
    using i lines_of by (auto simp: log_inv_attached)
  moreover have "\<not> attached l \<Longrightarrow>
      \<exists>rs r part. view (out l) = text_of rs @ part \<and> prefix part (r @ [newline_char]) \<and> subseq (rs @ [r]) (records es)"
    using i unfolding log_inv_def by (simp only: if_False) blast
  moreover have "attached l \<and> lines (view (out l)) @ queued l = records es"
    if ok: "\<forall>t w. is_ok (fst (put W t w))" and n: "length (filter is_call es) \<le> 256"
  proof -
    have "log_full view es l" using run_log_full [OF assms(1,2), of es] ok n assms(3) by (simp add: LOG_QUEUE_def)
    then obtain rs where "attached l" "view (out l) = text_of rs" "rs @ queued l = records es"
      unfolding log_full_def by blast
    then show ?thesis using lines_of [of rs "queued l"] by simp
  qed
  ultimately show ?thesis by blast
qed

theorem log_lines_exact_witness:
  "lines (out (run_log string_writer [LogCall 0 7 (''a'' @ [newline_char] @ ''b''), WorkerTurn, LogCall 0 7 ''c''] (new_log []))) =
     [log_line 0 7 (''a'' @ [newline_char] @ ''b'')]"
proof -
  let ?es = "[LogCall 0 7 (''a'' @ [newline_char] @ ''b''), WorkerTurn, LogCall 0 7 ''c'']"
  have "lines (out (run_log string_writer ?es (new_log []))) @ queued (run_log string_writer ?es (new_log [])) = records ?es"
    using log_lines_exact [OF string_writer_appends, of "[]" _ ?es] by (simp add: string_writer_def)
  moreover have "queued (run_log string_writer ?es (new_log [])) = [log_line 0 7 ''c'']"
    by (simp add: run_log_def new_log_def log_message_def try_enqueue_def worker_turn_def LOG_QUEUE_def write_line_def
        string_writer_def queued_def)
  ultimately show ?thesis by (simp add: records_def)
qed

end
