(* ===== verification/Owner.thy ===== *)
theory Owner
  imports Std_Text
begin

text \<open>
  The owner of the daemon, owner.rs: the process that started it is pinned when the daemon starts and
  every later connection is checked against it. The operating system's calls are parameters that read
  a system state; \<open>now k\<close> is the state that the k-th call of a function sees, so that the system may
  change between two calls. Sums and differences of 64-bit integers wrap, as in a release build.
\<close>

section \<open>Definitions\<close>

datatype owner_error =
    OwnerError string
  | OwnerIo io_error
  | OwnerContext string io_error
  | OwnerParse

fun find_map :: "('a \<Rightarrow> 'b option) \<Rightarrow> 'a list \<Rightarrow> 'b option" where
  "find_map f [] = None"
| "find_map f (x # xs) = (case f x of Some y \<Rightarrow> Some y | None \<Rightarrow> find_map f xs)"

definition first :: "'a list \<Rightarrow> 'a option" where
  "first xs = (if xs = [] then None else Some (hd xs))"

definition nth_opt :: "'a list \<Rightarrow> nat \<Rightarrow> 'a option" where
  "nth_opt xs n = (if n < length xs then Some (xs ! n) else None)"

definition parse_u32 :: "string \<Rightarrow> (32 word, owner_error) result" where
  "parse_u32 s = map_ok of_nat (ok_or (parse_uint (2 ^ 32 - 1) s) OwnerParse)"

definition parse_u64 :: "string \<Rightarrow> (64 word, owner_error) result" where
  "parse_u64 s = map_ok of_nat (ok_or (parse_uint (2 ^ 64 - 1) s) OwnerParse)"

text \<open>The owner as it is kept: the field \<open>process\<close> is the pidfd on Linux and the birth time on macOS.\<close>

record 'h owner_process =
  pid :: "32 word"
  uid :: "32 word"
  process :: 'h

definition check_pid :: "bool \<Rightarrow> 32 word \<Rightarrow> (unit, owner_error) result" where
  "check_pid unix p =
     (if p = 0 then Err (OwnerError ''invalid owner PID'')
      else if unix \<and> \<not> unat p \<le> 2 ^ 31 - 1 then Err (OwnerError ''invalid owner PID'')
      else Ok ())"

subsection \<open>Linux\<close>

record ('h, 'os) linux_process_ops =
  pidfd_open :: "32 word \<Rightarrow> 'os \<Rightarrow> ('h, io_error) result"
  read_to_string :: "string \<Rightarrow> 'os \<Rightarrow> (string, io_error) result"
  poll_pidfd :: "'h \<Rightarrow> 'os \<Rightarrow> int"

definition proc_file :: "32 word \<Rightarrow> string \<Rightarrow> string" where
  "proc_file p name = ''/proc/'' @ dec_str (unat p) @ ''/'' @ name"

definition status_uid :: "string \<Rightarrow> (32 word, owner_error) result" where
  "status_uid status =
     and_then (ok_or (find_map (strip_prefix ''Uid:'') (lines status)) (OwnerError ''missing owner UID'')) (\<lambda>rest.
     and_then (ok_or (first (split_whitespace rest)) (OwnerError ''missing real UID'')) (\<lambda>word.
     parse_u32 word))"

definition stat_ticks :: "string \<Rightarrow> (64 word, owner_error) result" where
  "stat_ticks stat =
     and_then (ok_or (rsplit_once (CHR '')'') stat) (OwnerError ''invalid proc stat'')) (\<lambda>parts.
     and_then (ok_or (nth_opt (split_whitespace (snd parts)) 19) (OwnerError ''missing process start time'')) (\<lambda>word.
     parse_u64 word))"

definition linux_is_alive :: "('h, 'os) linux_process_ops \<Rightarrow> 'h owner_process \<Rightarrow> 'os \<Rightarrow> bool" where
  "linux_is_alive X owner s \<longleftrightarrow> poll_pidfd X (process owner) s = 0"

definition linux_open ::
    "('h, 'os) linux_process_ops \<Rightarrow> (nat \<Rightarrow> 'os) \<Rightarrow> 32 word \<Rightarrow> 64 word \<Rightarrow> ('h owner_process, owner_error) result" where
  "linux_open X now p start_time =
     and_then (check_pid True p) (\<lambda>_.
     and_then (map_err (OwnerContext ''open owner pidfd (Linux 5.3+ required)'') (pidfd_open X p (now 0))) (\<lambda>fd.
     and_then (map_err OwnerIo (read_to_string X (proc_file p ''status'') (now 1))) (\<lambda>status.
     and_then (status_uid status) (\<lambda>u.
     and_then (map_err OwnerIo (read_to_string X (proc_file p ''stat'') (now 2))) (\<lambda>stat.
     and_then (stat_ticks stat) (\<lambda>ticks.
       if ticks \<noteq> start_time then Err (OwnerError ''owner process creation time mismatch'')
       else let owner = \<lparr>pid = p, uid = u, process = fd\<rparr>
            in if \<not> linux_is_alive X owner (now 3) then Err (OwnerError ''owner has exited'') else Ok owner))))))"

definition linux_authorizes :: "('h, 'os) linux_process_ops \<Rightarrow> 'h owner_process \<Rightarrow> 32 word \<Rightarrow> 'os \<Rightarrow> bool" where
  "linux_authorizes X owner peer_pid s \<longleftrightarrow> peer_pid = pid owner \<and> linux_is_alive X owner s"

subsection \<open>macOS\<close>

record bsd_info =
  pbi_status :: "32 word"
  pbi_ruid :: "32 word"
  pbi_start_tvsec :: "64 word"
  pbi_start_tvusec :: "64 word"

text \<open>\<open>proc_pidinfo\<close> fills the structure and returns the number of bytes it wrote.\<close>

record 'os macos_process_ops =
  proc_pidinfo :: "32 word \<Rightarrow> 'os \<Rightarrow> int \<times> bsd_info"
  info_size :: int

definition macos_info :: "'os macos_process_ops \<Rightarrow> 32 word \<Rightarrow> 'os \<Rightarrow> bsd_info option" where
  "macos_info X p s =
     (case proc_pidinfo X p s of (n, info) \<Rightarrow> if n = info_size X \<and> pbi_status info \<noteq> 5 then Some info else None)"

definition birth_of :: "bsd_info \<Rightarrow> 64 word \<times> 64 word" where
  "birth_of info = (pbi_start_tvsec info, pbi_start_tvusec info)"

definition macos_open ::
    "'os macos_process_ops \<Rightarrow> 'os \<Rightarrow> 32 word \<Rightarrow> 64 word \<Rightarrow> ((64 word \<times> 64 word) owner_process, owner_error) result" where
  "macos_open X s p start_time =
     and_then (check_pid True p) (\<lambda>_.
     and_then (ok_or (macos_info X p s) (OwnerError ''read owner process identity'')) (\<lambda>info.
       if pbi_start_tvsec info * 1000 + pbi_start_tvusec info div 1000 \<noteq> start_time
       then Err (OwnerError ''owner process creation time mismatch'')
       else Ok \<lparr>pid = p, uid = pbi_ruid info, process = birth_of info\<rparr>))"

definition macos_is_alive :: "'os macos_process_ops \<Rightarrow> (64 word \<times> 64 word) owner_process \<Rightarrow> 'os \<Rightarrow> bool" where
  "macos_is_alive X owner s =
     (case macos_info X (pid owner) s of None \<Rightarrow> False | Some info \<Rightarrow> birth_of info = process owner)"

definition macos_authorizes ::
    "'os macos_process_ops \<Rightarrow> (64 word \<times> 64 word) owner_process \<Rightarrow> 32 word \<Rightarrow> 'os \<Rightarrow> bool" where
  "macos_authorizes X owner peer_pid s \<longleftrightarrow> peer_pid = pid owner \<and> macos_is_alive X owner s"

subsection \<open>Windows\<close>

text \<open>
  \<open>wait_for\<close> is \<^verbatim>\<open>WaitForSingleObject\<close> with no timeout. \<open>token_user_size\<close> is what the first call of
  \<^verbatim>\<open>GetTokenInformation\<close> writes into its size, whatever it returns; \<open>token_user\<close> is the second one, for a
  size and a buffer of a number of bytes, with the bytes it writes; \<open>sid_wide\<close> is the text of the security identifier
  that such bytes refer to, as 16-bit units.
\<close>

record ('h, 'tok, 'os) windows_process_ops =
  open_process :: "32 word \<Rightarrow> 'os \<Rightarrow> ('h, io_error) result"
  creation_time :: "'h \<Rightarrow> 'os \<Rightarrow> (32 word \<times> 32 word, io_error) result"
  open_token :: "'h \<Rightarrow> 'os \<Rightarrow> ('tok, io_error) result"
  token_user_size :: "'tok \<Rightarrow> 'os \<Rightarrow> 32 word"
  token_user :: "'tok \<Rightarrow> 32 word \<Rightarrow> nat \<Rightarrow> 'os \<Rightarrow> (byte list, io_error) result"
  sid_wide :: "byte list \<Rightarrow> 'os \<Rightarrow> (16 word list, io_error) result"
  wait_for :: "'h \<Rightarrow> 'os \<Rightarrow> 32 word"

record 'h windows_owner =
  win_owner_pid :: "32 word"
  win_owner_process :: 'h
  sid :: string

definition WAIT_TIMEOUT :: "32 word" where "WAIT_TIMEOUT = 258"

definition creation_ticks :: "32 word \<times> 32 word \<Rightarrow> 64 word" where
  "creation_ticks t = or (push_bit 32 (ucast (fst t))) (ucast (snd t))"

text \<open>\<^verbatim>\<open>String::from_utf16\<close>: the characters of the 16-bit units, refused at a lone surrogate.\<close>

definition utf8_char :: "nat \<Rightarrow> string" where
  "utf8_char c =
     map char_of
       (if c < 0x80 then [c]
        else if c < 0x800 then [0xC0 + c div 64, 0x80 + c mod 64]
        else if c < 0x10000 then [0xE0 + c div 4096, 0x80 + c div 64 mod 64, 0x80 + c mod 64]
        else [0xF0 + c div 262144, 0x80 + c div 4096 mod 64, 0x80 + c div 64 mod 64, 0x80 + c mod 64])"

fun from_utf16 :: "16 word list \<Rightarrow> string option" where
  "from_utf16 [] = Some []"
| "from_utf16 (u # us) =
     (if u < 0xD800 \<or> 0xE000 \<le> u then map_option ((@) (utf8_char (unat u))) (from_utf16 us)
      else if 0xDC00 \<le> u then None
      else case us of
             [] \<Rightarrow> None
           | v # vs \<Rightarrow>
               if 0xDC00 \<le> v \<and> v < 0xE000
               then map_option ((@) (utf8_char (0x10000 + (unat u - 0xD800) * 1024 + (unat v - 0xDC00)))) (from_utf16 vs)
               else None)"

text \<open>The bytes of a vector of 64-bit words that holds a number of bytes.\<close>

definition storage_bytes :: "32 word \<Rightarrow> nat" where
  "storage_bytes n = 8 * ((unat n + 7) div 8)"

definition windows_sid ::
    "('h, 'tok, 'os) windows_process_ops \<Rightarrow> (nat \<Rightarrow> 'os) \<Rightarrow> 'h \<Rightarrow> (string, owner_error) result" where
  "windows_sid X now h =
     and_then (map_err OwnerIo (open_token X h (now 0))) (\<lambda>token.
     let n = token_user_size X token (now 1)
     in and_then (map_err OwnerIo (token_user X token n (storage_bytes n) (now 2))) (\<lambda>user.
        and_then (map_err OwnerIo (sid_wide X user (now 3))) (\<lambda>wide.
        case from_utf16 wide of
          None \<Rightarrow> Err (OwnerError ''invalid utf-16: lone surrogate found'')
        | Some str \<Rightarrow> Ok str)))"

definition windows_is_alive :: "('h, 'tok, 'os) windows_process_ops \<Rightarrow> 'h windows_owner \<Rightarrow> 'os \<Rightarrow> bool" where
  "windows_is_alive X owner s \<longleftrightarrow> wait_for X (win_owner_process owner) s = WAIT_TIMEOUT"

definition windows_open ::
    "('h, 'tok, 'os) windows_process_ops \<Rightarrow> (nat \<Rightarrow> 'os) \<Rightarrow> 32 word \<Rightarrow> 64 word \<Rightarrow> ('h windows_owner, owner_error) result" where
  "windows_open X now p start_time =
     and_then (check_pid False p) (\<lambda>_.
     and_then (map_err OwnerIo (open_process X p (now 0))) (\<lambda>h.
     and_then (map_err OwnerIo (creation_time X h (now 1))) (\<lambda>creation.
       if creation_ticks creation div 10000 - 11644473600000 \<noteq> start_time
       then Err (OwnerError ''owner process creation time mismatch'')
       else and_then (windows_sid X (\<lambda>k. now (2 + k)) h) (\<lambda>sid.
            let owner = \<lparr>win_owner_pid = p, win_owner_process = h, sid = sid\<rparr>
            in if \<not> windows_is_alive X owner (now 6) then Err (OwnerError ''owner has exited'') else Ok owner))))"

definition windows_authorizes :: "('h, 'tok, 'os) windows_process_ops \<Rightarrow> 'h windows_owner \<Rightarrow> 32 word \<Rightarrow> 'os \<Rightarrow> bool" where
  "windows_authorizes X owner peer_pid s \<longleftrightarrow> peer_pid = win_owner_pid owner \<and> windows_is_alive X owner s"

subsection \<open>Credentials of the daemon\<close>

text \<open>\<open>setreuid\<close> returns zero on success; the real and effective user are read back.\<close>

record 'os credential_ops =
  setreuid :: "32 word \<Rightarrow> 32 word \<Rightarrow> 'os \<Rightarrow> int \<times> 'os"
  last_os_error :: "'os \<Rightarrow> io_error"
  real_uid_now :: "'os \<Rightarrow> 32 word"
  effective_uid_now :: "'os \<Rightarrow> 32 word"

definition allow_owner_signals :: "'os credential_ops \<Rightarrow> 32 word \<Rightarrow> 'os \<Rightarrow> (unit, owner_error) result \<times> 'os" where
  "allow_owner_signals X owner_uid s =
     (case setreuid X owner_uid 0 s of
        (rc, s) \<Rightarrow>
          if rc \<noteq> 0 then (Err (OwnerContext ''configure daemon signal ownership'' (last_os_error X s)), s)
          else if \<not> (real_uid_now X s = owner_uid \<and> effective_uid_now X s = 0) then (Err (OwnerError ''invalid daemon UIDs''), s)
          else (Ok (), s))"

subsection \<open>Specification\<close>

text \<open>
  The process table of Linux at one moment. An \<open>incarnation\<close> is one process from its start to its exit;
  \<open>comm\<close> is the name a process gives itself, arbitrary bytes; \<open>stat_fields\<close> are the fields
  behind the name in its stat file, \<open>status_before\<close> and \<open>status_after\<close> what surrounds the real user
  in its status file.
\<close>

record process_info =
  incarnation :: nat
  start_ticks :: nat
  real_uid :: nat
  comm :: string
  stat_fields :: "string list"
  status_before :: "string list"
  status_after :: string

definition plain_word :: "string \<Rightarrow> bool" where
  "plain_word w \<longleftrightarrow> w \<noteq> [] \<and> list_all is_graphic w \<and> CHR '')'' \<notin> set w"

definition process_wf :: "process_info \<Rightarrow> bool" where
  "process_wf i \<longleftrightarrow>
     list_all plain_word (stat_fields i) \<and> 19 < length (stat_fields i) \<and>
     stat_fields i ! 19 = dec_str (start_ticks i) \<and> start_ticks i < 2 ^ 64 \<and> real_uid i < 2 ^ 32 \<and>
     list_all (\<lambda>l. newline_char \<notin> set l \<and> \<not> starts_with ''Uid:'' l) (status_before i)"

definition stat_text :: "32 word \<Rightarrow> process_info \<Rightarrow> string" where
  "stat_text p i = dec_str (unat p) @ '' ('' @ comm i @ '') '' @ join '' '' (stat_fields i) @ [newline_char]"

definition status_text :: "process_info \<Rightarrow> string" where
  "status_text i =
     concat (map (\<lambda>l. l @ [newline_char]) (status_before i)) @
     ''Uid:'' @ [char_of (9 :: nat)] @ dec_str (real_uid i) @ [char_of (9 :: nat)] @ status_after i"

text \<open>
  What Linux documents: a pidfd refers to the incarnation that has the number when it is opened and polls
  as not ready exactly while that one lives; the files under /proc describe the incarnation that has
  the number when they are read.
\<close>

definition linux_kernel ::
    "('h, 'os) linux_process_ops \<Rightarrow> ('os \<Rightarrow> 32 word \<Rightarrow> process_info option) \<Rightarrow> ('h \<Rightarrow> nat) \<Rightarrow> bool" where
  "linux_kernel X table pinned \<longleftrightarrow>
     (\<forall>s p i. table s p = Some i \<longrightarrow> process_wf i) \<and>
     (\<forall>s p h. pidfd_open X p s = Ok h \<longrightarrow> (\<exists>i. table s p = Some i \<and> incarnation i = pinned h)) \<and>
     (\<forall>s h. poll_pidfd X h s = 0 \<longrightarrow> (\<exists>p i. table s p = Some i \<and> incarnation i = pinned h)) \<and>
     (\<forall>s p t. read_to_string X (proc_file p ''status'') s = Ok t \<longrightarrow> (\<exists>i. table s p = Some i \<and> t = status_text i)) \<and>
     (\<forall>s p t. read_to_string X (proc_file p ''stat'') s = Ok t \<longrightarrow> (\<exists>i. table s p = Some i \<and> t = stat_text p i))"

text \<open>An incarnation has one number and one start time, and lives without a gap.\<close>

definition lives_on :: "(nat \<Rightarrow> 32 word \<Rightarrow> process_info option) \<Rightarrow> bool" where
  "lives_on hist \<longleftrightarrow>
     (\<forall>t t' t'' p p' i i''. t \<le> t' \<and> t' \<le> t'' \<and> hist t p = Some i \<and> hist t'' p' = Some i'' \<and> incarnation i = incarnation i'' \<longrightarrow>
        p' = p \<and> start_ticks i'' = start_ticks i \<and>
        (\<exists>i'. hist t' p = Some i' \<and> incarnation i' = incarnation i \<and> start_ticks i' = start_ticks i))"

text \<open>
  The same for Windows, where \<open>start_ticks\<close> are the units of the creation time and \<open>identifier\<close> is the
  security identifier of the user of a process, an ASCII text. A buffer is only asked for with at
  least the bytes it is said to have.
\<close>

definition windows_kernel ::
    "('h, 'tok, 'os) windows_process_ops \<Rightarrow> ('os \<Rightarrow> 32 word \<Rightarrow> process_info option) \<Rightarrow> ('h \<Rightarrow> nat) \<Rightarrow> (nat \<Rightarrow> string) \<Rightarrow> bool" where
  "windows_kernel X table pinned identifier \<longleftrightarrow>
     (\<forall>s p h. open_process X p s = Ok h \<longrightarrow> (\<exists>i. table s p = Some i \<and> incarnation i = pinned h)) \<and>
     (\<forall>s h c p i s'. creation_time X h s = Ok c \<longrightarrow> table s' p = Some i \<longrightarrow> incarnation i = pinned h \<longrightarrow>
        creation_ticks c = of_nat (start_ticks i)) \<and>
     (\<forall>s h. wait_for X h s = WAIT_TIMEOUT \<longrightarrow> (\<exists>p i. table s p = Some i \<and> incarnation i = pinned h)) \<and>
     (\<forall>n. list_all (\<lambda>c. of_char c < (128 :: nat)) (identifier n)) \<and>
     (\<forall>s s' s'' h tok n m user wide. open_token X h s = Ok tok \<longrightarrow> unat n \<le> m \<longrightarrow> token_user X tok n m s' = Ok user \<longrightarrow>
        sid_wide X user s'' = Ok wide \<longrightarrow> wide = map (\<lambda>c. of_nat (of_char c)) (identifier (pinned h)))"

text \<open>A system for the examples: one process, whose name looks like the end of its own name and more fields.\<close>

definition sample_process :: process_info where
  "sample_process =
     \<lparr>incarnation = 1, start_ticks = 42, real_uid = 1000, comm = '') S 1 1'',
      stat_fields = replicate 19 ''1'' @ [dec_str 42], status_before = [''Name: x''], status_after = []\<rparr>"

definition sample_procs :: "(nat, unit) linux_process_ops" where
  "sample_procs =
     \<lparr>pidfd_open = (\<lambda>p s. if p = 7 then Ok 1 else Err (OsError 3)),
      read_to_string = (\<lambda>f s. if f = proc_file 7 ''status'' then Ok (status_text sample_process)
                              else if f = proc_file 7 ''stat'' then Ok (stat_text 7 sample_process)
                              else Err (OsError 2)),
      poll_pidfd = (\<lambda>h s. if h = 1 then 0 else 1)\<rparr>"

section \<open>Lemmas\<close>

lemma parse_uint_dec_str: "n \<le> m \<Longrightarrow> parse_uint m (dec_str n) = Some n"
proof -
  assume "n \<le> m"
  moreover have "hd (dec_str n) \<noteq> CHR ''+''"
    using dec_str_digits [of n] by (cases "dec_str n") (auto simp: is_ascii_digit_def code_def)
  ultimately show ?thesis using dec_str_digits [of n] by (simp add: parse_uint_def)
qed

lemma dec_str_graphic: "list_all is_graphic (dec_str n)"
  using dec_str_digits [of n] by (auto simp: list_all_iff is_ascii_digit_def is_graphic_def)

text \<open>Words that are separated by single spaces are found again.\<close>

lemma split_words:
  "list_all plain_word ws \<Longrightarrow> ws \<noteq> [] \<Longrightarrow> split_ws [] (join '' '' ws @ [newline_char]) = ws"
proof (induction ws)
  case (Cons w ws)
  have w: "split_ws [] (w @ c # s) = w # split_ws [] s" if "c = CHR '' '' \<or> c = newline_char" for c s
    using Cons.prems that split_ws_graphic [of w "[]"] split_ws_space [of c w s]
    by (auto simp: plain_word_def word_list_def)
  show ?case
  proof (cases "ws = []")
    case True
    then show ?thesis using w [of newline_char "[]"] by (simp add: word_list_def split_ws.simps(1))
  next
    case False
    then show ?thesis using Cons w [of "CHR '' ''" "join '' '' ws @ [newline_char]"] by (simp add: join_Cons)
  qed
qed simp

lemma plain_words_free:
  assumes "list_all plain_word ws"
  shows "CHR '')'' \<notin> set (join '' '' ws @ [newline_char])"
proof -
  have "CHR '')'' \<notin> set w" if "w \<in> set ws" for w
    using assms that by (auto simp: list_all_iff plain_word_def)
  moreover have "newline_char \<noteq> CHR '')''" by (simp add: newline_char_def char_of_def bit_0)
  ultimately show ?thesis using set_join_subset [of "'' ''" ws] by auto
qed

text \<open>The name of a process cannot change what is read as its start time, even if it looks like fields.\<close>

lemma stat_ticks_text:
  assumes "process_wf i"
  shows "stat_ticks (stat_text p i) = Ok (of_nat (start_ticks i))"
proof -
  let ?rest = "'' '' @ join '' '' (stat_fields i) @ [newline_char]"
  have eq: "stat_text p i = (dec_str (unat p) @ '' ('' @ comm i) @ CHR '')'' # ?rest"
    by (simp add: stat_text_def)
  have free: "CHR '')'' \<notin> set ?rest"
    using assms plain_words_free [of "stat_fields i"] by (simp add: process_wf_def)
  have "rsplit_once (CHR '')'') (stat_text p i) = Some (dec_str (unat p) @ '' ('' @ comm i, ?rest)"
    unfolding eq by (rule rsplit_once_last [OF free])
  moreover have "split_whitespace ?rest = stat_fields i"
  proof -
    have "stat_fields i \<noteq> []" using assms by (auto simp: process_wf_def)
    then show ?thesis
      using assms split_words [of "stat_fields i"]
      by (simp add: split_whitespace_def split_ws_space word_list_def process_wf_def)
  qed
  ultimately show ?thesis
    using assms parse_uint_dec_str [of "start_ticks i" "2 ^ 64 - 1"]
    by (simp add: stat_ticks_def nth_opt_def parse_u64_def process_wf_def)
qed

lemma strip_return_Cons: "s \<noteq> [] \<Longrightarrow> strip_return (c # s) = c # strip_return s"
  by (simp add: strip_return_def)

lemma strip_return_append: "s \<noteq> [] \<Longrightarrow> strip_return (p @ s) = p @ strip_return s"
  by (induction p) (simp_all add: strip_return_Cons)

lemma strip_return_no_Uid: "\<not> starts_with p l \<Longrightarrow> \<not> starts_with p (strip_return l)"
proof -
  assume l: "\<not> starts_with p l"
  have "\<exists>t. l = strip_return l @ t"
    by (metis append_Nil2 append_butlast_last_id strip_return_def)
  then obtain t where t: "l = strip_return l @ t" by blast
  show ?thesis
  proof
    assume "starts_with p (strip_return l)"
    then obtain r where "strip_return l = p @ r" by (auto simp: starts_with_iff)
    then have "l = p @ r @ t" using t by simp
    then show False using l by (auto simp: starts_with_iff)
  qed
qed

text \<open>The lines before a given one come first, and the given one ends at its newline.\<close>

lemma lines_Cons: "newline_char \<notin> set l \<Longrightarrow> lines (l @ newline_char # s) = strip_return l # lines s"
  by (simp add: lines_def split_on_append Let_def)

lemma lines_concat:
  "list_all (\<lambda>l. newline_char \<notin> set l) ls \<Longrightarrow>
     lines (concat (map (\<lambda>l. l @ [newline_char]) ls) @ s) = map strip_return ls @ lines s"
  by (induction ls) (simp_all add: lines_Cons)

lemma find_map_append: "find_map f (xs @ ys) = (case find_map f xs of Some y \<Rightarrow> Some y | None \<Rightarrow> find_map f ys)"
  by (induction xs) (auto split: option.split)

lemma find_map_None: "list_all (\<lambda>x. f x = None) xs \<Longrightarrow> find_map f xs = None"
  by (induction xs) auto

text \<open>The first line of a text that starts with \<open>p\<close> and a tab starts with them too.\<close>

lemma first_line:
  assumes "newline_char \<notin> set p"
  shows "\<exists>r ls. lines (p @ char_of (9 :: nat) # s) = (p @ char_of (9 :: nat) # r) # ls"
proof -
  let ?tab = "char_of (9 :: nat) :: char"
  have tab: "?tab \<noteq> newline_char" "?tab \<noteq> return_char"
    by (simp_all add: newline_char_def return_char_def char_of_neq)
  obtain w ws where w: "split_on newline_char s = w # ws" by (cases "split_on newline_char s") auto
  have split: "split_on newline_char (q @ s) = (q @ w) # ws" if "newline_char \<notin> set q" for q
    using that w by (induction q) auto
  have "split_on newline_char (p @ ?tab # s) = (p @ ?tab # w) # ws"
    using split [of "p @ [?tab]"] assms tab(1) by simp
  moreover have "\<exists>r. strip_return (p @ ?tab # w) = p @ ?tab # r"
  proof (cases "w = []")
    case True
    then show ?thesis using tab(2) strip_return_append [of "[?tab]" p] by (simp add: strip_return_def)
  next
    case False
    then show ?thesis using strip_return_append [of w "p @ [?tab]"] by simp
  qed
  ultimately show ?thesis by (cases "ws = []") (auto simp: lines_def Let_def)
qed

lemma status_uid_text:
  assumes "process_wf i"
  shows "status_uid (status_text i) = Ok (of_nat (real_uid i))"
proof -
  let ?tab = "char_of (9 :: nat) :: char" and ?u = "dec_str (real_uid i)"
  let ?p = "''Uid:'' @ ?tab # ?u"
  have digits: "list_all is_graphic ?u" by (rule dec_str_graphic)
  have "newline_char \<notin> set ?u" using digits by (auto simp: list_all_iff is_graphic_def newline_char_def)
  moreover have "newline_char \<notin> set (''Uid:'' @ [?tab])" by (simp add: newline_char_def char_of_def bit_0)
  ultimately have "newline_char \<notin> set ?p" by simp
  from first_line [OF this] obtain r ls where l: "lines (?p @ ?tab # status_after i) = (?p @ ?tab # r) # ls" by blast
  have b: "newline_char \<notin> set l \<and> \<not> starts_with ''Uid:'' l" if "l \<in> set (status_before i)" for l
    using assms that by (simp only: process_wf_def list_all_iff) blast
  have "\<not> starts_with ''Uid:'' (strip_return l)" if "l \<in> set (status_before i)" for l
    using strip_return_no_Uid b [OF that] by blast
  then have before: "list_all (\<lambda>l. newline_char \<notin> set l) (status_before i)"
    "list_all (\<lambda>l. strip_prefix ''Uid:'' l = None) (map strip_return (status_before i))"
    unfolding list_all_iff starts_with_def using b by (blast, simp only: set_map, blast)
  have "lines (status_text i) = map strip_return (status_before i) @ (?p @ ?tab # r) # ls"
    using lines_concat [OF before(1), of "?p @ ?tab # status_after i"] l by (simp add: status_text_def)
  then have "find_map (strip_prefix ''Uid:'') (lines (status_text i)) = Some (?tab # ?u @ ?tab # r)"
    by (simp add: find_map_append find_map_None [OF before(2)])
  moreover have "first (split_whitespace (?tab # ?u @ ?tab # r)) = Some ?u"
    using split_ws_graphic [OF digits, of "[]" "?tab # r"]
    by (simp add: split_whitespace_def split_ws_space word_list_def first_def)
  moreover have "parse_u32 ?u = Ok (of_nat (real_uid i))"
    using assms parse_uint_dec_str [of "real_uid i" "2 ^ 32 - 1"] by (simp add: parse_u32_def process_wf_def)
  ultimately show ?thesis by (simp add: status_uid_def)
qed

subsection \<open>The check of a peer\<close>

text \<open>The contract of the owner check, on every platform.\<close>

locale owner_gate =
  fixes owner_pid :: "'o \<Rightarrow> 32 word"
    and alive :: "'o \<Rightarrow> 'os \<Rightarrow> bool"
    and authorizes :: "'o \<Rightarrow> 32 word \<Rightarrow> 'os \<Rightarrow> bool"
  assumes authorizes_iff: "authorizes owner peer s \<longleftrightarrow> peer = owner_pid owner \<and> alive owner s"
begin

lemma dead_owner: "\<not> alive owner s \<Longrightarrow> \<not> authorizes owner peer s"
  by (simp add: authorizes_iff)

lemma unknown_peer: "owner_pid owner \<noteq> 0 \<Longrightarrow> \<not> authorizes owner 0 s"
  by (simp add: authorizes_iff)

lemma one_peer: "authorizes owner peer s \<Longrightarrow> authorizes owner peer' s' \<Longrightarrow> peer' = peer"
  by (simp add: authorizes_iff)

end

interpretation linux_gate: owner_gate pid "linux_is_alive X" "linux_authorizes X" for X
  by unfold_locales (simp add: linux_authorizes_def)

interpretation macos_gate: owner_gate pid "macos_is_alive X" "macos_authorizes X" for X
  by unfold_locales (simp add: macos_authorizes_def)

interpretation windows_gate: owner_gate win_owner_pid "windows_is_alive X" "windows_authorizes X" for X
  by unfold_locales (simp add: windows_authorizes_def)

lemma sample_process_wf: "process_wf sample_process"
proof -
  have "plain_word (dec_str 42)"
    using dec_str_graphic [of 42] dec_str_digits [of 42]
    by (auto simp: plain_word_def list_all_iff is_ascii_digit_def code_def)
  moreover have "plain_word ''1''" by (simp add: plain_word_def is_graphic_def code_def)
  moreover have "newline_char \<notin> set ''Name: x''" by (simp add: newline_char_def char_of_def bit_0)
  moreover have "\<not> starts_with ''Uid:'' ''Name: x''" by (simp add: starts_with_def)
  ultimately show ?thesis
    by (simp add: process_wf_def sample_process_def nth_append list_all_iff)
qed

lemma proc_file_inject: "proc_file p n = proc_file q n \<longleftrightarrow> p = q"
  by (auto simp: proc_file_def dec_str_inject unsigned_word_eqI)

lemma proc_file_distinct: "proc_file p ''status'' \<noteq> proc_file q ''stat''"
proof
  assume "proc_file p ''status'' = proc_file q ''stat''"
  then have "last (proc_file p ''status'') = last (proc_file q ''stat'')" by simp
  then show False by (simp add: proc_file_def)
qed

lemma sample_linux_kernel:
  "linux_kernel sample_procs (\<lambda>s p. if p = 7 then Some sample_process else None) (\<lambda>h. h)"
proof -
  have "proc_file p ''stat'' \<noteq> proc_file 7 ''status''" for p using proc_file_distinct [of 7 p] by simp
  then show ?thesis
    unfolding linux_kernel_def
    by (simp add: sample_procs_def sample_process_wf proc_file_inject proc_file_distinct)
       (simp add: sample_process_def)
qed

lemma sample_open: "linux_open sample_procs (\<lambda>_. ()) 7 42 = Ok \<lparr>pid = 7, uid = 1000, process = 1\<rparr>"
proof -
  have "status_uid (status_text sample_process) = Ok 1000" "stat_ticks (stat_text 7 sample_process) = Ok 42"
    using status_uid_text [OF sample_process_wf] stat_ticks_text [OF sample_process_wf, of 7]
    by (simp_all add: sample_process_def)
  moreover have "proc_file 7 ''stat'' \<noteq> proc_file 7 ''status''" using proc_file_distinct [of 7 7] by simp
  ultimately show ?thesis
    by (simp add: linux_open_def check_pid_def sample_procs_def linux_is_alive_def)
qed

lemma linux_open_calls:
  assumes "linux_open X now p start_time = Ok owner"
  obtains fd status stat where
    "owner = \<lparr>pid = p, uid = uid owner, process = fd\<rparr>" "p \<noteq> 0" "pidfd_open X p (now 0) = Ok fd"
    "read_to_string X (proc_file p ''status'') (now 1) = Ok status" "status_uid status = Ok (uid owner)"
    "read_to_string X (proc_file p ''stat'') (now 2) = Ok stat" "stat_ticks stat = Ok start_time"
  using assms unfolding linux_open_def
  by (auto simp: and_then_eq_Ok and_then_unit_Ok check_pid_def Let_def split: if_splits)

subsection \<open>The pinned process\<close>

text \<open>
  If the owner could be opened for a number and a start time, then a peer that is authorised at any later
  moment has that number, and the process that has the number at that moment is the very one that was
  pinned.
\<close>

lemma authorised_is_pinned:
  assumes "linux_kernel X table pinned" and "lives_on (\<lambda>t. table (now t))"
    and "linux_open X now p start_time = Ok owner" and "3 \<le> t" and "linux_authorizes X owner peer (now t)"
  shows "peer = p \<and>
    (\<exists>i i1. table (now t) peer = Some i \<and> incarnation i = pinned (process owner) \<and> start_ticks i = unat start_time \<and>
       table (now 1) p = Some i1 \<and> incarnation i1 = incarnation i \<and> uid owner = of_nat (real_uid i1))"
proof -
  obtain fd status stat where o: "owner = \<lparr>pid = p, uid = uid owner, process = fd\<rparr>" "pidfd_open X p (now 0) = Ok fd"
      "read_to_string X (proc_file p ''status'') (now 1) = Ok status" "status_uid status = Ok (uid owner)"
      "read_to_string X (proc_file p ''stat'') (now 2) = Ok stat" "stat_ticks stat = Ok start_time"
    using linux_open_calls [OF assms(3)] by blast
  have fd: "process owner = fd" and pid: "pid owner = p" by (subst o(1), simp)+
  obtain i0 where i0: "table (now 0) p = Some i0" "incarnation i0 = pinned fd"
    using assms(1) o(2) unfolding linux_kernel_def by blast
  have "peer = p" "poll_pidfd X fd (now t) = 0"
    using assms(5) fd pid by (simp_all add: linux_authorizes_def linux_is_alive_def)
  then obtain q i where i: "table (now t) q = Some i" "incarnation i = pinned fd"
    using assms(1) unfolding linux_kernel_def by blast
  have lives: "q = p \<and> start_ticks i = start_ticks i0 \<and>
      (\<exists>i'. table (now k) p = Some i' \<and> incarnation i' = incarnation i0 \<and> start_ticks i' = start_ticks i0)" if "k \<le> t" for k
    using assms(2) [unfolded lives_on_def, rule_format, of 0 k t p i0 q i] that i0 i by simp
  obtain i1 where i1: "table (now 1) p = Some i1" "incarnation i1 = incarnation i0" using lives [of 1] assms(4) by auto
  obtain i2 where i2: "table (now 2) p = Some i2" "start_ticks i2 = start_ticks i0" using lives [of 2] assms(4) by auto
  have wf: "process_wf i1" "process_wf i2" using assms(1) i1(1) i2(1) unfolding linux_kernel_def by blast+
  have "status = status_text i1" "stat = stat_text p i2"
    using assms(1) o(3,5) i1(1) i2(1) unfolding linux_kernel_def by fastforce+
  then have "uid owner = of_nat (real_uid i1)" "start_time = of_nat (start_ticks i2)"
    using o(4,6) status_uid_text [OF wf(1)] stat_ticks_text [OF wf(2)] by simp_all
  moreover have "unat (of_nat (start_ticks i2) :: 64 word) = start_ticks i2"
    using wf(2) by (simp add: process_wf_def unat_of_nat)
  ultimately show ?thesis
    using \<open>peer = p\<close> i i0 i1 i2 lives [of t] fd by auto
qed

lemma storage_holds: "unat n \<le> storage_bytes n"
  by (simp add: storage_bytes_def)

lemma from_utf16_ascii:
  "list_all (\<lambda>c. of_char c < (128 :: nat)) cs \<Longrightarrow> from_utf16 (map (\<lambda>c. of_nat (of_char c)) cs) = Some cs"
proof (induction cs)
  case (Cons c cs)
  let ?u = "of_nat (of_char c) :: 16 word"
  have u: "unat ?u = of_char c" using Cons.prems by (simp add: unat_of_nat)
  have "?u < 0xD800" using Cons.prems u by (simp add: word_less_nat_alt)
  moreover have "utf8_char (unat ?u) = [c]" unfolding u using Cons.prems by (simp add: utf8_char_def)
  ultimately show ?case using Cons by simp
qed simp

text \<open>
  On Windows, too, an authorised peer is the very process that was pinned, it was created at the given time, and the
  identifier that the pipe is protected with is that of its user.
\<close>

lemma windows_authorised_is_pinned:
  assumes "windows_kernel X table pinned identifier" and "lives_on (\<lambda>t. table (now t))"
    and "windows_open X now p start_time = Ok owner" and "windows_authorizes X owner peer (now t)"
  shows "peer = p \<and> sid owner = identifier (pinned (win_owner_process owner)) \<and>
    (\<exists>i. table (now t) peer = Some i \<and> incarnation i = pinned (win_owner_process owner) \<and>
       (of_nat (start_ticks i) :: 64 word) div 10000 - 11644473600000 = start_time)"
proof -
  note kernel = assms(1) [unfolded windows_kernel_def]
  obtain h c str where o: "owner = \<lparr>win_owner_pid = p, win_owner_process = h, sid = str\<rparr>" "open_process X p (now 0) = Ok h"
      "creation_time X h (now 1) = Ok c" "creation_ticks c div 10000 - 11644473600000 = start_time"
      "windows_sid X (\<lambda>k. now (2 + k)) h = Ok str"
    using assms(3) unfolding windows_open_def by (auto simp: and_then_eq_Ok and_then_unit_Ok Let_def split: if_splits)
  obtain tok n user wide where sid: "open_token X h (now 2) = Ok tok" "token_user X tok n (storage_bytes n) (now 4) = Ok user"
      "sid_wide X user (now 5) = Ok wide" "from_utf16 wide = Some str"
    using o(5) unfolding windows_sid_def by (auto simp: and_then_eq_Ok Let_def eval_nat_numeral split: option.splits)
  have "wide = map (\<lambda>c. of_nat (of_char c)) (identifier (pinned h))"
    using kernel [THEN conjunct2, THEN conjunct2, THEN conjunct2, THEN conjunct2] sid(1-3) storage_holds [of n] by blast
  then have "str = identifier (pinned h)"
    using assms(1) sid(4) from_utf16_ascii [of "identifier (pinned h)"] by (simp add: windows_kernel_def)
  moreover obtain i0 where i0: "table (now 0) p = Some i0" "incarnation i0 = pinned h"
    using kernel [THEN conjunct1] o(2) by blast
  moreover have w: "peer = p" "wait_for X h (now t) = WAIT_TIMEOUT"
    using assms(4) o(1) by (simp_all add: windows_authorizes_def windows_is_alive_def)
  moreover obtain q i where i: "table (now t) q = Some i" "incarnation i = pinned h"
    using kernel [THEN conjunct2, THEN conjunct2, THEN conjunct1] w(2) by blast
  moreover have "q = p" using assms(2) [unfolded lives_on_def, rule_format, of 0 0 t p i0 q i] i i0 by simp
  moreover have "creation_ticks c = of_nat (start_ticks i)"
    using kernel [THEN conjunct2, THEN conjunct1] o(3) i by blast
  ultimately show ?thesis using o(1,4) by auto
qed

text \<open>A Windows system for the examples: one process, created 42 milliseconds after 1970 began.\<close>

definition sample_windows_process :: process_info where
  "sample_windows_process = sample_process\<lparr>start_ticks := 116444736000420000\<rparr>"

definition sample_windows :: "(nat, unit, unit) windows_process_ops" where
  "sample_windows =
     \<lparr>open_process = (\<lambda>p s. if p = 7 then Ok 1 else Err (OsError 87)), creation_time = (\<lambda>h s. Ok (27111902, 3578063008)),
      open_token = (\<lambda>h s. Ok ()), token_user_size = (\<lambda>tok s. 44), token_user = (\<lambda>tok n m s. Ok []),
      sid_wide = (\<lambda>user s. Ok (map (\<lambda>c. of_nat (of_char c)) ''S-1-5-18'')),
      wait_for = (\<lambda>h s. if h = 1 then WAIT_TIMEOUT else 0)\<rparr>"

definition sample_windows_table :: "32 word \<Rightarrow> process_info option" where
  "sample_windows_table p = (if p = 7 then Some sample_windows_process else None)"

lemma sample_creation: "creation_ticks (27111902, 3578063008) = 116444736000420000"
  by (simp add: creation_ticks_def)

lemma sample_windows_kernel:
  "windows_kernel sample_windows (\<lambda>_. sample_windows_table) (\<lambda>_. incarnation sample_process) (\<lambda>_. ''S-1-5-18'')"
  by (auto simp: windows_kernel_def sample_windows_def sample_windows_table_def sample_windows_process_def sample_creation
      split: if_splits)

lemma sample_windows_open:
  "windows_open sample_windows (\<lambda>_. ()) 7 42 = Ok \<lparr>win_owner_pid = 7, win_owner_process = 1, sid = ''S-1-5-18''\<rparr>"
proof -
  have "from_utf16 (map (\<lambda>c. of_nat (of_char c)) ''S-1-5-18'') = Some ''S-1-5-18''" by (rule from_utf16_ascii) simp
  then have "windows_sid sample_windows (\<lambda>_. ()) h = Ok ''S-1-5-18''" for h
    by (simp add: windows_sid_def sample_windows_def del: list.map)
  moreover have "open_process sample_windows 7 s = Ok 1" "creation_time sample_windows h s = Ok (27111902, 3578063008)"
      "wait_for sample_windows 1 s = WAIT_TIMEOUT" for h s
    by (simp_all add: sample_windows_def)
  ultimately show ?thesis by (simp add: windows_open_def check_pid_def windows_is_alive_def sample_creation Let_def)
qed

end
