(* ===== verification/Listener.thy ===== *)
theory Listener
  imports Owner
begin

text \<open>
  The listening endpoint: ipc/unix.rs (a socket in a directory of its own) and ipc/windows.rs (a named
  pipe). File system and pipe calls are parameters on a system state. What \<^verbatim>\<open>Drop\<close> does is written
  out where a value is dropped.
\<close>

section \<open>Definitions\<close>

subsection \<open>Unix sockets\<close>

record 'os socket_ops =
  make_dir :: "path \<Rightarrow> nat \<Rightarrow> 'os \<Rightarrow> (unit, io_error) result \<times> 'os"
  bind_socket :: "path \<Rightarrow> 'os \<Rightarrow> (unit, io_error) result \<times> 'os"
  set_permissions :: "path \<Rightarrow> nat \<Rightarrow> 'os \<Rightarrow> (unit, io_error) result \<times> 'os"
  effective_uid :: "'os \<Rightarrow> 32 word"
  change_owner :: "path \<Rightarrow> 32 word \<Rightarrow> 'os \<Rightarrow> (unit, io_error) result \<times> 'os"
  remove_file :: "path \<Rightarrow> 'os \<Rightarrow> (unit, io_error) result \<times> 'os"
  remove_dir :: "path \<Rightarrow> 'os \<Rightarrow> (unit, io_error) result \<times> 'os"

record local_listener =
  socket_path :: path
  socket_directory :: path

definition other_error :: "string \<Rightarrow> io_error" where
  "other_error m = IoError OtherKind m"

text \<open>The endpoint must name a file directly in a directory of /tmp whose name has the prefix of the program.\<close>

definition endpoint_paths :: "string \<Rightarrow> (path \<times> path, io_error) result" where
  "endpoint_paths endpoint =
     (let p = path_components endpoint
      in (case path_parent p of
            None \<Rightarrow> Err (other_error ''missing socket directory'')
          | Some parent \<Rightarrow>
              if path_parent parent \<noteq> Some (path_components ''/tmp'') \<or>
                 \<not> starts_with ''wg-kotlin-'' (case file_name parent of Some n \<Rightarrow> n | None \<Rightarrow> [])
              then Err (other_error ''IPC socket requires its own /tmp/wg-kotlin-* directory'')
              else Ok (p, parent)))"

text \<open>Dropping the listener removes the socket and then the directory; errors are ignored.\<close>

definition drop_directory :: "'os socket_ops \<Rightarrow> path \<Rightarrow> 'os \<Rightarrow> 'os" where
  "drop_directory X d s = snd (remove_dir X d s)"

definition drop_listener :: "'os socket_ops \<Rightarrow> local_listener \<Rightarrow> 'os \<Rightarrow> 'os" where
  "drop_listener X l s = drop_directory X (socket_directory l) (snd (remove_file X (socket_path l) s))"

text \<open>The permissions and the owner of a bound socket. A byte zero in the endpoint is no C string.\<close>

definition has_nul :: "string \<Rightarrow> bool" where
  "has_nul s \<longleftrightarrow> char_of (0 :: nat) \<in> set s"

definition nul_error :: io_error where
  "nul_error = IoError InvalidInput ''data provided contains a nul byte''"

definition give_to_owner :: "'os socket_ops \<Rightarrow> string \<Rightarrow> 32 word \<Rightarrow> local_listener \<Rightarrow> 'os \<Rightarrow> (unit, io_error) result \<times> 'os" where
  "give_to_owner X endpoint u l s =
     (if effective_uid X s \<noteq> 0 then (Ok (), s)
      else if has_nul endpoint then (Err nul_error, s)
      else change_owner X (socket_path l) u s)"

definition protect :: "'os socket_ops \<Rightarrow> string \<Rightarrow> 32 word \<Rightarrow> local_listener \<Rightarrow> 'os \<Rightarrow> (unit, io_error) result \<times> 'os" where
  "protect X endpoint u l s =
     (case set_permissions X (socket_path l) 384 s of
        (Err e, s) \<Rightarrow> (Err e, s)
      | (Ok _, s) \<Rightarrow>
          (case give_to_owner X endpoint u l s of
             (Err e, s) \<Rightarrow> (Err e, s)
           | (Ok _, s) \<Rightarrow> set_permissions X (socket_directory l) 457 s))"

definition unix_bind ::
    "'os socket_ops \<Rightarrow> string \<Rightarrow> 32 word \<Rightarrow> 'os \<Rightarrow> (local_listener, io_error) result \<times> 'os" where
  "unix_bind X endpoint u s =
     (case endpoint_paths endpoint of
        Err e \<Rightarrow> (Err e, s)
      | Ok (p, parent) \<Rightarrow>
          (case make_dir X parent 448 s of
             (Err e, s) \<Rightarrow> (Err e, s)
           | (Ok _, s) \<Rightarrow>
               (case bind_socket X p s of
                  (Err e, s) \<Rightarrow> (Err e, drop_directory X parent s)
                | (Ok _, s) \<Rightarrow>
                    let l = \<lparr>socket_path = p, socket_directory = parent\<rparr>
                    in (case protect X endpoint u l s of
                          (Err e, s) \<Rightarrow> (Err e, drop_listener X l s)
                        | (Ok _, s) \<Rightarrow> (Ok l, s)))))"

text \<open>
  The number of the peer of an accepted connection. On Linux the credentials may be missing or have no
  number; on macOS the socket option may fail or have another size. Zero stands for an unknown peer.
\<close>

definition linux_peer_pid :: "(32 word option, io_error) result \<Rightarrow> 32 word" where
  "linux_peer_pid cred =
     (case cred of Ok (Some p) \<Rightarrow> if 0 < sint p then ucast p else 0 | _ \<Rightarrow> 0)"

definition macos_peer_pid :: "int \<Rightarrow> nat \<Rightarrow> 32 word \<Rightarrow> 32 word" where
  "macos_peer_pid rc len p = (if rc = 0 \<and> len = 4 \<and> 0 < sint p then ucast p else 0)"

subsection \<open>Windows pipes\<close>

record ('p, 'os) pipe_ops =
  convert_descriptor :: "string \<Rightarrow> 'os \<Rightarrow> (nat, io_error) result"
  create_pipe :: "bool \<Rightarrow> string \<Rightarrow> nat \<Rightarrow> 'os \<Rightarrow> ('p, io_error) result \<times> 'os"
  connect_pipe :: "'p \<Rightarrow> 'os \<Rightarrow> (unit, io_error) result \<times> 'os"
  client_pid :: "'p \<Rightarrow> 'os \<Rightarrow> 32 word option"

record 'p pipe_listener =
  endpoint :: string
  pipe_sid :: string
  pending :: 'p

text \<open>
  The access list: the system, the administrators and the owner's account. The first argument of
  \<open>create_pipe\<close> says whether this must be the first instance; remote clients are always rejected.
\<close>

definition pipe_sddl :: "string \<Rightarrow> string" where
  "pipe_sddl account = ''D:P(A;;GA;;;SY)(A;;GA;;;BA)(A;;GRGW;;;'' @ account @ '')S:(ML;;NW;;;ME)''"

definition create :: "('p, 'os) pipe_ops \<Rightarrow> string \<Rightarrow> string \<Rightarrow> bool \<Rightarrow> 'os \<Rightarrow> ('p, io_error) result \<times> 'os" where
  "create X ep account first_instance s =
     (case convert_descriptor X (pipe_sddl account) s of
        Err e \<Rightarrow> (Err e, s)
      | Ok d \<Rightarrow> create_pipe X first_instance ep d s)"

definition pipe_prefix :: string where
  "pipe_prefix = [CHR 0x5C, CHR 0x5C, CHR ''.'', CHR 0x5C] @ ''pipe'' @ [CHR 0x5C] @ ''wg-kotlin-''"

definition windows_bind ::
    "('p, 'os) pipe_ops \<Rightarrow> string \<Rightarrow> 'h windows_owner \<Rightarrow> 'os \<Rightarrow> ('p pipe_listener, io_error) result \<times> 'os" where
  "windows_bind X ep owner s =
     (if \<not> starts_with pipe_prefix ep then (Err (other_error ''invalid local named pipe endpoint''), s)
      else (case create X ep (sid owner) True s of
              (Err e, s) \<Rightarrow> (Err e, s)
            | (Ok p, s) \<Rightarrow> (Ok \<lparr>endpoint = ep, pipe_sid = sid owner, pending = p\<rparr>, s)))"

definition disconnected :: "io_error \<Rightarrow> bool" where
  "disconnected e = (case e of OsError n \<Rightarrow> n \<in> {109, 232, 233} | IoError _ _ \<Rightarrow> False)"

text \<open>
  The loop of \<^verbatim>\<open>accept\<close> that waits for a client: a client that is already gone is replaced by a new instance. It runs as long as clients
  vanish, so it need not end; \<^term>\<open>None\<close> is a run that does not.
\<close>

partial_function (option) pipe_connect ::
    "('p, 'os) pipe_ops \<Rightarrow> 'p pipe_listener \<Rightarrow> 'os \<Rightarrow> ((unit, io_error) result \<times> 'p pipe_listener \<times> 'os) option" where
  "pipe_connect X l s =
     (case connect_pipe X (pending l) s of
        (Ok _, s) \<Rightarrow> Some (Ok (), l, s)
      | (Err e, s) \<Rightarrow>
          if disconnected e
          then (case create X (endpoint l) (pipe_sid l) False s of
                  (Err e, s) \<Rightarrow> Some (Err e, l, s)
                | (Ok p, s) \<Rightarrow> pipe_connect X (l\<lparr>pending := p\<rparr>) s)
          else Some (Err e, l, s))"

text \<open>The rest of \<^verbatim>\<open>accept\<close>: the next instance is created before the connected one is handed out.\<close>

definition take_client ::
    "('p, 'os) pipe_ops \<Rightarrow> 'p pipe_listener \<Rightarrow> 'os \<Rightarrow> ('p \<times> 32 word, io_error) result \<times> 'p pipe_listener \<times> 'os" where
  "take_client X l s =
     (case create X (endpoint l) (pipe_sid l) False s of
        (Err e, s) \<Rightarrow> (Err e, l, s)
      | (Ok next, s) \<Rightarrow>
          let stream = pending l
          in (Ok (stream, case client_pid X stream s of Some p \<Rightarrow> p | None \<Rightarrow> 0), l\<lparr>pending := next\<rparr>, s))"

definition pipe_accept ::
    "('p, 'os) pipe_ops \<Rightarrow> 'p pipe_listener \<Rightarrow> 'os \<Rightarrow>
       (('p \<times> 32 word, io_error) result \<times> 'p pipe_listener \<times> 'os) option" where
  "pipe_accept X l s =
     (case pipe_connect X l s of
        None \<Rightarrow> None
      | Some (Err e, l, s) \<Rightarrow> Some (Err e, l, s)
      | Some (Ok _, l, s) \<Rightarrow> Some (take_client X l s))"

subsection \<open>Specification\<close>

record file_node =
  is_dir :: bool
  mode :: nat
  owned_by :: "32 word"

text \<open>What a call does to the files: its effect if it succeeds, and nothing otherwise.\<close>

definition effect ::
    "('os \<Rightarrow> path \<Rightarrow> file_node option) \<Rightarrow> 'os \<Rightarrow> (unit, io_error) result \<times> 'os \<Rightarrow>
       ((path \<Rightarrow> file_node option) \<Rightarrow> (path \<Rightarrow> file_node option) \<Rightarrow> bool) \<Rightarrow> bool" where
  "effect look s rs E = (if is_ok (fst rs) then E (look s) (look (snd rs)) else look (snd rs) = look s)"

definition socket_kernel :: "'os socket_ops \<Rightarrow> ('os \<Rightarrow> path \<Rightarrow> file_node option) \<Rightarrow> bool" where
  "socket_kernel X look \<longleftrightarrow>
     (\<forall>p m s. effect look s (make_dir X p m s)
        (\<lambda>f f'. f p = None \<and> f' = f(p \<mapsto> \<lparr>is_dir = True, mode = m, owned_by = effective_uid X s\<rparr>))) \<and>
     (\<forall>p s. effect look s (bind_socket X p s)
        (\<lambda>f f'. f p = None \<and> (\<exists>m. f' = f(p \<mapsto> \<lparr>is_dir = False, mode = m, owned_by = effective_uid X s\<rparr>)))) \<and>
     (\<forall>p m s. effect look s (set_permissions X p m s) (\<lambda>f f'. \<exists>n. f p = Some n \<and> f' = f(p \<mapsto> n\<lparr>mode := m\<rparr>))) \<and>
     (\<forall>p u s. effect look s (change_owner X p u s) (\<lambda>f f'. \<exists>n. f p = Some n \<and> f' = f(p \<mapsto> n\<lparr>owned_by := u\<rparr>))) \<and>
     (\<forall>p s n. look s p = Some n \<and> \<not> is_dir n \<longrightarrow> look (snd (remove_file X p s)) = (look s)(p := None)) \<and>
     (\<forall>d s n. look s d = Some n \<and> is_dir n \<and> (\<forall>q. path_parent q = Some d \<longrightarrow> look s q = None) \<longrightarrow>
        look (snd (remove_dir X d s)) = (look s)(d := None)) \<and>
     (\<forall>p m s. effective_uid X (snd (make_dir X p m s)) = effective_uid X s) \<and>
     (\<forall>p s. effective_uid X (snd (bind_socket X p s)) = effective_uid X s) \<and>
     (\<forall>p m s. effective_uid X (snd (set_permissions X p m s)) = effective_uid X s)"

text \<open>Every file lies in a directory that exists.\<close>

definition file_tree :: "(path \<Rightarrow> file_node option) \<Rightarrow> bool" where
  "file_tree f \<longleftrightarrow> (\<forall>q d. path_parent q = Some d \<and> f q \<noteq> None \<longrightarrow> f d \<noteq> None)"

text \<open>The loop that waits for a client is over after at most the given number of attempts.\<close>

fun ends_within :: "('p, 'os) pipe_ops \<Rightarrow> nat \<Rightarrow> 'p pipe_listener \<Rightarrow> 'os \<Rightarrow> bool" where
  "ends_within X 0 l s = False"
| "ends_within X (Suc n) l s =
     (case connect_pipe X (pending l) s of
        (Ok _, s) \<Rightarrow> True
      | (Err e, s) \<Rightarrow>
          \<not> disconnected e \<or>
          (case create X (endpoint l) (pipe_sid l) False s of
             (Err e, s) \<Rightarrow> True
           | (Ok p, s) \<Rightarrow> ends_within X n (l\<lparr>pending := p\<rparr>) s))"

text \<open>A file system for the examples, which is its own state; the daemon runs as root.\<close>

definition sample_files :: "(path \<Rightarrow> file_node option) socket_ops" where
  "sample_files =
     \<lparr>make_dir = (\<lambda>p m f. if f p = None then (Ok (), f(p \<mapsto> \<lparr>is_dir = True, mode = m, owned_by = 0\<rparr>)) else (Err (OsError 17), f)),
      bind_socket = (\<lambda>p f. if f p = None then (Ok (), f(p \<mapsto> \<lparr>is_dir = False, mode = 493, owned_by = 0\<rparr>)) else (Err (OsError 98), f)),
      set_permissions = (\<lambda>p m f. case f p of Some n \<Rightarrow> (Ok (), f(p \<mapsto> n\<lparr>mode := m\<rparr>)) | None \<Rightarrow> (Err (OsError 2), f)),
      effective_uid = (\<lambda>f. 0),
      change_owner = (\<lambda>p u f. case f p of Some n \<Rightarrow> (Ok (), f(p \<mapsto> n\<lparr>owned_by := u\<rparr>)) | None \<Rightarrow> (Err (OsError 2), f)),
      remove_file = (\<lambda>p f. (Ok (), f(p := None))),
      remove_dir = (\<lambda>p f. (Ok (), f(p := None)))\<rparr>"

text \<open>Pipes for the examples: they are numbered by the state, and the first clients vanish.\<close>

definition sample_pipes :: "(nat, nat) pipe_ops" where
  "sample_pipes =
     \<lparr>convert_descriptor = (\<lambda>t s. Ok 0),
      create_pipe = (\<lambda>f e d s. (Ok s, s + 1)),
      connect_pipe = (\<lambda>p s. if p < 2 then (Err (OsError 232), s) else (Ok (), s)),
      client_pid = (\<lambda>p s. Some 7)\<rparr>"

section \<open>Lemmas\<close>

lemma path_parent_Some: "path_parent p = Some d \<longleftrightarrow> (\<exists>c. c \<noteq> RootDir \<and> p = d @ [c])"
  by (cases p rule: rev_cases) (auto simp: path_parent_def)

lemma path_parent_neq: "path_parent p = Some d \<Longrightarrow> p \<noteq> d"
  by (auto simp: path_parent_Some)

lemma tmp_components: "path_components ''/tmp'' = [RootDir, Normal ''tmp'']"
  by (simp add: path_components_def)

lemma endpoint_paths_Ok:
  assumes "endpoint_paths ep = Ok (p, d)"
  shows "p = path_components ep \<and> path_parent p = Some d \<and>
    (\<exists>name c. d = [RootDir, Normal ''tmp'', Normal (''wg-kotlin-'' @ name)] \<and> p = d @ [c])"
proof -
  have p: "p = path_components ep" "path_parent p = Some d" "path_parent d = Some [RootDir, Normal ''tmp'']"
    "starts_with ''wg-kotlin-'' (case file_name d of Some n \<Rightarrow> n | None \<Rightarrow> [])"
    using assms by (auto simp: endpoint_paths_def Let_def tmp_components split: option.splits if_splits)
  obtain c where c: "d = [RootDir, Normal ''tmp''] @ [c]" using p(3) by (auto simp: path_parent_Some)
  obtain r where "(case file_name d of Some n \<Rightarrow> n | None \<Rightarrow> []) = ''wg-kotlin-'' @ r"
    using p(4) by (auto simp: starts_with_iff)
  then have "c = Normal (''wg-kotlin-'' @ r)"
    using c by (auto simp: file_name_def split: component.splits)
  then show ?thesis using p(1,2) c by (auto simp: path_parent_Some)
qed

lemma unix_kernel_laws:
  assumes "socket_kernel X look"
  shows "effect look s (make_dir X p m s)
      (\<lambda>f f'. f p = None \<and> f' = f(p \<mapsto> \<lparr>is_dir = True, mode = m, owned_by = effective_uid X s\<rparr>))"
    and "effect look s (bind_socket X p s)
      (\<lambda>f f'. f p = None \<and> (\<exists>m. f' = f(p \<mapsto> \<lparr>is_dir = False, mode = m, owned_by = effective_uid X s\<rparr>)))"
    and "effect look s (set_permissions X p m s) (\<lambda>f f'. \<exists>n. f p = Some n \<and> f' = f(p \<mapsto> n\<lparr>mode := m\<rparr>))"
    and "effect look s (change_owner X p u s) (\<lambda>f f'. \<exists>n. f p = Some n \<and> f' = f(p \<mapsto> n\<lparr>owned_by := u\<rparr>))"
    and "look s p = Some n \<Longrightarrow> \<not> is_dir n \<Longrightarrow> look (snd (remove_file X p s)) = (look s)(p := None)"
    and "look s p = Some n \<Longrightarrow> is_dir n \<Longrightarrow> \<forall>q. path_parent q = Some p \<longrightarrow> look s q = None \<Longrightarrow>
           look (snd (remove_dir X p s)) = (look s)(p := None)"
    and "effective_uid X (snd (make_dir X p m s)) = effective_uid X s"
    and "effective_uid X (snd (bind_socket X p s)) = effective_uid X s"
    and "effective_uid X (snd (set_permissions X p m s)) = effective_uid X s"
  using assms by (simp_all add: socket_kernel_def)

text \<open>A directory and a socket in it that are the only difference to \<open>f\<close> are removed by dropping the listener.\<close>

lemma drop_listener_restores:
  assumes "socket_kernel X look" and "path_parent p = Some d" and "\<And>q. path_parent q = Some d \<Longrightarrow> f q = None"
    and "f d = None" and "look s = f(d \<mapsto> nd, p \<mapsto> np)" and "is_dir nd" and "\<not> is_dir np"
  shows "look (drop_listener X \<lparr>socket_path = p, socket_directory = d\<rparr> s) = f"
proof -
  let ?s = "snd (remove_file X p s)"
  have pd: "p \<noteq> d" using path_parent_neq [OF assms(2)] .
  have fp: "f p = None" using assms(2,3) by blast
  have "look ?s = (look s)(p := None)"
    using unix_kernel_laws(5) [OF assms(1), of s p np] assms(5,7) by simp
  then have s: "look ?s = f(d \<mapsto> nd)" using assms(5) fp pd by auto
  have "\<forall>q. path_parent q = Some d \<longrightarrow> look ?s q = None"
    using s assms(3) path_parent_neq by fastforce
  then have "look (snd (remove_dir X d ?s)) = (look ?s)(d := None)"
    using unix_kernel_laws(6) [OF assms(1), of ?s d nd] s assms(6) by simp
  then show ?thesis using s assms(4) by (auto simp: drop_listener_def drop_directory_def)
qed

text \<open>Protecting the socket changes only modes and owners, and all of them if it succeeds.\<close>

lemma set_permissions_at:
  assumes "socket_kernel X look" and "look s p = Some n" and "set_permissions X p m s = (r, s')"
  shows "if is_ok r then look s' = (look s)(p \<mapsto> n\<lparr>mode := m\<rparr>) else look s' = look s"
  using unix_kernel_laws(3) [OF assms(1), of s p m] assms(2,3) by (auto simp: effect_def split: if_splits)

lemma give_to_owner_at:
  assumes "socket_kernel X look" and "look s (socket_path l) = Some n" and "give_to_owner X ep u l s = (r, s')"
  shows "\<exists>n'. look s' = (look s)(socket_path l \<mapsto> n') \<and> is_dir n' = is_dir n \<and> mode n' = mode n \<and>
    (is_ok r \<and> effective_uid X s = 0 \<longrightarrow> owned_by n' = u)"
proof (cases "effective_uid X s = 0 \<and> \<not> has_nul ep")
  case False
  then have "s' = s" "is_ok r \<longrightarrow> effective_uid X s \<noteq> 0" using assms(3) by (auto simp: give_to_owner_def split: if_splits)
  then show ?thesis using assms(2) by (intro exI [of _ n]) auto
next
  case True
  then have "change_owner X (socket_path l) u s = (r, s')" using assms(3) by (simp add: give_to_owner_def)
  then have "if is_ok r then look s' = (look s)(socket_path l \<mapsto> n\<lparr>owned_by := u\<rparr>) else look s' = look s"
    using unix_kernel_laws(4) [OF assms(1), of s "socket_path l" u] assms(2) by (auto simp: effect_def split: if_splits)
  then show ?thesis
    using assms(2) by (intro exI [of _ "if is_ok r then n\<lparr>owned_by := u\<rparr> else n"]) (auto split: if_splits)
qed

lemma protect_at:
  assumes "socket_kernel X look" and "d \<noteq> p" and "look s = f(d \<mapsto> nd, p \<mapsto> np)"
    and "protect X ep u \<lparr>socket_path = p, socket_directory = d\<rparr> s = (r, s')"
  shows "\<exists>nd' np'. look s' = f(d \<mapsto> nd', p \<mapsto> np') \<and> is_dir nd' = is_dir nd \<and> is_dir np' = is_dir np \<and>
    (is_ok r \<longrightarrow> mode nd' = 457 \<and> owned_by nd' = owned_by nd \<and> mode np' = 384 \<and> (effective_uid X s = 0 \<longrightarrow> owned_by np' = u))"
proof -
  let ?l = "\<lparr>socket_path = p, socket_directory = d\<rparr>"
  obtain r1 s1 where c1: "set_permissions X p 384 s = (r1, s1)" by fastforce
  have l1: "if is_ok r1 then look s1 = f(d \<mapsto> nd, p \<mapsto> np\<lparr>mode := 384\<rparr>) else look s1 = look s"
    using set_permissions_at [OF assms(1) _ c1, of np] assms(3) by (simp split: if_splits)
  show ?thesis
  proof (cases r1)
    case (Err e)
    then have "r = Err e" "s' = s1" using assms(4) c1 by (simp_all add: protect_def)
    then show ?thesis using l1 Err assms(3) by auto
  next
    case (Ok x)
    have e1: "effective_uid X s1 = effective_uid X s" using unix_kernel_laws(9) [OF assms(1), of p 384 s] c1 by simp
    obtain r2 s2 where c2: "give_to_owner X ep u ?l s1 = (r2, s2)" by fastforce
    obtain n2 where l2: "look s2 = f(d \<mapsto> nd, p \<mapsto> n2)" "is_dir n2 = is_dir np" "mode n2 = 384"
        "is_ok r2 \<and> effective_uid X s = 0 \<longrightarrow> owned_by n2 = u"
      using give_to_owner_at [OF assms(1) _ c2, of "np\<lparr>mode := 384\<rparr>"] l1 Ok e1 by (auto split: if_splits)
    show ?thesis
    proof (cases r2)
      case (Err e)
      then have "r = Err e" "s' = s2" using assms(4) c1 Ok c2 by (simp_all add: protect_def)
      then show ?thesis using l2 by auto
    next
      case (Ok y)
      have c3: "set_permissions X d 457 s2 = (r, s')" using assms(4) c1 \<open>r1 = Ok x\<close> c2 Ok by (simp add: protect_def)
      have "if is_ok r then look s' = f(d \<mapsto> nd\<lparr>mode := 457\<rparr>, p \<mapsto> n2) else look s' = look s2"
        using set_permissions_at [OF assms(1) _ c3, of nd] l2(1) assms(2) by (simp add: fun_upd_twist split: if_splits)
      then show ?thesis using l2 Ok by (intro exI [of _ "if is_ok r then nd\<lparr>mode := 457\<rparr> else nd"] exI [of _ n2]) (simp split: if_splits)
    qed
  qed
qed

lemma sample_socket_kernel: "socket_kernel sample_files (\<lambda>f. f)"
proof -
  have "f(p := Some n) = f(p \<mapsto> n)" for f :: "path \<Rightarrow> file_node option" and p n by simp
  then show ?thesis
    unfolding socket_kernel_def by (auto simp: sample_files_def effect_def split: option.splits)
qed

lemma pipe_connect_ends: "ends_within X n l s \<Longrightarrow> pipe_connect X l s \<noteq> None"
proof (induction n arbitrary: l s)
  case (Suc n)
  show ?case
  proof (cases "connect_pipe X (pending l) s")
    case (Pair r s1)
    show ?thesis
    proof (cases r)
      case (Ok u)
      then show ?thesis using Pair by (subst pipe_connect.simps) simp
    next
      case (Err e)
      obtain c s2 where c: "create X (endpoint l) (pipe_sid l) False s1 = (c, s2)" by fastforce
      show ?thesis
        using Suc Pair Err c by (subst pipe_connect.simps) (cases c; simp split: if_splits)
    qed
  qed
qed simp

lemma pipe_connect_ended: "pipe_connect X l s = Some r \<Longrightarrow> \<exists>n. ends_within X n l s"
proof (induction rule: pipe_connect.raw_induct [rotated 1, consumes 1, case_names 1])
  case (1 f X l s r)
  show ?case
  proof (cases "connect_pipe X (pending l) s")
    case (Pair q s1)
    show ?thesis
    proof (cases q)
      case (Ok u)
      then have "ends_within X 1 l s" using Pair by simp
      then show ?thesis by blast
    next
      case (Err e)
      show ?thesis
      proof (cases "disconnected e")
        case False
        then have "ends_within X 1 l s" using Pair Err by simp
        then show ?thesis by blast
      next
        case True
        obtain c s2 where c: "create X (endpoint l) (pipe_sid l) False s1 = (c, s2)" by fastforce
        show ?thesis
        proof (cases c)
          case (Err e')
          then have "ends_within X 1 l s" using Pair \<open>q = Err e\<close> c by simp
          then show ?thesis by blast
        next
          case (Ok p)
          then have "f X (l\<lparr>pending := p\<rparr>) s2 = Some r" using 1(2) Pair Err True c by simp
          then obtain n where "ends_within X n (l\<lparr>pending := p\<rparr>) s2" using 1(1) by blast
          then have "ends_within X (Suc n) l s" using Pair Err c Ok by simp
          then show ?thesis by blast
        qed
      qed
    qed
  qed
qed

lemma pipe_connect_keeps:
  "pipe_connect X l s = Some r \<Longrightarrow> endpoint (fst (snd r)) = endpoint l \<and> pipe_sid (fst (snd r)) = pipe_sid l"
proof (induction rule: pipe_connect.raw_induct [rotated 1, consumes 1, case_names 1])
  case (1 f X l s r)
  then show ?case
    by (auto split: prod.splits result.splits if_splits)
qed

lemma pipe_accept_eq:
  "pipe_accept X l s =
     map_option (\<lambda>(r, l, s). case r of Err e \<Rightarrow> (Err e, l, s) | Ok _ \<Rightarrow> take_client X l s) (pipe_connect X l s)"
proof (cases "pipe_connect X l s")
  case (Some t)
  obtain r l1 s1 where "t = (r, l1, s1)" by (cases t)
  with Some show ?thesis by (cases r) (simp_all add: pipe_accept_def)
qed (simp add: pipe_accept_def)

section \<open>Properties\<close>

text \<open>
  C34: Binding the socket is all or nothing. If it fails, at whatever call, the files are as before. If it
  succeeds, the endpoint lies in a directory of /tmp with the program's prefix; neither existed before; the
  directory can be entered but not listed by others, the socket is accessible to its owner alone, which
  for a daemon with root privileges is the given user; no other file has changed; and dropping the
  listener restores the files as they were.
\<close>

theorem unix_bind_exact:
  assumes "socket_kernel X look" and "file_tree (look s)" and "unix_bind X ep u s = (r, s')"
  shows "case r of
      Err e \<Rightarrow> look s' = look s
    | Ok l \<Rightarrow>
        (\<exists>name c nd np. socket_directory l = [RootDir, Normal ''tmp'', Normal (''wg-kotlin-'' @ name)] \<and>
           socket_path l = path_components ep \<and> socket_path l = socket_directory l @ [c] \<and>
           look s (socket_directory l) = None \<and> look s (socket_path l) = None \<and>
           look s' = (look s)(socket_directory l \<mapsto> nd, socket_path l \<mapsto> np) \<and>
           is_dir nd \<and> mode nd = 457 \<and> \<not> is_dir np \<and> mode np = 384 \<and> (effective_uid X s = 0 \<longrightarrow> owned_by np = u)) \<and>
        look (drop_listener X l s') = look s"
proof (cases "endpoint_paths ep")
  case (Err e)
  then have "r = Err e" "s' = s" using assms(3) by (simp_all add: unix_bind_def)
  then show ?thesis by simp
next
  case (Ok pd)
  obtain p d where pd: "pd = (p, d)" by fastforce
  note paths = endpoint_paths_Ok [OF Ok [unfolded pd]]
  obtain r1 s1 where c1: "make_dir X d 448 s = (r1, s1)" by fastforce
  note l1 = unix_kernel_laws(1) [OF assms(1), of s d 448, unfolded c1]
  show ?thesis
  proof (cases r1)
    case (Err e)
    then have "r = Err e" "s' = s1" using assms(3) Ok pd c1 by (simp_all add: unix_bind_def)
    then show ?thesis using l1 Err by (simp add: effect_def)
  next
    case (Ok x)
    let ?nd = "\<lparr>is_dir = True, mode = 448, owned_by = effective_uid X s\<rparr>"
    have d: "look s d = None" "look s1 = (look s)(d \<mapsto> ?nd)" using l1 Ok by (simp_all add: effect_def)
    have empty: "look s q = None" if "path_parent q = Some d" for q
      using assms(2) d(1) that unfolding file_tree_def by blast
    obtain r2 s2 where c2: "bind_socket X p s1 = (r2, s2)" by fastforce
    note l2 = unix_kernel_laws(2) [OF assms(1), of s1 p, unfolded c2]
    have e2: "effective_uid X s2 = effective_uid X s"
      using unix_kernel_laws(7) [OF assms(1), of d 448 s] unix_kernel_laws(8) [OF assms(1), of p s1] c1 c2 by simp
    show ?thesis
    proof (cases r2)
      case (Err e)
      then have r: "r = Err e" "s' = drop_directory X d s2"
        using assms(3) \<open>endpoint_paths ep = Ok pd\<close> pd c1 Ok c2 by (simp_all add: unix_bind_def)
      have "look s2 = (look s)(d \<mapsto> ?nd)" using l2 Err d(2) by (simp add: effect_def)
      moreover from this have "\<forall>q. path_parent q = Some d \<longrightarrow> look s2 q = None" using empty path_parent_neq by fastforce
      ultimately have "look s' = ((look s)(d \<mapsto> ?nd))(d := None)"
        using unix_kernel_laws(6) [OF assms(1), of s2 d ?nd] r(2) by (simp add: drop_directory_def)
      then show ?thesis using r(1) d(1) by auto
    next
      case (Ok y)
      then obtain m where m: "look s2 = (look s1)(p \<mapsto> \<lparr>is_dir = False, mode = m, owned_by = effective_uid X s1\<rparr>)"
        using l2 by (auto simp: effect_def)
      define np where "np = \<lparr>is_dir = False, mode = m, owned_by = effective_uid X s1\<rparr>"
      have np: "\<not> is_dir np" "look s2 = (look s)(d \<mapsto> ?nd, p \<mapsto> np)" using m d(2) by (simp_all add: np_def)
      let ?l = "\<lparr>socket_path = p, socket_directory = d\<rparr>"
      obtain r3 s3 where c3: "protect X ep u ?l s2 = (r3, s3)" by fastforce
      have dp: "d \<noteq> p" using paths path_parent_neq by blast
      obtain nd' np' where s3: "look s3 = (look s)(d \<mapsto> nd', p \<mapsto> np')" "is_dir nd'" "\<not> is_dir np'"
          "is_ok r3 \<longrightarrow> mode nd' = 457 \<and> owned_by nd' = effective_uid X s \<and> mode np' = 384 \<and> (effective_uid X s = 0 \<longrightarrow> owned_by np' = u)"
        using protect_at [OF assms(1) dp np(2) c3] np(1) e2 by auto
      have restores: "look (drop_listener X ?l s3) = look s"
        using drop_listener_restores [OF assms(1) _ empty d(1) s3(1,2,3)] paths by blast
      have "unix_bind X ep u s = (case r3 of Err e \<Rightarrow> (Err e, drop_listener X ?l s3) | Ok _ \<Rightarrow> (Ok ?l, s3))"
        using \<open>endpoint_paths ep = Ok pd\<close> pd c1 \<open>r1 = Ok x\<close> c2 Ok c3 by (simp add: unix_bind_def Let_def split: result.split)
      then show ?thesis
        using assms(3) restores s3 paths empty d(1) by (cases r3) auto
    qed
  qed
qed

theorem unix_bind_exact_witness:
  "mode (the (snd (unix_bind sample_files ''/tmp/wg-kotlin-1/s'' 1000 (\<lambda>p. None)) (path_components ''/tmp/wg-kotlin-1/s''))) = 384"
proof -
  let ?r = "unix_bind sample_files ''/tmp/wg-kotlin-1/s'' 1000 (\<lambda>p. None)"
  have "endpoint_paths ''/tmp/wg-kotlin-1/s'' =
      Ok (path_components ''/tmp/wg-kotlin-1/s'', [RootDir, Normal ''tmp'', Normal ''wg-kotlin-1''])"
    by (simp add: endpoint_paths_def path_components_def path_parent_def file_name_def starts_with_def)
  moreover have "\<not> has_nul ''/tmp/wg-kotlin-1/s''" by (simp add: has_nul_def char_of_def bit_0)
  ultimately have ok: "is_ok (fst ?r)"
    by (simp add: unix_bind_def protect_def give_to_owner_def sample_files_def path_components_def)
  obtain r s' where r: "?r = (r, s')" by fastforce
  with ok obtain l where "r = Ok l" by (auto simp: is_ok_iff)
  moreover have "file_tree (\<lambda>p. None)" by (simp add: file_tree_def)
  ultimately show ?thesis
    using unix_bind_exact [OF sample_socket_kernel _ r] r by auto
qed



end
