(* ===== verification/Daemon.thy ===== *)
theory Daemon
  imports Listener Command Service Logging
begin

text \<open>
  The main function, main.rs: the start-up, the loop that accepts connections and watches the owner, and
  the drain at the end. What the loop's \<^verbatim>\<open>select!\<close> finds ready is a list of events, each with the system
  state at its moment; the owner check of the platform is an argument, with the contract of the locale
  \<open>owner_gate\<close>. The field \<open>log\<close> of a state holds the messages handed to the logger.
\<close>

section \<open>Definitions\<close>

record cli =
  cli_endpoint :: string
  cli_owner_pid :: "32 word"
  cli_owner_start_time :: "64 word"
  cli_log_path :: "string option"

subsection \<open>Privileges\<close>

definition unix_ensure_root :: "'os credential_ops \<Rightarrow> 'os \<Rightarrow> (unit, owner_error) result" where
  "unix_ensure_root C s =
     (if effective_uid_now C s \<noteq> 0
      then Err (OwnerError (''wg-kotlin-daemon requires root privileges on Unix (effective uid = '' @
             dec_str (unat (effective_uid_now C s)) @ '')''))
      else Ok ())"

text \<open>The elevation of the process token, as the Windows calls report it.\<close>

definition windows_ensure_root :: "(32 word, io_error) result \<Rightarrow> (unit, owner_error) result" where
  "windows_ensure_root elevation =
     and_then (map_err OwnerIo elevation) (\<lambda>e.
       if e \<noteq> 0 then Ok () else Err (OwnerError ''wg-kotlin-daemon requires Administrator privileges on Windows''))"

text \<open>On Unix the credentials are changed for the user of the owner that was opened.\<close>

definition unix_prepare_owner ::
    "'os credential_ops \<Rightarrow> (32 word \<Rightarrow> 64 word \<Rightarrow> ('h owner_process, owner_error) result) \<Rightarrow> cli \<Rightarrow> 'os \<Rightarrow>
       ('h owner_process, owner_error) result \<times> 'os" where
  "unix_prepare_owner C open_owner args s =
     (case unix_ensure_root C s of
        Err e \<Rightarrow> (Err e, s)
      | Ok _ \<Rightarrow>
          (case open_owner (cli_owner_pid args) (cli_owner_start_time args) of
             Err e \<Rightarrow> (Err e, s)
           | Ok owner \<Rightarrow>
               (case allow_owner_signals C (uid owner) s of
                  (Err e, s) \<Rightarrow> (Err e, s)
                | (Ok _, s) \<Rightarrow> (Ok owner, s))))"

definition windows_prepare_owner ::
    "(32 word, io_error) result \<Rightarrow> (32 word \<Rightarrow> 64 word \<Rightarrow> ('h windows_owner, owner_error) result) \<Rightarrow> cli \<Rightarrow>
       ('h windows_owner, owner_error) result" where
  "windows_prepare_owner elevation open_owner args =
     and_then (windows_ensure_root elevation) (\<lambda>_. open_owner (cli_owner_pid args) (cli_owner_start_time args))"

subsection \<open>The accept loop\<close>

datatype 'st loop_event =
    SignalArrived
  | ShutdownChanged
  | MonitorTick
  | ConnectionFailed "32 word" string
  | ConnectionJoined nat
  | Accepted 'st "32 word"
  | AcceptFailed io_error

text \<open>
  A task that serves a connection runs beside the loop. When \<^verbatim>\<open>serve_connection\<close> fails it logs the peer it was spawned for and
  the text of the error; this is the event \<open>ConnectionFailed\<close>.
  \<open>served\<close> are the connections that were handed to a task, in their order; \<open>connections\<close> those of them
  that have not been joined.
\<close>

record 'st daemon =
  served :: "('st \<times> 32 word) list"
  connections :: "('st \<times> 32 word) list"
  log :: "string list"

definition remove_nth :: "nat \<Rightarrow> 'a list \<Rightarrow> 'a list" where
  "remove_nth i xs = take i xs @ drop (Suc i) xs"

definition rejected_peer :: "32 word \<Rightarrow> string" where
  "rejected_peer p = ''connection rejected peer_pid='' @ dec_str (unat p)"

definition accepted_peer :: "32 word \<Rightarrow> string" where
  "accepted_peer p = ''connection accepted peer_pid='' @ dec_str (unat p)"

definition failed_peer :: "32 word \<Rightarrow> string \<Rightarrow> string" where
  "failed_peer p error = ''connection failed peer_pid='' @ dec_str (unat p) @ '': '' @ error"

fun accept_loop ::
    "('o \<Rightarrow> 'os \<Rightarrow> bool) \<Rightarrow> ('o \<Rightarrow> 32 word \<Rightarrow> 'os \<Rightarrow> bool) \<Rightarrow> 'o \<Rightarrow> ('st loop_event \<times> 'os) list \<Rightarrow> 'st daemon \<Rightarrow>
       (unit, io_error) result option \<times> 'st daemon" where
  "accept_loop is_alive authorizes owner [] d = (None, d)"
| "accept_loop is_alive authorizes owner ((e, s) # es) d =
     (case e of
        SignalArrived \<Rightarrow> (Some (Ok ()), d)
      | ShutdownChanged \<Rightarrow> (Some (Ok ()), d)
      | MonitorTick \<Rightarrow>
          if \<not> is_alive owner s then (Some (Ok ()), d) else accept_loop is_alive authorizes owner es d
      | ConnectionFailed peer_pid error \<Rightarrow>
          accept_loop is_alive authorizes owner es (d\<lparr>log := log d @ [failed_peer peer_pid error]\<rparr>)
      | ConnectionJoined i \<Rightarrow>
          accept_loop is_alive authorizes owner es (d\<lparr>connections := remove_nth i (connections d)\<rparr>)
      | AcceptFailed err \<Rightarrow> (Some (Err err), d)
      | Accepted stream peer_pid \<Rightarrow>
          if \<not> authorizes owner peer_pid s
          then accept_loop is_alive authorizes owner es (d\<lparr>log := log d @ [rejected_peer peer_pid]\<rparr>)
          else accept_loop is_alive authorizes owner es
                 (d\<lparr>log := log d @ [accepted_peer peer_pid], served := served d @ [(stream, peer_pid)],
                    connections := connections d @ [(stream, peer_pid)]\<rparr>))"

subsection \<open>The drain\<close>

text \<open>
  After the loop the connections are joined one by one, then the sessions are polled until none is
  active; four seconds after the start the timeout ends both. The result has the messages of connections that
  failed meanwhile.
\<close>

datatype drain_event = DrainFailed "32 word" string | DrainJoined nat | DrainPoll "string set" | DrainTimeout

fun drain :: "'c list \<Rightarrow> drain_event list \<Rightarrow> (bool \<times> string list) option" where
  "drain conns [] = None"
| "drain conns (e # es) =
     (case e of
        DrainTimeout \<Rightarrow> Some (False, [])
      | DrainFailed peer_pid error \<Rightarrow> map_option (apsnd ((#) (failed_peer peer_pid error))) (drain conns es)
      | DrainJoined i \<Rightarrow> drain (remove_nth i conns) es
      | DrainPoll active \<Rightarrow> if conns = [] \<and> active = {} then Some (True, []) else drain conns es)"

datatype 'e run_end = Returned "(unit, 'e) result" | ProcessExit int

text \<open>What the main function does besides serving, in its order.\<close>

datatype run_effect = LogLine string | ShutdownSent | ListenerDropped | LogFlushed

definition started_line :: "string \<Rightarrow> 32 word \<Rightarrow> string" where
  "started_line ep p = ''daemon started endpoint='' @ ep @ '' owner_pid='' @ dec_str (unat p)"

definition stopped_line :: "bool \<Rightarrow> string" where
  "stopped_line drained = ''daemon stopped sessions_drained='' @ (if drained then ''true'' else ''false'')"

text \<open>
  The run after the listener is bound. \<^term>\<open>None\<close> means that the events do not end the loop or the drain.
\<close>

definition finish_run ::
    "(io_error \<Rightarrow> string) \<Rightarrow> (unit, io_error) result \<Rightarrow> 'st daemon \<Rightarrow> drain_event list \<Rightarrow> (io_error run_end \<times> run_effect list) option" where
  "finish_run show result d des =
     (let effs = map LogLine (log d) @ [ShutdownSent] @
                 (case result of Ok _ \<Rightarrow> [] | Err e \<Rightarrow> [LogLine (''listener failed: '' @ show e)]) @ [ListenerDropped]
      in (case drain (connections d) des of
            None \<Rightarrow> None
          | Some (drained, msgs) \<Rightarrow>
              let effs = effs @ map LogLine msgs @ [LogLine (stopped_line drained)]
              in Some (if \<not> drained then (ProcessExit 1, effs @ [LogFlushed]) else (Returned result, effs))))"

definition run_bound ::
    "(io_error \<Rightarrow> string) \<Rightarrow> ('o \<Rightarrow> 'os \<Rightarrow> bool) \<Rightarrow> ('o \<Rightarrow> 32 word \<Rightarrow> 'os \<Rightarrow> bool) \<Rightarrow> 'o \<Rightarrow> 32 word \<Rightarrow> string \<Rightarrow>
       ('st loop_event \<times> 'os) list \<Rightarrow> drain_event list \<Rightarrow> (io_error run_end \<times> run_effect list) option" where
  "run_bound show is_alive authorizes owner p ep es des =
     (case accept_loop is_alive authorizes owner es \<lparr>served = [], connections = [], log = [started_line ep p]\<rparr> of
        (None, d) \<Rightarrow> None
      | (Some result, d) \<Rightarrow> finish_run show result d des)"

text \<open>
  Up to there: the required programs, on Windows the Wintun library, then the listener. \<open>wintun\<close> and
  \<open>bound\<close> are the results of these steps if they are reached.
\<close>

definition run ::
    "(io_error \<Rightarrow> string) \<Rightarrow> target_os \<Rightarrow> (string \<Rightarrow> bool) \<Rightarrow> (unit, string) result \<Rightarrow> ('l, io_error) result \<Rightarrow> ('o \<Rightarrow> 'os \<Rightarrow> bool) \<Rightarrow>
       ('o \<Rightarrow> 32 word \<Rightarrow> 'os \<Rightarrow> bool) \<Rightarrow> 'o \<Rightarrow> 32 word \<Rightarrow> string \<Rightarrow> ('st loop_event \<times> 'os) list \<Rightarrow> drain_event list \<Rightarrow>
       (string run_end \<times> run_effect list) option" where
  "run show os which wintun bound is_alive authorizes owner p ep es des =
     (case and_then (ensure_required_binaries which (required_binaries os)) (\<lambda>_. if os = Windows then wintun else Ok ()) of
        Err e \<Rightarrow> Some (Returned (Err e), [])
      | Ok _ \<Rightarrow>
          (case bound of
             Err e \<Rightarrow> Some (Returned (Err (show e)), [])
           | Ok listener \<Rightarrow>
               map_option (\<lambda>(r, effs). (case r of ProcessExit n \<Rightarrow> ProcessExit n | Returned q \<Rightarrow> Returned (map_err show q), effs))
                 (run_bound show is_alive authorizes owner p ep es des)))"

subsection \<open>The main function\<close>

datatype exit_code = ExitSuccess | ExitFailure | ExitWith int

text \<open>
  The owner is prepared before the logger and the runtime exist. \<open>logger\<close> is the result of opening the log, \<open>fallback\<close>
  that of opening the standard output for the message about it; the result has what was done with the logger that was opened.
\<close>

definition main ::
    "(io_error \<Rightarrow> string) \<Rightarrow> (owner_error \<Rightarrow> string) \<Rightarrow> ('o, owner_error) result \<Rightarrow> (unit, io_error) result \<Rightarrow> (unit, io_error) result \<Rightarrow>
       (unit, io_error) result \<Rightarrow> ('o \<Rightarrow> (string run_end \<times> run_effect list) option) \<Rightarrow> (exit_code \<times> run_effect list) option" where
  "main show show_owner owner logger fallback runtime run_owner =
     (case logger of
        Err e \<Rightarrow> Some (ExitFailure, if is_ok fallback then [LogLine (''cannot open log output: '' @ show e), LogFlushed] else [])
      | Ok _ \<Rightarrow>
          let failed = (\<lambda>text. [LogLine (''daemon failed: '' @ text), LogFlushed])
          in (case owner of
                Err e \<Rightarrow> Some (ExitFailure, failed (show_owner e))
              | Ok ow \<Rightarrow>
                  (case runtime of
                     Err e \<Rightarrow> Some (ExitFailure, failed (show e))
                   | Ok _ \<Rightarrow>
                       (case run_owner ow of
                          None \<Rightarrow> None
                        | Some (ProcessExit n, effs) \<Rightarrow> Some (ExitWith n, effs)
                        | Some (Returned (Ok _), effs) \<Rightarrow> Some (ExitSuccess, effs @ [LogFlushed])
                        | Some (Returned (Err text), effs) \<Rightarrow> Some (ExitFailure, effs @ failed text)))))"

subsection \<open>Specification\<close>

text \<open>The events that end the loop, with the result of the loop, and what the other events contribute.\<close>

fun ending :: "('o \<Rightarrow> 'os \<Rightarrow> bool) \<Rightarrow> 'o \<Rightarrow> 'st loop_event \<times> 'os \<Rightarrow> bool" where
  "ending is_alive owner (e, s) =
     (case e of SignalArrived \<Rightarrow> True | ShutdownChanged \<Rightarrow> True | MonitorTick \<Rightarrow> \<not> is_alive owner s
      | AcceptFailed _ \<Rightarrow> True | _ \<Rightarrow> False)"

fun loop_result :: "('st loop_event \<times> 'os) list \<Rightarrow> (unit, io_error) result option" where
  "loop_result [] = None"
| "loop_result ((e, s) # es) = Some (case e of AcceptFailed err \<Rightarrow> Err err | _ \<Rightarrow> Ok ())"

fun served_by :: "('o \<Rightarrow> 32 word \<Rightarrow> 'os \<Rightarrow> bool) \<Rightarrow> 'o \<Rightarrow> 'st loop_event \<times> 'os \<Rightarrow> ('st \<times> 32 word) list" where
  "served_by authorizes owner (Accepted stream p, s) = (if authorizes owner p s then [(stream, p)] else [])"
| "served_by authorizes owner _ = []"

fun logged_by :: "('o \<Rightarrow> 32 word \<Rightarrow> 'os \<Rightarrow> bool) \<Rightarrow> 'o \<Rightarrow> 'st loop_event \<times> 'os \<Rightarrow> string list" where
  "logged_by authorizes owner (Accepted stream p, s) =
     [if authorizes owner p s then accepted_peer p else rejected_peer p]"
| "logged_by authorizes owner (ConnectionFailed p error, s) = [failed_peer p error]"
| "logged_by authorizes owner _ = []"

definition before_end :: "('o \<Rightarrow> 'os \<Rightarrow> bool) \<Rightarrow> 'o \<Rightarrow> ('st loop_event \<times> 'os) list \<Rightarrow> ('st loop_event \<times> 'os) list" where
  "before_end is_alive owner es = takeWhile (\<lambda>e. \<not> ending is_alive owner e) es"

definition from_end :: "('o \<Rightarrow> 'os \<Rightarrow> bool) \<Rightarrow> 'o \<Rightarrow> ('st loop_event \<times> 'os) list \<Rightarrow> ('st loop_event \<times> 'os) list" where
  "from_end is_alive owner es = dropWhile (\<lambda>e. \<not> ending is_alive owner e) es"

definition idle :: "string list \<Rightarrow> 'st daemon" where
  "idle msgs = \<lparr>served = [], connections = [], log = msgs\<rparr>"

section \<open>Lemmas\<close>

lemma before_end_simps [simp]:
  "before_end is_alive owner [] = []"
  "before_end is_alive owner (e # es) = (if ending is_alive owner e then [] else e # before_end is_alive owner es)"
  by (simp_all add: before_end_def)

lemma from_end_simps [simp]:
  "from_end is_alive owner [] = []"
  "from_end is_alive owner (e # es) = (if ending is_alive owner e then e # es else from_end is_alive owner es)"
  by (simp_all add: from_end_def)

lemma accept_loop_eq:
  "fst (accept_loop is_alive authorizes owner es d) = loop_result (from_end is_alive owner es) \<and>
   served (snd (accept_loop is_alive authorizes owner es d)) =
     served d @ concat (map (served_by authorizes owner) (before_end is_alive owner es)) \<and>
   log (snd (accept_loop is_alive authorizes owner es d)) =
     log d @ concat (map (logged_by authorizes owner) (before_end is_alive owner es))"
proof (induction es arbitrary: d)
  case (Cons x es)
  obtain e s where x: "x = (e, s)" by fastforce
  show ?case using Cons.IH by (cases e) (simp_all add: x)
qed simp

lemma accept_loop_connections:
  "set (connections (snd (accept_loop is_alive authorizes owner es d))) \<subseteq>
     set (connections d) \<union> set (served (snd (accept_loop is_alive authorizes owner es d)))"
proof (induction es arbitrary: d)
  case (Cons x es)
  obtain e s where x: "x = (e, s)" by fastforce
  have r: "set (remove_nth i xs) \<subseteq> set xs" for i and xs :: "'d list"
    by (auto simp: remove_nth_def dest: in_set_takeD in_set_dropD)
  show ?case
  proof (cases e)
    case (ConnectionJoined i)
    then show ?thesis using Cons.IH [of "d\<lparr>connections := remove_nth i (connections d)\<rparr>"] r [of i "connections d"]
      by (auto simp: x)
  next
    case (ConnectionFailed p error)
    then show ?thesis using Cons.IH [of "d\<lparr>log := log d @ [failed_peer p error]\<rparr>"] by (simp add: x)
  next
    case (Accepted st p)
    let ?d = "d\<lparr>log := log d @ [accepted_peer p], served := served d @ [(st, p)], connections := connections d @ [(st, p)]\<rparr>"
    have "(st, p) \<in> set (served (snd (accept_loop is_alive authorizes owner es ?d)))"
      using accept_loop_eq [of is_alive authorizes owner es ?d] by simp
    then show ?thesis
      using Accepted Cons.IH [of "d\<lparr>log := log d @ [rejected_peer p]\<rparr>"] Cons.IH [of ?d] by (auto simp: x)
  qed (auto simp: x Cons.IH)
qed simp

lemma served_by_mem:
  "(stream, p) \<in> set (served_by authorizes owner x) \<longleftrightarrow>
     fst x = Accepted stream p \<and> authorizes owner p (snd x)"
  by (cases "(authorizes, owner, x)" rule: served_by.cases) auto

lemma before_end_subset: "set (before_end is_alive owner es) \<subseteq> set es"
  by (auto simp: before_end_def dest: set_takeWhileD)

text \<open>A served connection was accepted from an authorised peer.\<close>

lemma served_was_authorised:
  assumes "(stream, p) \<in> set (served (snd (accept_loop is_alive authorizes owner es (idle msgs))))"
  shows "\<exists>s. (Accepted stream p, s) \<in> set es \<and> authorizes owner p s"
proof -
  from assms obtain x where "x \<in> set (before_end is_alive owner es)" "(stream, p) \<in> set (served_by authorizes owner x)"
    using accept_loop_eq [of is_alive authorizes owner es "idle msgs"] by (auto simp: idle_def)
  then show ?thesis using before_end_subset by (metis prod.collapse served_by_mem subsetD)
qed

lemma drain_polls: "drain [] (map DrainPoll As) = map_option (\<lambda>_. (True, [])) (wait_for_sessions As)"
  by (induction As) auto

lemma run_bound_eq:
  "run_bound show is_alive authorizes owner p ep es des =
     (case loop_result (from_end is_alive owner es) of
        None \<Rightarrow> None
      | Some result \<Rightarrow>
          finish_run show result (snd (accept_loop is_alive authorizes owner es (idle [started_line ep p]))) des)"
  using accept_loop_eq [of is_alive authorizes owner es "idle [started_line ep p]"]
  by (cases "accept_loop is_alive authorizes owner es (idle [started_line ep p])")
     (simp add: run_bound_def idle_def split: option.split)

definition startup_ok :: "target_os \<Rightarrow> (string \<Rightarrow> bool) \<Rightarrow> (unit, string) result \<Rightarrow> ('l, io_error) result \<Rightarrow> bool" where
  "startup_ok os which wintun bound \<longleftrightarrow>
     list_all which (required_binaries os) \<and> (os = Windows \<longrightarrow> is_ok wintun) \<and> is_ok bound"

lemma run_cases:
  "run show os which wintun bound is_alive authorizes owner p ep es des =
     (if \<not> startup_ok os which wintun bound
      then Some (Returned (Err (case ensure_required_binaries which (required_binaries os) of
          Err e \<Rightarrow> e
        | Ok _ \<Rightarrow> (case (if os = Windows then wintun else Ok ()) of Err e \<Rightarrow> e
            | Ok _ \<Rightarrow> (case bound of Err e \<Rightarrow> show e | Ok _ \<Rightarrow> [])))), [])
      else map_option (\<lambda>(r, effs). (case r of ProcessExit n \<Rightarrow> ProcessExit n | Returned q \<Rightarrow> Returned (map_err show q), effs))
             (run_bound show is_alive authorizes owner p ep es des))"
proof (cases "ensure_required_binaries which (required_binaries os)")
  case (Ok u)
  then have "list_all which (required_binaries os)"
    using ensure_required_binaries_ok [of which "required_binaries os"] by (simp add: list_all_iff)
  then show ?thesis using Ok by (cases wintun; cases bound; cases os) (simp_all add: run_def startup_ok_def)
next
  case (Err e)
  then have "\<not> list_all which (required_binaries os)"
    using ensure_required_binaries_ok [of which "required_binaries os"] by (auto simp: list_all_iff)
  then show ?thesis using Err by (simp add: run_def startup_ok_def)
qed

section \<open>Properties\<close>

text \<open>
  C29: On Linux the daemon serves its owner only. If the owner was opened for the number and start time of the
  command line, then whatever happens on the system and in whatever order the loop finds its events, every
  connection that is handed to a task comes from a peer whose number belonged, at the moment of the check,
  to the very process that was pinned at the start, with the given start time. Numbers that are reused
  and processes that choose misleading names make no difference.
\<close>

theorem daemon_serves_owner_only:
  assumes "linux_kernel X table pinned" and "lives_on (\<lambda>t. table (now t))"
    and "linux_open X now p start_time = Ok owner" and "list_all (\<lambda>(e, t). 3 \<le> t) tes"
    and "(stream, peer) \<in> set (served (snd
           (accept_loop (linux_is_alive X) (linux_authorizes X) owner (map (\<lambda>(e, t). (e, now t)) tes) (idle msgs))))"
  shows "peer = p \<and>
    (\<exists>t i. (Accepted stream peer, t) \<in> set tes \<and> table (now t) peer = Some i \<and>
       incarnation i = pinned (process owner) \<and> start_ticks i = unat start_time)"
proof -
  obtain s where "(Accepted stream peer, s) \<in> set (map (\<lambda>(e, t). (e, now t)) tes)" "linux_authorizes X owner peer s"
    using served_was_authorised [OF assms(5)] by blast
  then obtain t where t: "(Accepted stream peer, t) \<in> set tes" "linux_authorizes X owner peer (now t)" by auto
  moreover have "3 \<le> t" using assms(4) t(1) by (auto simp: list_all_iff)
  ultimately show ?thesis using authorised_is_pinned [OF assms(1,2,3), of t peer] by blast
qed

theorem daemon_serves_owner_only_witness:
  "served (snd (accept_loop (linux_is_alive sample_procs) (linux_authorizes sample_procs) \<lparr>pid = 7, uid = 1000, process = 1\<rparr>
     [(Accepted ''a'' 9, ()), (Accepted ''b'' 7, ())] (idle []))) = [(''b'', 7)] \<and> start_ticks sample_process = 42"
proof -
  let ?run = "accept_loop (linux_is_alive sample_procs) (linux_authorizes sample_procs) \<lparr>pid = 7, uid = 1000, process = 1\<rparr>
     [(Accepted ''a'' 9, ()), (Accepted ''b'' 7, ())] (idle [])"
  have s: "served (snd ?run) = [(''b'', 7)]"
    by (simp add: idle_def linux_authorizes_def linux_is_alive_def sample_procs_def)
  have "lives_on (\<lambda>t p. if p = 7 then Some sample_process else None)" by (simp add: lives_on_def)
  then have "\<exists>i. (if (7 :: 32 word) = 7 then Some sample_process else None) = Some i \<and> start_ticks i = unat (42 :: 64 word)"
    using daemon_serves_owner_only [OF sample_linux_kernel _ sample_open, of "[(Accepted ''a'' 9, 3), (Accepted ''b'' 7, 4)]" "''b''" 7 "[]"] s
    by auto
  then show ?thesis using s by simp
qed

text \<open>
  C30: On Windows the daemon serves its owner only. If the owner was opened for the number and creation time of the
  command line, every connection that is handed to a task comes from a peer whose number belonged, at the moment of
  the check, to the very process that was opened, with a creation time that agrees with the given one; and the security identifier that
  the daemon protects its pipe with is that of the user of this process.
\<close>

theorem windows_serves_owner_only:
  assumes "windows_kernel X table pinned identifier" and "lives_on (\<lambda>t. table (now t))"
    and "windows_open X now p start_time = Ok owner"
    and "(stream, peer) \<in> set (served (snd
           (accept_loop (windows_is_alive X) (windows_authorizes X) owner (map (\<lambda>(e, t). (e, now t)) tes) (idle msgs))))"
  shows "peer = p \<and> sid owner = identifier (pinned (win_owner_process owner)) \<and>
    (\<exists>t i. (Accepted stream peer, t) \<in> set tes \<and> table (now t) peer = Some i \<and>
       incarnation i = pinned (win_owner_process owner) \<and>
       (of_nat (start_ticks i) :: 64 word) div 10000 - 11644473600000 = start_time)"
proof -
  obtain s where "(Accepted stream peer, s) \<in> set (map (\<lambda>(e, t). (e, now t)) tes)" "windows_authorizes X owner peer s"
    using served_was_authorised [OF assms(4)] by blast
  then obtain t where "(Accepted stream peer, t) \<in> set tes" "windows_authorizes X owner peer (now t)" by auto
  then show ?thesis using windows_authorised_is_pinned [OF assms(1,2,3), of peer t] by blast
qed

theorem windows_serves_owner_only_witness:
  "served (snd (accept_loop (windows_is_alive sample_windows) (windows_authorizes sample_windows)
     \<lparr>win_owner_pid = 7, win_owner_process = 1, sid = ''S-1-5-18''\<rparr>
     [(Accepted ''a'' 9, ()), (Accepted ''b'' 7, ())] (idle []))) = [(''b'', 7)] \<and>
   (of_nat (start_ticks sample_windows_process) :: 64 word) div 10000 - 11644473600000 = 42"
proof -
  let ?owner = "\<lparr>win_owner_pid = 7, win_owner_process = 1 :: nat, sid = ''S-1-5-18''\<rparr>"
  let ?run = "accept_loop (windows_is_alive sample_windows) (windows_authorizes sample_windows) ?owner
     [(Accepted ''a'' 9, ()), (Accepted ''b'' 7, ())] (idle [])"
  have s: "served (snd ?run) = [(''b'', 7)]"
    by (simp add: idle_def windows_authorizes_def windows_is_alive_def sample_windows_def)
  have "lives_on (\<lambda>t. sample_windows_table)" by (simp add: lives_on_def sample_windows_table_def)
  then have "\<exists>i. sample_windows_table 7 = Some i \<and> (of_nat (start_ticks i) :: 64 word) div 10000 - 11644473600000 = 42"
    using windows_serves_owner_only [OF sample_windows_kernel _ sample_windows_open,
        of "''b''" 7 "[(Accepted ''a'' 9, 3), (Accepted ''b'' 7, 4)]" "[]"] s
    by auto
  then show ?thesis using s by (simp add: sample_windows_table_def)
qed

text \<open>
  C33: The accept loop, on every platform. It ends at the first signal, shutdown request, failure of the listener, or tick at which the
  owner is dead, with that failure as its only error; until then, and never after, exactly the connections
  of authorised peers are served, in their order, and every accepted or rejected peer and every connection that failed is logged. With the
  owner check of each platform a peer of unknown number is not served.
\<close>

theorem accept_loop_exact:
  fixes es :: "('st loop_event \<times> 'os) list"
  shows "(let (r, d) = accept_loop is_alive authorizes owner es (idle msgs)
   in r = loop_result (from_end is_alive owner es) \<and>
      served d = concat (map (served_by authorizes owner) (before_end is_alive owner es)) \<and>
      log d = msgs @ concat (map (logged_by authorizes owner) (before_end is_alive owner es)) \<and>
      set (connections d) \<subseteq> set (served d)) \<and>
   (check_pid True (pid lowner) = Ok () \<longrightarrow> served_by (linux_authorizes L) lowner (Accepted (stream :: 'st) 0, s) = []) \<and>
   (check_pid True (pid mowner) = Ok () \<longrightarrow> served_by (macos_authorizes M) mowner (Accepted stream 0, s) = []) \<and>
   (check_pid False (win_owner_pid wowner) = Ok () \<longrightarrow> served_by (windows_authorizes W) wowner (Accepted stream 0, s) = [])"
proof -
  obtain r d where rd: "accept_loop is_alive authorizes owner es (idle msgs) = (r, d)" by fastforce
  have loop: "r = loop_result (from_end is_alive owner es) \<and>
      served d = concat (map (served_by authorizes owner) (before_end is_alive owner es)) \<and>
      log d = msgs @ concat (map (logged_by authorizes owner) (before_end is_alive owner es)) \<and>
      set (connections d) \<subseteq> set (served d)"
    using accept_loop_eq [of is_alive authorizes owner es "idle msgs"]
      accept_loop_connections [of is_alive authorizes owner es "idle msgs"] rd by (simp add: idle_def)
  have pids: "q \<noteq> 0" if "check_pid u q = Ok ()" for u q using that by (auto simp: check_pid_def)
  have "check_pid True (pid lowner) = Ok () \<Longrightarrow> \<not> linux_authorizes L lowner 0 s"
    and "check_pid True (pid mowner) = Ok () \<Longrightarrow> \<not> macos_authorizes M mowner 0 s"
    and "check_pid False (win_owner_pid wowner) = Ok () \<Longrightarrow> \<not> windows_authorizes W wowner 0 s"
    by (rule linux_gate.unknown_peer macos_gate.unknown_peer windows_gate.unknown_peer, erule pids)+
  moreover have "let (r, d) = accept_loop is_alive authorizes owner es (idle msgs)
     in r = loop_result (from_end is_alive owner es) \<and>
        served d = concat (map (served_by authorizes owner) (before_end is_alive owner es)) \<and>
        log d = msgs @ concat (map (logged_by authorizes owner) (before_end is_alive owner es)) \<and>
        set (connections d) \<subseteq> set (served d)"
    unfolding rd Let_def prod.case by (rule loop)
  ultimately show ?thesis by simp
qed

theorem accept_loop_exact_witness:
  "served (snd (accept_loop (linux_is_alive sample_procs) (linux_authorizes sample_procs) \<lparr>pid = 7, uid = 0, process = 1\<rparr>
     [(Accepted ''a'' 7, ()), (SignalArrived, ()), (Accepted ''b'' 7, ())] (idle []))) = [(''a'', 7)] \<and>
   served_by (linux_authorizes sample_procs) \<lparr>pid = 7, uid = 0, process = 1\<rparr> (Accepted ''a'' 0, ()) = []"
  using accept_loop_exact [of "linux_is_alive sample_procs" "linux_authorizes sample_procs" "\<lparr>pid = 7, uid = 0, process = 1\<rparr>"
      "[(Accepted ''a'' 7, ()), (SignalArrived, ()), (Accepted ''b'' 7, ())]" "[]" "\<lparr>pid = 7, uid = 0, process = 1\<rparr>" sample_procs "''a''"]
  by (simp add: check_pid_def linux_authorizes_def linux_is_alive_def sample_procs_def idle_def)

text \<open>
  C37: The exit of the daemon. It is a success exactly if the log, the owner, the runtime and the start-up are fine, the
  loop ended without a failure of the listener and the sessions were drained in time; an incomplete drain is
  always reported as exit status one, even after a failure of the listener, and everything else as a failure,
  with a last message that says so. Once the listener is bound, the run always ends in the same order: the tasks are told to shut
  down, a failure of the listener is logged, the listener is dropped before the drain, connections that fail during the drain are
  logged, then whether it was complete, and the log is flushed last.
\<close>

theorem main_exit_code:
  assumes "main show show_owner owner logger fallback runtime
      (\<lambda>ow. run show os which wintun bound is_alive authorizes ow (number ow) ep es des) = Some (result, effs)"
  shows "if \<not> is_ok logger then result = ExitFailure
    else if \<not> is_ok owner \<or> \<not> is_ok runtime \<or> \<not> startup_ok os which wintun bound
    then result = ExitFailure \<and> (\<exists>m. effs = [LogLine (''daemon failed: '' @ m), LogFlushed])
    else \<exists>ow d lp drained msgs. owner = Ok ow \<and>
      accept_loop is_alive authorizes ow es (idle [started_line ep (number ow)]) = (Some lp, d) \<and>
      drain (connections d) des = Some (drained, msgs) \<and>
      result = (if \<not> drained then ExitWith 1 else if is_ok lp then ExitSuccess else ExitFailure) \<and>
      effs = map LogLine (log d) @ [ShutdownSent] @ (case lp of Ok _ \<Rightarrow> [] | Err e \<Rightarrow> [LogLine (''listener failed: '' @ show e)]) @
        [ListenerDropped] @ map LogLine msgs @ [LogLine (stopped_line drained)] @
        (case lp of Err e \<Rightarrow> if drained then [LogLine (''daemon failed: '' @ show e)] else [] | Ok _ \<Rightarrow> []) @ [LogFlushed]"
proof (cases "is_ok logger \<and> is_ok owner \<and> is_ok runtime \<and> startup_ok os which wintun bound")
  case False
  then show ?thesis
    using assms by (cases logger; cases owner; cases runtime) (auto simp: main_def run_cases)
next
  case True
  then obtain ow where ow: "owner = Ok ow" "logger = Ok ()" "runtime = Ok ()" and up: "startup_ok os which wintun bound"
    by (auto simp: is_ok_iff)
  obtain q where q: "run_bound show is_alive authorizes ow (number ow) ep es des = Some q"
    using assms ow up by (cases "run_bound show is_alive authorizes ow (number ow) ep es des") (simp_all add: main_def run_cases)
  then obtain lp d where lp: "accept_loop is_alive authorizes ow es (idle [started_line ep (number ow)]) = (Some lp, d)"
      "finish_run show lp d des = Some q"
    by (auto simp: run_bound_def idle_def split: prod.splits option.splits)
  then obtain drained msgs where dr: "drain (connections d) des = Some (drained, msgs)"
    by (auto simp: finish_run_def Let_def split: option.splits)
  have m: "main show show_owner (Ok ow) (Ok ()) fallback (Ok ()) (\<lambda>ow. Some
      (case q of (r, effs) \<Rightarrow> (case r of ProcessExit n \<Rightarrow> ProcessExit n | Returned q \<Rightarrow> Returned (map_err show q), effs))) =
      Some (result, effs)"
    using assms ow q up by (simp add: main_def run_cases)
  have "result = (if \<not> drained then ExitWith 1 else if is_ok lp then ExitSuccess else ExitFailure) \<and>
      effs = map LogLine (log d) @ [ShutdownSent] @ (case lp of Ok _ \<Rightarrow> [] | Err e \<Rightarrow> [LogLine (''listener failed: '' @ show e)]) @
        [ListenerDropped] @ map LogLine msgs @ [LogLine (stopped_line drained)] @
        (case lp of Err e \<Rightarrow> if drained then [LogLine (''daemon failed: '' @ show e)] else [] | Ok _ \<Rightarrow> []) @ [LogFlushed]"
    using m lp(2) by (cases drained; cases lp) (auto simp: finish_run_def dr main_def)
  then show ?thesis using True ow(1) lp(1) dr by auto
qed

theorem main_exit_code_witness:
  "main (\<lambda>e. ''x'') (\<lambda>e. ''y'') (Ok ()) (Ok ()) (Ok ()) (Ok ())
     (\<lambda>ow. run (\<lambda>e. ''x'') Macos (\<lambda>b. False) (Ok ()) (Ok ()) (\<lambda>_ s. True) (\<lambda>_ p s. True) ow 7 ''e''
        [(Accepted (1 :: nat) 7, ()), (SignalArrived, ())] [DrainJoined 0, DrainPoll {''utun1''}, DrainTimeout]) =
   Some (ExitWith 1, [LogLine (started_line ''e'' 7), LogLine (accepted_peer 7), ShutdownSent, ListenerDropped,
     LogLine (stopped_line False), LogFlushed])"
proof -
  have m: "main (\<lambda>e. ''x'') (\<lambda>e. ''y'') (Ok ()) (Ok ()) (Ok ()) (Ok ())
     (\<lambda>ow. run (\<lambda>e. ''x'') Macos (\<lambda>b. False) (Ok ()) (Ok ()) (\<lambda>_ s. True) (\<lambda>_ p s. True) ow 7 ''e''
        [(Accepted (1 :: nat) 7, ()), (SignalArrived, ())] [DrainJoined 0, DrainPoll {''utun1''}, DrainTimeout]) =
   Some (ExitWith 1, [LogLine (started_line ''e'' 7), LogLine (accepted_peer 7), ShutdownSent, ListenerDropped,
     LogLine (stopped_line False), LogFlushed])"
    by (simp add: main_def run_def run_bound_def finish_run_def required_binaries_def remove_nth_def)
  from main_exit_code [where number = "\<lambda>ow. 7", OF m] m show ?thesis by simp
qed

end
