(* ===== verification/Connection.thy ===== *)
theory Connection
  imports Server "HOL-Library.Sublist"
begin

text \<open>
  One connection, \<^verbatim>\<open>serve_connection\<close> of server.rs: the greeting, the first message, and then the two halves
  that run side by side, one reading frames for the session and one writing its responses. The streams
  are those of \<open>Ipc\<close>. How each wait ends (the operation completes, its five seconds pass, the daemon
  stops) is an input; a wait that is given up in the middle of a frame leaves a part of it on the wire.
\<close>

section \<open>Definitions\<close>

datatype write_wait = WriteDone | WriteTimeout nat | WriteStopped nat

datatype read_wait = ReadDone | ReadTimeout | ReadStopped

datatype write_outcome = WroteAll | WroteErr io_error | WroteStop

definition elapsed :: io_error where
  "elapsed = IoError TimedOut ''deadline has elapsed''"

text \<open>
  A frame written under a timeout inside a \<^verbatim>\<open>select!\<close> with the shutdown. A message that cannot be a frame is
  refused without any wait.
\<close>

definition timed_write :: "('m \<Rightarrow> bytes) \<Rightarrow> write_wait \<Rightarrow> 'm \<Rightarrow> out_stream \<Rightarrow> write_outcome \<times> out_stream" where
  "timed_write encode w m output =
     (let cut_off = (\<lambda>n. snd (write_all (take n (frame (encode m))) output));
          refused = (encode m = [] \<or> length (encode m) > MAX_FRAME_SIZE)
      in (case (if refused then WriteDone else w) of
            WriteDone \<Rightarrow>
              (case write_frame encode m output of
                 (Ok _, s) \<Rightarrow> (WroteAll, s)
               | (Err e, s) \<Rightarrow> (WroteErr e, s))
          | WriteTimeout n \<Rightarrow> (WroteErr elapsed, cut_off n)
          | WriteStopped n \<Rightarrow> (WroteStop, cut_off n)))"

definition ready_message :: "32 word \<Rightarrow> server_message" where
  "ready_message p = \<lparr>server_payload = Some (Ready (of_nat PROTOCOL_VERSION) p)\<rparr>"

text \<open>
  The reading half. Each round first looks for the shutdown; the second flag says whether the session
  still receives when a message is sent to it. \<^term>\<open>None\<close> means that it is still reading.
\<close>

fun read_side ::
    "(bytes \<Rightarrow> (client_message, string) result) \<Rightarrow> (bool \<times> bool) list \<Rightarrow> in_stream \<Rightarrow>
       (client_message, status) result list \<times> (unit, io_error) result option" where
  "read_side decode [] input = ([], None)"
| "read_side decode ((stop, receiving) # rounds) input =
     (if stop then ([], Some (Ok ()))
      else (case read_frame decode input of
              (Ok (Some m), s) \<Rightarrow>
                if receiving then (let (ms, r) = read_side decode rounds s in (Ok m # ms, r)) else ([], Some (Ok ()))
            | (Ok None, s) \<Rightarrow> ([], Some (Ok ()))
            | (Err e, s) \<Rightarrow>
                (if receiving then [Err (status InvalidArgument ''invalid IPC frame'')] else [], Some (Err e))))"

text \<open>The writing half: what the session answers, one message after the other.\<close>

datatype write_event = Respond response write_wait | ResponsesClosed | StopSeen

definition response_message :: "status_text \<Rightarrow> response \<Rightarrow> server_message" where
  "response_message T r = (case r of Ok m \<Rightarrow> m | Err st \<Rightarrow> error_message T st)"

fun write_side ::
    "status_text \<Rightarrow> (server_message \<Rightarrow> bytes) \<Rightarrow> write_event list \<Rightarrow> out_stream \<Rightarrow> (unit, io_error) result option \<times> out_stream" where
  "write_side T encode [] output = (None, output)"
| "write_side T encode (e # es) output =
     (case e of
        StopSeen \<Rightarrow> (Some (Ok ()), output)
      | ResponsesClosed \<Rightarrow> (Some (Ok ()), output)
      | Respond r w \<Rightarrow>
          (case timed_write encode w (response_message T r) output of
             (WroteAll, s) \<Rightarrow> write_side T encode es s
           | (WroteErr err, s) \<Rightarrow> (Some (Err err), s)
           | (WroteStop, s) \<Rightarrow> (Some (Ok ()), s)))"

text \<open>
  What happens around a connection: the waits of the greeting and of the first message, whether the
  session was admitted and the wait of its refusal, the rounds of the reading half and the events of the writing half.
\<close>

record connection_env =
  ready_wait :: write_wait
  first_wait :: read_wait
  admitted :: "(unit, status) result"
  refusal_wait :: write_wait
  rounds :: "(bool \<times> bool) list"
  answers :: "write_event list"

definition answer ::
    "status_text \<Rightarrow> (server_message \<Rightarrow> bytes) \<Rightarrow> connection_env \<Rightarrow> out_stream \<Rightarrow> (unit, io_error) result option \<times> out_stream" where
  "answer T encode env output =
     (case admitted env of
        Err st \<Rightarrow>
          (case timed_write encode (refusal_wait env) (error_message T st) output of
             (WroteErr e, s) \<Rightarrow> (Some (Err e), s)
           | (_, s) \<Rightarrow> (Some (Ok ()), s))
      | Ok _ \<Rightarrow> write_side T encode (answers env) output)"

text \<open>
  The outcomes \<^verbatim>\<open>try_join!\<close> can have: an error of either half at once, success when both have succeeded.
\<close>

definition try_join ::
    "(unit, io_error) result option \<Rightarrow> (unit, io_error) result option \<Rightarrow> (unit, io_error) result list" where
  "try_join r w =
     (case r of Some (Err e) \<Rightarrow> [Err e] | _ \<Rightarrow> []) @ (case w of Some (Err e) \<Rightarrow> [Err e] | _ \<Rightarrow> []) @
     (if r = Some (Ok ()) \<and> w = Some (Ok ()) then [Ok ()] else [])"

text \<open>
  The connection: what reaches the session, the wire, the possible results, and whether the shutdown of
  the daemon is requested.
\<close>

record connection =
  to_session :: "(client_message, status) result list"
  wire :: out_stream
  results :: "(unit, io_error) result list"
  requests_shutdown :: bool

definition ends :: "(unit, io_error) result \<Rightarrow> out_stream \<Rightarrow> connection" where
  "ends r output = \<lparr>to_session = [], wire = output, results = [r], requests_shutdown = False\<rparr>"

definition serve_connection ::
    "status_text \<Rightarrow> (server_message \<Rightarrow> bytes) \<Rightarrow> (bytes \<Rightarrow> (client_message, string) result) \<Rightarrow> 32 word \<Rightarrow> connection_env \<Rightarrow>
       in_stream \<Rightarrow> out_stream \<Rightarrow> connection" where
  "serve_connection T encode decode daemon_pid env input output =
     (case timed_write encode (ready_wait env) (ready_message daemon_pid) output of
        (WroteErr e, s) \<Rightarrow> ends (Err e) s
      | (WroteStop, s) \<Rightarrow> ends (Ok ()) s
      | (WroteAll, s) \<Rightarrow>
          (case first_wait env of
             ReadStopped \<Rightarrow> ends (Ok ()) s
           | ReadTimeout \<Rightarrow> ends (Err elapsed) s
           | ReadDone \<Rightarrow>
               (case read_frame decode input of
                  (Err e, i) \<Rightarrow> ends (Err e) s
                | (Ok None, i) \<Rightarrow> ends (Ok ()) s
                | (Ok (Some message), i) \<Rightarrow>
                    if client_payload message = Some (ShutdownRequest True)
                    then (ends (Ok ()) s)\<lparr>requests_shutdown := True\<rparr>
                    else (case (read_side decode (rounds env) i, answer T encode env s) of
                            ((ms, r), (w, s)) \<Rightarrow>
                              \<lparr>to_session = Ok message # ms, wire = s, results = try_join r w,
                               requests_shutdown = False\<rparr>))))"

subsection \<open>Specification\<close>

text \<open>The messages meant for the client, in their order.\<close>

fun event_messages :: "status_text \<Rightarrow> write_event \<Rightarrow> server_message list" where
  "event_messages T (Respond r w) = [response_message T r]"
| "event_messages T _ = []"

definition meant :: "status_text \<Rightarrow> 32 word \<Rightarrow> connection_env \<Rightarrow> server_message list" where
  "meant T p env =
     ready_message p # (case admitted env of Err st \<Rightarrow> [error_message T st] | Ok _ \<Rightarrow> concat (map (event_messages T) (answers env)))"

text \<open>Some of the messages, complete, and then at most a part of the next one.\<close>

definition on_wire :: "('m \<Rightarrow> bytes) \<Rightarrow> 'm list \<Rightarrow> bytes \<Rightarrow> bool" where
  "on_wire encode ms bs \<longleftrightarrow>
     (\<exists>k part. k \<le> length ms \<and> bs = concat (map (\<lambda>m. frame (encode m)) (take k ms)) @ part \<and>
        (part = [] \<or> k < length ms \<and> strict_prefix part (frame (encode (ms ! k)))))"

section \<open>Lemmas\<close>

lemma on_wire_Nil: "on_wire encode ms []"
  unfolding on_wire_def by (intro exI [of _ 0] exI [of _ "[]"]) simp

lemma on_wire_Cons: "on_wire encode ms bs \<Longrightarrow> on_wire encode (m # ms) (frame (encode m) @ bs)"
proof -
  assume "on_wire encode ms bs"
  then obtain k part where "k \<le> length ms" "bs = concat (map (\<lambda>m. frame (encode m)) (take k ms)) @ part"
      "part = [] \<or> k < length ms \<and> strict_prefix part (frame (encode (ms ! k)))"
    unfolding on_wire_def by blast
  then show ?thesis unfolding on_wire_def by (intro exI [of _ "Suc k"] exI [of _ part]) simp
qed

lemma on_wire_part: "prefix p (frame (encode m)) \<Longrightarrow> on_wire encode (m # ms) p"
proof (cases "p = frame (encode m)")
  case True
  then show ?thesis using on_wire_Cons [OF on_wire_Nil, of encode m ms] by simp
next
  case False
  moreover assume "prefix p (frame (encode m))"
  ultimately show ?thesis
    unfolding on_wire_def by (intro exI [of _ 0] exI [of _ p]) (simp add: strict_prefix_def)
qed

lemma write_all_appends:
  "\<exists>p. written (snd (write_all bs s)) = written s @ p \<and> prefix p bs \<and> (is_ok (fst (write_all bs s)) \<longrightarrow> p = bs)"
  by (auto simp: write_all_def take_is_prefix split: option.split)

lemma write_frame_appends:
  "\<exists>p. written (snd (write_frame encode m s)) = written s @ p \<and> prefix p (frame (encode m)) \<and>
     (is_ok (fst (write_frame encode m s)) \<longrightarrow> p = frame (encode m))"
proof (cases "encode m = [] \<or> length (encode m) > MAX_FRAME_SIZE")
  case True
  then show ?thesis by (simp add: write_frame_def)
next
  case False
  let ?h = "nat_be 4 (length (encode m))"
  obtain r1 s1 where c1: "write_all ?h s = (r1, s1)" by fastforce
  obtain p1 where p1: "written s1 = written s @ p1" "prefix p1 ?h" "is_ok r1 \<longrightarrow> p1 = ?h"
    using write_all_appends [of ?h s] c1 by auto
  show ?thesis
  proof (cases r1)
    case (Err e)
    then have "prefix p1 (frame (encode m))" using p1(2) by (simp add: frame_def)
    then show ?thesis using False c1 Err p1(1) by (auto simp: write_frame_def Let_def)
  next
    case (Ok u)
    obtain r2 s2 where c2: "write_all (encode m) s1 = (r2, s2)" by fastforce
    obtain p2 where p2: "written s2 = written s1 @ p2" "prefix p2 (encode m)" "is_ok r2 \<longrightarrow> p2 = encode m"
      using write_all_appends [of "encode m" s1] c2 by auto
    have "written (snd (write_frame encode m s)) = written s @ ?h @ p2"
      using False c1 Ok c2 p1 p2(1) by (cases r2) (auto simp: write_frame_def Let_def)
    moreover have "is_ok (fst (write_frame encode m s)) \<longrightarrow> p2 = encode m"
      using False c1 Ok c2 p2(3) by (cases r2) (auto simp: write_frame_def Let_def)
    ultimately show ?thesis using p2(2) by (intro exI [of _ "?h @ p2"]) (simp add: frame_def)
  qed
qed

lemma timed_write_appends:
  assumes "timed_write encode w m s = (r, s')"
  shows "\<exists>p. written s' = written s @ p \<and> prefix p (frame (encode m)) \<and> (r = WroteAll \<longrightarrow> p = frame (encode m))"
proof -
  have cut: "\<exists>p. written (snd (write_all (take n (frame (encode m))) s)) = written s @ p \<and> prefix p (frame (encode m))" for n
    using write_all_appends [of "take n (frame (encode m))" s] take_is_prefix prefix_order.trans by blast
  obtain q t where f: "write_frame encode m s = (q, t)" by fastforce
  have whole: "\<exists>p. written t = written s @ p \<and> prefix p (frame (encode m)) \<and> (is_ok q \<longrightarrow> p = frame (encode m))"
    using write_frame_appends [of encode m s] f by simp
  show ?thesis
  proof (cases "if encode m = [] \<or> length (encode m) > MAX_FRAME_SIZE then WriteDone else w")
    case WriteDone
    then show ?thesis using assms f whole by (cases q) (auto simp: timed_write_def)
  next
    case (WriteTimeout n)
    then show ?thesis using assms cut [of n] by (auto simp: timed_write_def)
  next
    case (WriteStopped n)
    then show ?thesis using assms cut [of n] by (auto simp: timed_write_def)
  qed
qed

text \<open>The writing half keeps the frames whole and in order.\<close>

lemma write_side_wire:
  "\<exists>bs. written (snd (write_side T encode es s)) = written s @ bs \<and> on_wire encode (concat (map (event_messages T) es)) bs"
proof (induction es arbitrary: s)
  case Nil
  show ?case by (simp add: on_wire_Nil)
next
  case (Cons e es)
  show ?case
  proof (cases e)
    case (Respond r w)
    let ?m = "response_message T r"
    obtain o1 s1 where c: "timed_write encode w ?m s = (o1, s1)" by fastforce
    obtain p where p: "written s1 = written s @ p" "prefix p (frame (encode ?m))" "o1 = WroteAll \<longrightarrow> p = frame (encode ?m)"
      using timed_write_appends [OF c] by blast
    show ?thesis
    proof (cases "o1 = WroteAll")
      case True
      obtain bs where bs: "written (snd (write_side T encode es s1)) = written s1 @ bs"
          "on_wire encode (concat (map (event_messages T) es)) bs"
        using Cons.IH by blast
      have "on_wire encode (?m # concat (map (event_messages T) es)) (frame (encode ?m) @ bs)"
        using bs(2) by (rule on_wire_Cons)
      then show ?thesis using Respond c True p bs(1) by simp
    next
      case False
      then have "snd (write_side T encode (e # es) s) = s1" using Respond c by (cases o1) simp_all
      moreover have "on_wire encode (?m # concat (map (event_messages T) es)) p" using p(2) by (rule on_wire_part)
      ultimately show ?thesis using Respond p(1) by auto
    qed
  qed (simp_all add: on_wire_Nil)
qed

lemma answer_wire:
  "\<exists>bs. written (snd (answer T encode env s)) = written s @ bs \<and> on_wire encode (tl (meant T p env)) bs"
proof (cases "admitted env")
  case (Ok u)
  then show ?thesis using write_side_wire [of T encode "answers env" s] by (simp add: answer_def meant_def)
next
  case (Err st)
  let ?m = "error_message T st"
  obtain o1 s1 where c: "timed_write encode (refusal_wait env) ?m s = (o1, s1)" by fastforce
  obtain q where q: "written s1 = written s @ q" "prefix q (frame (encode ?m))" using timed_write_appends [OF c] by blast
  have "snd (answer T encode env s) = s1" using Err c by (cases o1) (simp_all add: answer_def)
  then show ?thesis using q(1) on_wire_part [of q encode ?m "[]", OF q(2)] Err by (simp add: meant_def)
qed

lemma serve_wire:
  "\<exists>bs. written (wire (serve_connection T encode decode p env input s)) = written s @ bs \<and> on_wire encode (meant T p env) bs"
proof -
  let ?m = "ready_message p"
  have meant: "meant T p env = ?m # tl (meant T p env)" by (simp add: meant_def)
  obtain o1 s1 where c: "timed_write encode (ready_wait env) ?m s = (o1, s1)" by fastforce
  obtain q where q: "written s1 = written s @ q" "prefix q (frame (encode ?m))" "o1 = WroteAll \<longrightarrow> q = frame (encode ?m)"
    using timed_write_appends [OF c] by blast
  obtain bs where bs: "written (snd (answer T encode env s1)) = written s1 @ bs" "on_wire encode (tl (meant T p env)) bs"
    using answer_wire by blast
  have part: "on_wire encode (meant T p env) q" by (subst meant) (rule on_wire_part [of q encode ?m, OF q(2)])
  have "wire (serve_connection T encode decode p env input s) = s1 \<or>
      o1 = WroteAll \<and> wire (serve_connection T encode decode p env input s) = snd (answer T encode env s1)"
    using c by (cases o1)
      (auto simp: serve_connection_def ends_def Let_def split: read_wait.split prod.split result.split option.split)
  then show ?thesis
  proof
    assume "wire (serve_connection T encode decode p env input s) = s1"
    then show ?thesis using q(1) part by auto
  next
    assume w: "o1 = WroteAll \<and> wire (serve_connection T encode decode p env input s) = snd (answer T encode env s1)"
    have "on_wire encode (meant T p env) (frame (encode ?m) @ bs)" by (subst meant) (rule on_wire_Cons [OF bs(2)])
    then show ?thesis using w q bs(1) by auto
  qed
qed

text \<open>A client that decodes what is on the wire gets the complete messages, and then the end or the broken frame.\<close>

lemma on_wire_read:
  assumes "on_wire encode ms bs" and "\<forall>m \<in> set ms. fits (encode m) \<and> decode (encode m) = Ok m"
  shows "\<exists>k. k \<le> length ms \<and> read_messages decode \<lparr>pending = bs, ending = Eof\<rparr> \<in> {(take k ms, Ok ()), (take k ms, Err early_eof)}"
proof -
  obtain k part where k: "k \<le> length ms" "bs = concat (map (\<lambda>m. frame (encode m)) (take k ms)) @ part"
      "part = [] \<or> k < length ms \<and> strict_prefix part (frame (encode (ms ! k)))"
    using assms(1) unfolding on_wire_def by blast
  have fit: "\<forall>m \<in> set (take k ms). fits (encode m) \<and> decode (encode m) = Ok m" using assms(2) by (meson in_set_takeD)
  have "snd (read_messages decode \<lparr>pending = part, ending = Eof\<rparr>) \<in> {Ok (), Err early_eof} \<and>
      fst (read_messages decode \<lparr>pending = part, ending = Eof\<rparr>) = []"
  proof (cases "part = []")
    case True
    then show ?thesis by (subst (1 2) read_messages.simps) (simp add: read_frame_def read_payload_eof)
  next
    case False
    then obtain missing where m: "frame (encode (ms ! k)) = part @ missing" "missing \<noteq> []" "fits (encode (ms ! k))"
      using k(3) assms(2) by (auto simp: strict_prefix_def prefix_def)
    have "fst (read_frame decode \<lparr>pending = part, ending = Eof\<rparr>) = Err early_eof"
      using m False by (intro read_frame_truncated [OF m(3), of _ missing]) simp_all
    then show ?thesis by (subst (1 2) read_messages.simps) (auto split: prod.splits)
  qed
  then show ?thesis
    using read_messages_append [where s = "\<lparr>pending = bs, ending = Eof\<rparr>" and rest = part, OF fit] k(1,2)
    by (auto split: prod.splits)
qed

lemma read_side_all:
  assumes "\<forall>m \<in> set ms. fits (enc m) \<and> decode (enc m) = Ok m" and "pending s = concat (map (\<lambda>m. frame (enc m)) ms)"
    and "ending s = Eof" and "length ms < length rs" and "\<forall>r \<in> set rs. r = (False, True)"
  shows "read_side decode rs s = (map Ok ms, Some (Ok ()))"
  using assms
proof (induction ms arbitrary: s rs)
  case Nil
  then show ?case by (cases rs) (auto simp: read_frame_def read_payload_eof)
next
  case (Cons m ms)
  obtain rs' where rs: "rs = (False, True) # rs'" using Cons.prems(4,5) by (cases rs) auto
  let ?t = "s\<lparr>pending := concat (map (\<lambda>m. frame (enc m)) ms)\<rparr>"
  have "read_payload s = (Ok (Some (enc m)), ?t)" using Cons.prems by (intro ipc_framing.get_put) simp_all
  then have "read_frame decode s = (Ok (Some m), ?t)" using Cons.prems by (simp add: read_frame_def)
  moreover have "read_side decode rs' ?t = (map Ok ms, Some (Ok ()))"
  proof (rule Cons.IH)
    show "\<forall>m \<in> set ms. fits (enc m) \<and> decode (enc m) = Ok m" using Cons.prems(1) by simp
    show "length ms < length rs'" using Cons.prems(4) rs by simp
    show "\<forall>r \<in> set rs'. r = (False, True)" using Cons.prems(5) unfolding rs list.set by blast
  qed (simp_all add: Cons.prems(3))
  ultimately show ?case using rs by simp
qed

text \<open>Codecs for the examples: a message is its own number of bytes.\<close>

definition sample_encode :: "server_message \<Rightarrow> bytes" where
  "sample_encode m = (case server_payload m of Some (Ready v p) \<Rightarrow> [1] | Some (Started n) \<Rightarrow> [2] | _ \<Rightarrow> [3])"

definition sample_client_encode :: "client_message \<Rightarrow> bytes" where
  "sample_client_encode m = (case client_payload m of Some (OutgoingPacket b) \<Rightarrow> 4 # b | Some (ShutdownRequest b) \<Rightarrow> [5] | _ \<Rightarrow> [6])"

definition sample_client_decode :: "bytes \<Rightarrow> (client_message, string) result" where
  "sample_client_decode bs =
     (case bs of
        b # r \<Rightarrow> if b = 4 then Ok \<lparr>client_payload = Some (OutgoingPacket r)\<rparr>
                 else if b = 5 then Ok \<lparr>client_payload = Some (ShutdownRequest True)\<rparr> else Ok \<lparr>client_payload = None\<rparr>
      | [] \<Rightarrow> Err ''empty'')"

definition sample_env :: connection_env where
  "sample_env = \<lparr>ready_wait = WriteDone, first_wait = ReadDone, admitted = Ok (), refusal_wait = WriteDone,
     rounds = replicate 3 (False, True), answers = [Respond (Ok \<lparr>server_payload = Some (Started ''utun1'')\<rparr>) (WriteTimeout 3)]\<rparr>"

section \<open>Properties\<close>

text \<open>
  C31: What a client reads. Whatever happens during a connection (any write may time out, be given up
  because the daemon stops, or fail, after any number of bytes), the client decodes from its
  stream the greeting and then a beginning of the session's responses, complete, unchanged and in order;
  only after the last complete one can there be a broken frame, which it reports as an early end and never
  takes for a message.
\<close>

theorem client_reads_prefix:
  assumes "\<forall>m \<in> set (meant T p env). fits (encode m) \<and> client_decode (encode m) = Ok m" and "written output = []"
  shows "\<exists>k \<le> length (meant T p env).
    read_messages client_decode
      \<lparr>pending = written (wire (serve_connection T encode decode p env input output)), ending = Eof\<rparr>
    \<in> {(take k (meant T p env), Ok ()), (take k (meant T p env), Err early_eof)}"
proof -
  obtain bs where bs: "written (wire (serve_connection T encode decode p env input output)) = written output @ bs"
      "on_wire encode (meant T p env) bs"
    using serve_wire by blast
  from on_wire_read [OF bs(2) assms(1)] show ?thesis unfolding bs(1) assms(2) append_Nil by blast
qed

theorem client_reads_prefix_witness:
  "fst (read_messages (\<lambda>bs. Ok (if bs = [1] then ready_message 9 else \<lparr>server_payload = Some (Started ''utun1'')\<rparr>))
      \<lparr>pending = written (wire (serve_connection sample_text sample_encode sample_client_decode 9 sample_env
         \<lparr>pending = frame [4, 7], ending = Eof\<rparr> \<lparr>written = [], fail_after = None, flush_result = Ok ()\<rparr>)), ending = Eof\<rparr>)
   \<in> {[], [ready_message 9], [ready_message 9, \<lparr>server_payload = Some (Started ''utun1'')\<rparr>]}"
proof -
  let ?dec = "\<lambda>bs. Ok (if bs = [1] then ready_message 9 else \<lparr>server_payload = Some (Started ''utun1'')\<rparr>) :: (server_message, string) result"
  let ?ms = "[ready_message 9, \<lparr>server_payload = Some (Started ''utun1'')\<rparr>]"
  let ?read = "read_messages ?dec
      \<lparr>pending = written (wire (serve_connection sample_text sample_encode sample_client_decode 9 sample_env
         \<lparr>pending = frame [4, 7], ending = Eof\<rparr> \<lparr>written = [], fail_after = None, flush_result = Ok ()\<rparr>)), ending = Eof\<rparr>"
  have m: "meant sample_text 9 sample_env = ?ms"
    by (simp add: meant_def sample_env_def response_message_def)
  have "\<forall>m \<in> set (meant sample_text 9 sample_env). fits (sample_encode m) \<and> ?dec (sample_encode m) = Ok m"
    unfolding m by (simp add: sample_encode_def ready_message_def fits_def)
  from client_reads_prefix [of sample_text 9 sample_env sample_encode ?dec
      "\<lparr>written = [], fail_after = None, flush_result = Ok ()\<rparr>" sample_client_decode
      "\<lparr>pending = frame [4, 7], ending = Eof\<rparr>", OF this]
  have "\<exists>k \<le> length ?ms. ?read \<in> {(take k ?ms, Ok ()), (take k ?ms, Err early_eof)}"
    unfolding m by (simp only: out_stream.simps)
  then obtain k where k: "k \<le> length ?ms" "?read \<in> {(take k ?ms, Ok ()), (take k ?ms, Err early_eof)}"
    by (elim exE conjE) (rule that)
  have "take k ?ms \<in> {[], [ready_message 9], ?ms}"
    using k(1) by (auto simp: take_Cons' split: if_splits)
  moreover have "fst ?read = take k ?ms" using k(2) by (elim insertE emptyE) (simp_all only: fst_conv)
  ultimately show ?thesis by (simp only: Let_def)
qed



end
