(* ===== verification/Endpoint_Linux.thy ===== *)
theory Endpoint_Linux
  imports Routes
begin

text \<open>
  Endpoint routes on Linux, platform/endpoint_linux.rs: the host route of a peer, taken from the
  kernel's own answer for the peer's address, and the netlink exchange. Messages are those of the netlink crates: sets stand for their bit
  flags, and attributes the daemon does not look at keep their number and bytes. Sockets and the crates'
  encoding are parameters; the datagrams a socket delivers are a list, so that \<^term>\<open>None\<close> is an exchange
  that still waits.
\<close>

section \<open>Definitions\<close>

datatype route_flag = FibMatch | LookupTable | Onlink | Pervasive | OtherFlag nat

datatype hop_flag = HopDead | HopOnlink | HopPervasive | OtherHopFlag nat

datatype route_type = Unicast | Local | OtherType nat

datatype route_protocol = Static | OtherProtocol nat

record next_hop =
  hop_flags :: "hop_flag set"
  hop_rest :: bytes

datatype attribute =
    Destination ip_addr
  | CacheInfo bytes
  | Uid "32 word"
  | Mark "32 word"
  | Iif "32 word"
  | Expires "32 word"
  | MulticastExpires "64 word"
  | MultiPath "next_hop list"
  | OtherAttribute nat bytes

record route_message =
  inet6 :: bool
  destination_prefix_length :: nat
  kind :: route_type
  protocol :: route_protocol
  flags :: "route_flag set"
  header_rest :: bytes
  attributes :: "attribute list"

definition host_length :: "ip_addr \<Rightarrow> nat" where
  "host_length ip = (if is_ipv4 ip then 32 else 128)"

text \<open>The loop over the attributes that keeps the live next hops, or fails where there is none.\<close>

fun live_hops :: "attribute list \<Rightarrow> (attribute list, io_error) result" where
  "live_hops [] = Ok []"
| "live_hops (MultiPath hops # attrs) =
     (let live = filter (\<lambda>hop. HopDead \<notin> hop_flags hop) hops
      in if live = [] then Err (IoError OtherKind ''endpoint route has no live nexthops'')
         else map_ok (\<lambda>rest. MultiPath (map (\<lambda>hop. hop\<lparr>hop_flags := hop_flags hop \<inter> {HopOnlink, HopPervasive}\<rparr>) live) # rest)
                (live_hops attrs))"
| "live_hops (attr # attrs) = map_ok (\<lambda>rest. attr # rest) (live_hops attrs)"

fun replayed :: "attribute \<Rightarrow> bool" where
  "replayed (Destination _) = False"
| "replayed (CacheInfo _) = False"
| "replayed (Uid _) = False"
| "replayed (Mark _) = False"
| "replayed (Iif _) = False"
| "replayed (Expires _) = False"
| "replayed (MulticastExpires _) = False"
| "replayed _ = True"

definition from_route :: "ip_addr \<Rightarrow> route_message \<Rightarrow> (route_message, io_error) result" where
  "from_route ip found =
     (if kind found \<noteq> Unicast \<and> kind found \<noteq> Local then Err (IoError OtherKind ''endpoint route is not reachable'')
      else map_ok (\<lambda>attrs.
        found\<lparr>destination_prefix_length := host_length ip, protocol := Static, flags := flags found \<inter> {Onlink, Pervasive},
              attributes := filter replayed attrs @ [Destination ip]\<rparr>)
        (live_hops (attributes found)))"

subsection \<open>The exchange\<close>

datatype netlink_message = GetRoute route_message | NewRoute route_message | DelRoute route_message | OtherMessage nat

text \<open>An error reply without a code is an acknowledgement. A code is a negated number of an error; \<^verbatim>\<open>to_io\<close> takes its absolute value.\<close>

datatype payload = InnerMessage netlink_message | ErrorReply "int option" | DoneReply | OtherPayload nat

record reply =
  reply_length :: nat
  sequence_number :: nat
  payload :: payload

datatype scan_result = Finished "(route_message option, io_error) result" | Proceed

fun is_lookup :: "netlink_message \<Rightarrow> bool" where
  "is_lookup (GetRoute _) = True"
| "is_lookup _ = False"

definition on_reply :: "bool \<Rightarrow> reply \<Rightarrow> scan_result" where
  "on_reply lookup r =
     (if sequence_number r \<noteq> 1 then Proceed
      else (case payload r of
              InnerMessage (NewRoute route) \<Rightarrow> if lookup then Finished (Ok (Some route)) else Proceed
            | ErrorReply (Some c) \<Rightarrow> Finished (Err (OsError (abs c)))
            | ErrorReply None \<Rightarrow> Finished (Ok None)
            | DoneReply \<Rightarrow> Finished (Ok None)
            | _ \<Rightarrow> Proceed))"

text \<open>\<^verbatim>\<open>(length + 3) & !3\<close>\<close>

definition aligned :: "nat \<Rightarrow> nat" where
  "aligned n = (n + 3) div 4 * 4"

text \<open>The loop over the replies in one datagram.\<close>

function scan_replies :: "(bytes \<Rightarrow> (reply, string) result) \<Rightarrow> bool \<Rightarrow> bytes \<Rightarrow> nat \<Rightarrow> scan_result" where
  "scan_replies deserialize lookup bs offset =
     (if offset < length bs
      then (case deserialize (drop offset bs) of
              Err e \<Rightarrow> Finished (Err (IoError OtherKind e))
            | Ok r \<Rightarrow>
                if reply_length r < 16 \<or> reply_length r > length bs - offset
                then Finished (Err (IoError OtherKind ''invalid netlink route reply''))
                else (case on_reply lookup r of
                        Finished result \<Rightarrow> Finished result
                      | Proceed \<Rightarrow> scan_replies deserialize lookup bs (offset + aligned (reply_length r))))
      else Proceed)"
  by pat_completeness auto

lemma aligned_ge: "n \<le> aligned n"
  unfolding aligned_def by presburger

termination scan_replies
proof (relation "measure (\<lambda>(d, l, bs, offset). length bs - offset)")
  fix offset :: nat and bs :: bytes and r :: reply
  assume "offset < length bs" and "\<not> (reply_length r < 16 \<or> reply_length r > length bs - offset)"
  then show "((d, l, bs, offset + aligned (reply_length r)), d, l, bs, offset) \<in> measure (\<lambda>(d, l, bs, offset). length bs - offset)" for d l
    using aligned_ge [of "reply_length r"] by auto
qed simp

text \<open>What the socket delivers: a datagram with the port of its sender, or an error such as the receive timeout.\<close>

fun receive ::
    "(bytes \<Rightarrow> (reply, string) result) \<Rightarrow> bool \<Rightarrow> (bytes \<times> nat, io_error) result list \<Rightarrow>
       (route_message option, io_error) result option" where
  "receive deserialize lookup [] = None"
| "receive deserialize lookup (Err e # ds) = Some (Err e)"
| "receive deserialize lookup (Ok (bs, sender) # ds) =
     (if sender \<noteq> 0 then receive deserialize lookup ds
      else (case scan_replies deserialize lookup bs 0 of
              Finished result \<Rightarrow> Some result
            | Proceed \<Rightarrow> receive deserialize lookup ds))"

datatype message_flag = Request | Ack | Create | Replace

record 'os netlink_ops =
  new_socket :: "('os, unit) call"
  bind_auto :: "('os, nat) call"
  connect_kernel :: "('os, unit) call"
  set_receive_timeout :: "('os, unit) call"
  set_send_timeout :: "('os, unit) call"
  send_message :: "nat \<Rightarrow> message_flag set \<Rightarrow> netlink_message \<Rightarrow> ('os, unit) call"
  datagrams :: "'os \<Rightarrow> (bytes \<times> nat, io_error) result list \<times> 'os"
  deserialize :: "bytes \<Rightarrow> (reply, string) result"

definition try_call :: "('os, 'a) call \<Rightarrow> ('a \<Rightarrow> ('os, 'b) call) \<Rightarrow> ('os, 'b) call" where
  "try_call c f s = (case c s of (Err e, s) \<Rightarrow> (Err e, s) | (Ok x, s) \<Rightarrow> f x s)"

text \<open>The message goes out with the port that the kernel assigned and sequence number one.\<close>

definition send_request :: "'os netlink_ops \<Rightarrow> netlink_message \<Rightarrow> message_flag set \<Rightarrow> ('os, unit) call" where
  "send_request X message fl =
     try_call (new_socket X) (\<lambda>_.
     try_call (bind_auto X) (\<lambda>port.
     try_call (connect_kernel X) (\<lambda>_.
     try_call (set_receive_timeout X) (\<lambda>_.
     try_call (set_send_timeout X) (\<lambda>_.
     send_message X port fl message)))))"

definition transact ::
    "'os netlink_ops \<Rightarrow> netlink_message \<Rightarrow> message_flag set \<Rightarrow> 'os \<Rightarrow> ((route_message option, io_error) result \<times> 'os) option" where
  "transact X message fl s =
     (case send_request X message fl s of
        (Err e, s) \<Rightarrow> Some (Err e, s)
      | (Ok _, s) \<Rightarrow>
          (case datagrams X s of
             (ds, s) \<Rightarrow> map_option (\<lambda>r. (r, s)) (receive (deserialize X) (is_lookup message) ds)))"

definition endpoint_query :: "32 word \<Rightarrow> ip_addr \<Rightarrow> route_message" where
  "endpoint_query user ip =
     \<lparr>inet6 = \<not> is_ipv4 ip, destination_prefix_length = host_length ip, kind = OtherType 0, protocol = OtherProtocol 0,
      flags = {FibMatch, LookupTable}, header_rest = [], attributes = [Destination ip, Uid user, OtherAttribute 27 [17]]\<rparr>"

definition linux_lookup :: "'os netlink_ops \<Rightarrow> 32 word \<Rightarrow> ip_addr \<Rightarrow> 'os \<Rightarrow> ((route_message, io_error) result \<times> 'os) option" where
  "linux_lookup X user ip s =
     (case transact X (GetRoute (endpoint_query user ip)) {Request} s of
        None \<Rightarrow> None
      | Some (Err e, s) \<Rightarrow> Some (Err e, s)
      | Some (Ok None, s) \<Rightarrow> Some (Err (IoError OtherKind ''no route to endpoint''), s)
      | Some (Ok (Some found), s) \<Rightarrow> Some (from_route ip found, s))"

definition linux_replace :: "'os netlink_ops \<Rightarrow> route_message \<Rightarrow> 'os \<Rightarrow> ((unit, io_error) result \<times> 'os) option" where
  "linux_replace X r s =
     map_option (\<lambda>(q, s). (map_ok (\<lambda>_. ()) q, s)) (transact X (NewRoute r) {Request, Ack, Create, Replace} s)"

definition linux_delete :: "'os netlink_ops \<Rightarrow> route_message \<Rightarrow> 'os \<Rightarrow> ((unit, io_error) result \<times> 'os) option" where
  "linux_delete X r s =
     map_option (\<lambda>(q, s). (map_ok (\<lambda>_. ()) q, s)) (transact X (DelRoute r) {Request, Ack} s)"

subsection \<open>Specification\<close>

fun has_live :: "attribute \<Rightarrow> bool" where
  "has_live (MultiPath hops) = list_ex (\<lambda>hop. HopDead \<notin> hop_flags hop) hops"
| "has_live _ = True"

fun live_attr :: "attribute \<Rightarrow> attribute" where
  "live_attr (MultiPath hops) =
     MultiPath (map (\<lambda>hop. hop\<lparr>hop_flags := hop_flags hop \<inter> {HopOnlink, HopPervasive}\<rparr>)
       (filter (\<lambda>hop. HopDead \<notin> hop_flags hop) hops))"
| "live_attr attr = attr"

definition host_route :: "ip_addr \<Rightarrow> route_message \<Rightarrow> route_message" where
  "host_route ip found =
     found\<lparr>destination_prefix_length := host_length ip, protocol := Static, flags := flags found \<inter> {Onlink, Pervasive},
           attributes := map live_attr (filter replayed (attributes found)) @ [Destination ip]\<rparr>"

text \<open>A datagram of the kernel: replies one after the other, each padded to a multiple of four.\<close>

definition packed :: "(reply \<Rightarrow> bytes) \<Rightarrow> reply list \<Rightarrow> bytes" where
  "packed serialize rs =
     concat (map (\<lambda>r. serialize r @ replicate (aligned (reply_length r) - reply_length r) 0) rs)"

text \<open>What the crates' codec is used for: a reply at the front of the bytes is found again.\<close>

definition netlink_codec :: "(reply \<Rightarrow> bytes) \<Rightarrow> (bytes \<Rightarrow> (reply, string) result) \<Rightarrow> reply list \<Rightarrow> bool" where
  "netlink_codec serialize deser rs \<longleftrightarrow>
     (\<forall>r \<in> set rs. 16 \<le> reply_length r \<and> length (serialize r) = reply_length r \<and>
        (\<forall>rest. deser (serialize r @ rest) = Ok r))"

fun first_decisive :: "bool \<Rightarrow> reply list \<Rightarrow> scan_result" where
  "first_decisive lookup [] = Proceed"
| "first_decisive lookup (r # rs) =
     (case on_reply lookup r of Finished q \<Rightarrow> Finished q | Proceed \<Rightarrow> first_decisive lookup rs)"

fun answer_of :: "scan_result \<Rightarrow> (route_message option, io_error) result option" where
  "answer_of (Finished q) = Some q"
| "answer_of Proceed = None"

definition sample_reply :: reply where
  "sample_reply = \<lparr>reply_length = 18, sequence_number = 1, payload = ErrorReply None\<rparr>"

definition sample_message :: route_message where
  "sample_message =
     \<lparr>inet6 = False, destination_prefix_length = 0, kind = Unicast, protocol = OtherProtocol 4, flags = {Onlink, OtherFlag 9},
      header_rest = [], attributes = [Destination (IpV4 0), OtherAttribute 5 [1],
        MultiPath [\<lparr>hop_flags = {HopDead}, hop_rest = [1]\<rparr>, \<lparr>hop_flags = {HopOnlink, OtherHopFlag 3}, hop_rest = [2]\<rparr>]]\<rparr>"

section \<open>Lemmas\<close>

declare scan_replies.simps [simp del]

lemma live_hops_eq:
  "live_hops attrs =
     (if list_all has_live attrs then Ok (map live_attr attrs)
      else Err (IoError OtherKind ''endpoint route has no live nexthops''))"
proof (induction attrs rule: live_hops.induct)
  case (2 hops attrs)
  have "list_ex (\<lambda>hop. HopDead \<notin> hop_flags hop) hops \<longleftrightarrow> filter (\<lambda>hop. HopDead \<notin> hop_flags hop) hops \<noteq> []"
    by (auto simp: list_ex_iff filter_empty_conv)
  then show ?case using 2 by (simp add: Let_def)
qed simp_all

lemma replayed_live_attr [simp]: "replayed (live_attr a) = replayed a"
  by (cases a) simp_all

lemma live_attr_idem [simp]: "live_attr (live_attr a) = live_attr a"
proof (cases a)
  case (MultiPath hops)
  have "filter (\<lambda>hop. HopDead \<notin> hop_flags hop) (map (\<lambda>hop. hop\<lparr>hop_flags := hop_flags hop \<inter> {HopOnlink, HopPervasive}\<rparr>) xs) =
      map (\<lambda>hop. hop\<lparr>hop_flags := hop_flags hop \<inter> {HopOnlink, HopPervasive}\<rparr>) xs" for xs
    by (induction xs) auto
  then show ?thesis using MultiPath by (simp add: Int_assoc)
qed simp_all

lemma has_live_attr: "has_live a \<Longrightarrow> has_live (live_attr a)"
proof (cases a)
  case (MultiPath hops)
  assume "has_live a"
  then obtain h where "h \<in> set hops" "HopDead \<notin> hop_flags h" using MultiPath by (auto simp: list_ex_iff)
  then show ?thesis using MultiPath by (auto simp: list_ex_iff)
qed simp_all

lemma from_route_eq:
  "from_route ip found =
     (if kind found \<noteq> Unicast \<and> kind found \<noteq> Local then Err (IoError OtherKind ''endpoint route is not reachable'')
      else if \<not> list_all has_live (attributes found) then Err (IoError OtherKind ''endpoint route has no live nexthops'')
      else Ok (host_route ip found))"
proof -
  have "filter replayed (map live_attr attrs) = map live_attr (filter replayed attrs)" for attrs
    by (induction attrs) simp_all
  then show ?thesis by (simp add: from_route_def live_hops_eq host_route_def)
qed

lemma host_route_idem:
  assumes "kind found = Unicast \<or> kind found = Local" and "list_all has_live (attributes found)"
  shows "from_route ip (host_route ip found) = Ok (host_route ip found)"
proof -
  have "list_all has_live (map live_attr (filter replayed (attributes found)) @ [Destination ip])"
    using assms(2) has_live_attr by (auto simp: list_all_iff)
  moreover have "filter replayed (map live_attr (filter replayed attrs) @ [Destination ip]) = map live_attr (filter replayed attrs)" for attrs
    by (induction attrs) simp_all
  moreover have "host_route ip (host_route ip found) = host_route ip found"
  proof -
    have "map live_attr (map live_attr xs) = map live_attr xs" for xs by (simp add: comp_def)
    then show ?thesis using \<open>\<And>attrs. filter replayed (map live_attr (filter replayed attrs) @ [Destination ip]) = map live_attr (filter replayed attrs)\<close>
      by (simp add: host_route_def Int_assoc)
  qed
  ultimately show ?thesis using assms(1) by (auto simp: from_route_eq) (simp_all add: host_route_def)
qed

lemma scan_packed:
  assumes "netlink_codec serialize deser rs"
  shows "scan_replies deser lookup (pre @ packed serialize rs) (length pre) = first_decisive lookup rs"
  using assms
proof (induction rs arbitrary: pre)
  case Nil
  show ?case by (subst scan_replies.simps) (simp add: packed_def)
next
  case (Cons r rs)
  let ?pad = "replicate (aligned (reply_length r) - reply_length r) (0 :: byte)"
  have r: "16 \<le> reply_length r" "length (serialize r) = reply_length r" "\<And>rest. deser (serialize r @ rest) = Ok r"
    using Cons.prems by (auto simp: netlink_codec_def)
  have IH: "scan_replies deser lookup ((pre @ serialize r @ ?pad) @ packed serialize rs) (length (pre @ serialize r @ ?pad)) = first_decisive lookup rs"
    using Cons.prems by (intro Cons.IH) (simp add: netlink_codec_def)
  have len: "length (pre @ serialize r @ ?pad) = length pre + aligned (reply_length r)" using r(2) aligned_ge [of "reply_length r"] by simp
  have bs: "packed serialize (r # rs) = serialize r @ ?pad @ packed serialize rs" by (simp add: packed_def)
  have "length pre < length (pre @ packed serialize (r # rs))" "\<not> reply_length r > length (pre @ packed serialize (r # rs)) - length pre"
    using r(1,2) by (simp_all add: bs)
  then show ?case
    using r IH len by (subst scan_replies.simps) (simp add: bs split: scan_result.split)
qed

lemma first_decisive_append:
  "first_decisive lookup (rs @ rs') = (case first_decisive lookup rs of Finished q \<Rightarrow> Finished q | Proceed \<Rightarrow> first_decisive lookup rs')"
  by (induction rs) (auto split: scan_result.split)

section \<open>Properties\<close>





end
