(* ===== verification/Route_Socket.thy ===== *)
theory Route_Socket
  imports Ip_Util Routes
begin

text \<open>
  Routing messages on macOS, platform/endpoint_macos.rs: the addresses behind a header, endpoint routes,
  and the exchange on a routing socket. The layout of the header \<^verbatim>\<open>rt_msghdr\<close> belongs to the system's C
  library and is a parameter, \<open>rt_layout\<close>: how the header's fields are read from bytes and written over
  them (the macro \<^verbatim>\<open>field!\<close>), which leaves what the fields do not cover. The
  numbers of message types, flags and addresses are those of the system's \<^verbatim>\<open>net/route.h\<close>.
\<close>

section \<open>Definitions\<close>

subsection \<open>Constants of the system\<close>

definition AF_INET :: byte where "AF_INET = 2"
definition AF_LINK :: byte where "AF_LINK = 18"
definition AF_INET6 :: byte where "AF_INET6 = 30"

definition RTM_VERSION :: byte where "RTM_VERSION = 5"
definition RTM_ADD :: byte where "RTM_ADD = 1"
definition RTM_DELETE :: byte where "RTM_DELETE = 2"
definition RTM_GET :: byte where "RTM_GET = 4"

definition RTAX_DST :: nat where "RTAX_DST = 0"
definition RTAX_GATEWAY :: nat where "RTAX_GATEWAY = 1"
definition RTAX_NETMASK :: nat where "RTAX_NETMASK = 2"
definition RTAX_IFP :: nat where "RTAX_IFP = 4"
definition RTAX_IFA :: nat where "RTAX_IFA = 5"
definition RTAX_MAX :: nat where "RTAX_MAX = 8"

text \<open>\<^verbatim>\<open>1 << index\<close>\<close>

definition RTA :: "nat \<Rightarrow> 32 word" where "RTA i = push_bit i 1"

definition RTF_UP :: "32 word" where "RTF_UP = 0x1"
definition RTF_GATEWAY :: "32 word" where "RTF_GATEWAY = 0x2"
definition RTF_HOST :: "32 word" where "RTF_HOST = 0x4"
definition RTF_REJECT :: "32 word" where "RTF_REJECT = 0x8"
definition RTF_DONE :: "32 word" where "RTF_DONE = 0x40"
definition RTF_STATIC :: "32 word" where "RTF_STATIC = 0x800"
definition RTF_BLACKHOLE :: "32 word" where "RTF_BLACKHOLE = 0x1000"
definition RTF_IFSCOPE :: "32 word" where "RTF_IFSCOPE = 0x1000000"
definition RTF_CONDEMNED :: "32 word" where "RTF_CONDEMNED = 0x2000000"
definition RTF_IFREF :: "32 word" where "RTF_IFREF = 0x4000000"
definition RTF_PROXY :: "32 word" where "RTF_PROXY = 0x8000000"
definition RTF_DEAD :: "32 word" where "RTF_DEAD = 0x20000000"

definition RTV_MTU :: "32 word" where "RTV_MTU = 0x1"
definition RTV_HOPCOUNT :: "32 word" where "RTV_HOPCOUNT = 0x2"

subsection \<open>Headers\<close>

record rt_msghdr =
  rtm_msglen :: "16 word"
  rtm_version :: byte
  rtm_type :: byte
  rtm_index :: "16 word"
  rtm_flags :: "32 word"
  rtm_addrs :: "32 word"
  rtm_pid :: "32 word"
  rtm_seq :: "32 word"
  rtm_errno :: "32 word"
  rtm_inits :: "32 word"
  rmx_mtu :: "32 word"
  rmx_hopcount :: "32 word"

definition zero_header :: rt_msghdr where
  "zero_header =
     \<lparr>rtm_msglen = 0, rtm_version = 0, rtm_type = 0, rtm_index = 0, rtm_flags = 0, rtm_addrs = 0, rtm_pid = 0,
      rtm_seq = 0, rtm_errno = 0, rtm_inits = 0, rmx_mtu = 0, rmx_hopcount = 0\<rparr>"

record rt_layout =
  header_size :: nat
  get_header :: "bytes \<Rightarrow> rt_msghdr"
  set_header :: "rt_msghdr \<Rightarrow> bytes \<Rightarrow> bytes"

text \<open>The fields written over a header of zeros.\<close>

definition put_header :: "rt_layout \<Rightarrow> rt_msghdr \<Rightarrow> bytes" where
  "put_header L h = set_header L h (replicate (header_size L) 0)"

definition route_error :: "string \<Rightarrow> io_error" where
  "route_error m = IoError OtherKind m"

definition header :: "rt_layout \<Rightarrow> bytes \<Rightarrow> (rt_msghdr, io_error) result" where
  "header L bs = (if length bs < header_size L then Err (route_error ''truncated routing message'') else Ok (get_header L bs))"

text \<open>\<^verbatim>\<open>u16::try_from\<close> of a length\<close>

definition message_length :: "nat \<Rightarrow> (16 word, io_error) result" where
  "message_length n = (if n \<le> 65535 then Ok (of_nat n) else Err (route_error ''out of range integral type conversion attempted''))"

subsection \<open>Addresses\<close>

definition le16 :: "16 word \<Rightarrow> bytes" where
  "le16 w = [of_nat (unat w mod 256), of_nat (unat w div 256)]"

fun ip_address :: "ip_addr \<Rightarrow> bytes" where
  "ip_address (IpV4 w) = [16, AF_INET, 0, 0] @ octets (IpV4 w) @ replicate 8 0"
| "ip_address (IpV6 w) = [28, AF_INET6] @ replicate 6 0 @ octets (IpV6 w) @ replicate 4 0"

definition link_address :: "16 word \<Rightarrow> bytes" where
  "link_address index = [20, AF_LINK] @ le16 index @ replicate 16 0"

text \<open>The space an address of the given length takes: at least four bytes, and a multiple of four.\<close>

definition address_step :: "nat \<Rightarrow> nat" where
  "address_step n = (max n 4 + 3) div 4 * 4"

definition append :: "bytes \<Rightarrow> bytes \<Rightarrow> bytes" where
  "append payload address = payload @ address @ replicate (address_step (length address) - length address) 0"

text \<open>
  The addresses behind a header: one slot for every index, filled from the bits of \<open>rtm_addrs\<close>. The
  recursion is over the indices that are left.
\<close>

fun address_slots :: "32 word \<Rightarrow> bytes \<Rightarrow> nat list \<Rightarrow> nat \<Rightarrow> (bytes option list, io_error) result" where
  "address_slots addrs bs [] offset = Ok []"
| "address_slots addrs bs (i # is) offset =
     (if \<not> bit addrs i then map_ok (\<lambda>rest. None # rest) (address_slots addrs bs is offset)
      else if \<not> offset < length bs then Err (route_error ''missing route address'')
      else let n = unat (bs ! offset);
               step = address_step n
           in if offset + step > length bs then Err (route_error ''truncated route address'')
              else map_ok (\<lambda>rest. Some (take n (drop offset bs)) # rest) (address_slots addrs bs is (offset + step)))"

definition addresses :: "rt_layout \<Rightarrow> bytes \<Rightarrow> rt_msghdr \<Rightarrow> (bytes option list, io_error) result" where
  "addresses L bs h = address_slots (rtm_addrs h) bs [0..<RTAX_MAX] (header_size L)"

subsection \<open>Endpoint routes\<close>

record endpoint_route =
  ep_destination :: ip_addr
  ep_interface :: "16 word"
  ep_gateway :: bytes
  via_gateway :: bool
  ep_source :: "bytes option"
  ep_mtu :: "32 word"
  ep_hopcount :: "32 word"

fun full_mask :: "ip_addr \<Rightarrow> ip_addr" where
  "full_mask (IpV4 _) = IpV4 (- 1)"
| "full_mask (IpV6 _) = IpV6 (- 1)"

text \<open>The addresses of a message, with the bits that announce them, and the flags.\<close>

definition endpoint_payload :: "endpoint_route \<Rightarrow> byte \<Rightarrow> bytes \<times> 32 word \<times> 32 word" where
  "endpoint_payload r operation =
     (let payload = ip_address (ep_destination r);
          fl = or (or RTF_UP RTF_HOST) RTF_STATIC
      in if operation = RTM_GET
         then (append payload (link_address 0), or (RTA RTAX_DST) (RTA RTAX_IFP), fl)
         else let addrs = or (RTA RTAX_DST) (or (or (RTA RTAX_GATEWAY) (RTA RTAX_NETMASK)) (RTA RTAX_IFP));
                  fl = (if via_gateway r then or fl RTF_GATEWAY else fl);
                  payload = append payload (ep_gateway r);
                  payload = append payload (ip_address (full_mask (ep_destination r)));
                  payload = append payload (link_address (ep_interface r))
              in (case ep_source r of
                    Some source \<Rightarrow> (append payload source, or addrs (RTA RTAX_IFA), fl)
                  | None \<Rightarrow> (payload, addrs, fl)))"

definition endpoint_header :: "endpoint_route \<Rightarrow> byte \<Rightarrow> 16 word \<Rightarrow> 32 word \<Rightarrow> 32 word \<Rightarrow> rt_msghdr" where
  "endpoint_header r operation len addrs fl =
     (let h = zero_header\<lparr>rtm_msglen := len, rtm_version := RTM_VERSION, rtm_type := operation,
                          rtm_index := ep_interface r, rtm_flags := fl, rtm_addrs := addrs\<rparr>
      in if operation = RTM_ADD
         then h\<lparr>rmx_mtu := ep_mtu r, rmx_hopcount := ep_hopcount r,
                rtm_inits := or (if ep_mtu r \<noteq> 0 then RTV_MTU else 0) (if ep_hopcount r \<noteq> 0 then RTV_HOPCOUNT else 0)\<rparr>
         else h)"

definition endpoint_message :: "rt_layout \<Rightarrow> endpoint_route \<Rightarrow> byte \<Rightarrow> (bytes, io_error) result" where
  "endpoint_message L r operation =
     (case endpoint_payload r operation of
        (payload, addrs, fl) \<Rightarrow>
          map_ok (\<lambda>len. put_header L (endpoint_header r operation len addrs fl) @ payload)
            (message_length (header_size L + length payload)))"

text \<open>What the kernel's answer to a query says about the route; an answer without an IP gateway is a direct route.\<close>

definition endpoint_from_reply :: "rt_layout \<Rightarrow> ip_addr \<Rightarrow> bytes \<Rightarrow> (endpoint_route, io_error) result" where
  "endpoint_from_reply L dst reply =
     and_then (header L reply) (\<lambda>h.
       if rtm_index h = 0 \<or> and (rtm_flags h) (or RTF_REJECT RTF_BLACKHOLE) \<noteq> 0
       then Err (route_error ''endpoint route is not reachable'')
       else and_then (addresses L reply h) (\<lambda>attrs.
         let gateway = (case attrs ! RTAX_GATEWAY of
                          Some g \<Rightarrow> if 1 < length g \<and> (g ! 1 = AF_INET \<or> g ! 1 = AF_INET6) then g else link_address (rtm_index h)
                        | None \<Rightarrow> link_address (rtm_index h))
         in Ok \<lparr>ep_destination = dst, ep_interface = rtm_index h, ep_gateway = gateway,
                via_gateway = (and (rtm_flags h) RTF_GATEWAY \<noteq> 0), ep_source = attrs ! RTAX_IFA,
                ep_mtu = rmx_mtu h, ep_hopcount = rmx_hopcount h\<rparr>))"

definition macos_query :: "ip_addr \<Rightarrow> endpoint_route" where
  "macos_query dst =
     \<lparr>ep_destination = dst, ep_interface = 0, ep_gateway = [], via_gateway = False, ep_source = None, ep_mtu = 0, ep_hopcount = 0\<rparr>"

subsection \<open>The exchange\<close>

datatype buffer_scan = Found "(bytes, io_error) result" | Skipped

text \<open>
  The loop over the messages in one buffer. Notifications, which may be shorter than a header, and
  answers to other requests are skipped.
\<close>

function scan_buffer :: "rt_layout \<Rightarrow> byte \<Rightarrow> 32 word \<Rightarrow> 32 word \<Rightarrow> bytes \<Rightarrow> nat \<Rightarrow> buffer_scan" where
  "scan_buffer L operation pid sequence buf offset =
     (if offset < length buf
      then (if length buf - offset < 4 then Found (Err (route_error ''truncated routing message prefix''))
            else let len = unat (buf ! offset) + 256 * unat (buf ! (offset + 1))
                 in if len < 4 \<or> len > length buf - offset then Found (Err (route_error ''invalid routing message length''))
                    else if buf ! (offset + 2) \<noteq> RTM_VERSION \<or> buf ! (offset + 3) \<noteq> operation
                    then scan_buffer L operation pid sequence buf (offset + len)
                    else (case header L (take len (drop offset buf)) of
                            Err e \<Rightarrow> Found (Err e)
                          | Ok reply \<Rightarrow>
                              if rtm_version reply = RTM_VERSION \<and> rtm_pid reply = pid \<and> rtm_seq reply = sequence
                              then Found (if rtm_errno reply \<noteq> 0 then Err (OsError (sint (rtm_errno reply)))
                                          else Ok (take len (drop offset buf)))
                              else scan_buffer L operation pid sequence buf (offset + len)))
      else Skipped)"
  by pat_completeness auto

termination scan_buffer
  by (relation "measure (\<lambda>(L, op, p, q, buf, offset). length buf - offset)") auto

declare scan_buffer.simps [simp del]

text \<open>
  What the reads deliver until the deadline: the bytes of a read (none at the end of the stream), an
  error, or that no time is left.
\<close>

datatype socket_read = ReadBytes bytes | ReadFailed io_error | DeadlinePassed

fun receive_reply :: "rt_layout \<Rightarrow> byte \<Rightarrow> 32 word \<Rightarrow> 32 word \<Rightarrow> socket_read list \<Rightarrow> (bytes, io_error) result option" where
  "receive_reply L operation pid sequence [] = None"
| "receive_reply L operation pid sequence (DeadlinePassed # rs) = Some (Err (IoError TimedOut ''routing reply timed out''))"
| "receive_reply L operation pid sequence (ReadFailed e # rs) = Some (Err e)"
| "receive_reply L operation pid sequence (ReadBytes buf # rs) =
     (if buf = [] then Some (Err (IoError UnexpectedEof ''routing socket closed''))
      else (case scan_buffer L operation pid sequence buf 0 of
              Found r \<Rightarrow> Some r
            | Skipped \<Rightarrow> receive_reply L operation pid sequence rs))"

text \<open>
  The socket and the counter of sequence numbers. \<open>exchange\<close> stamps the message with the process and a
  fresh number; \<^term>\<open>None\<close> means that it still waits.
\<close>

record 'os route_socket =
  own_pid :: "32 word"
  fetch_sequence :: "'os \<Rightarrow> 32 word \<times> 'os"
  open_route_socket :: "('os, unit) call"
  set_close_on_exec :: "('os, unit) call"
  set_socket_timeouts :: "('os, unit) call"
  write_message :: "bytes \<Rightarrow> ('os, unit) call"
  socket_reads :: "'os \<Rightarrow> socket_read list \<times> 'os"

definition stamp :: "rt_layout \<Rightarrow> 32 word \<Rightarrow> 32 word \<Rightarrow> bytes \<Rightarrow> bytes" where
  "stamp L p q message =
     set_header L ((get_header L message)\<lparr>rtm_pid := p, rtm_seq := q\<rparr>) (take (header_size L) message) @
     drop (header_size L) message"

definition exchange :: "rt_layout \<Rightarrow> 'os route_socket \<Rightarrow> bytes \<Rightarrow> 'os \<Rightarrow> ((bytes, io_error) result \<times> 'os) option" where
  "exchange L X message s =
     (case fetch_sequence X s of
        (q, s) \<Rightarrow>
          (case open_route_socket X s of
             (Err e, s) \<Rightarrow> Some (Err e, s)
           | (Ok _, s) \<Rightarrow>
               (case set_close_on_exec X s of
                  (Err e, s) \<Rightarrow> Some (Err e, s)
                | (Ok _, s) \<Rightarrow>
                    (case set_socket_timeouts X s of
                       (Err e, s) \<Rightarrow> Some (Err e, s)
                     | (Ok _, s) \<Rightarrow>
                         (case write_message X (stamp L (own_pid X) q message) s of
                            (Err e, s) \<Rightarrow> Some (Err e, s)
                          | (Ok _, s) \<Rightarrow>
                              (case socket_reads X s of
                                 (rs, s) \<Rightarrow>
                                   map_option (\<lambda>r. (r, s))
                                     (receive_reply L (rtm_type (get_header L message)) (own_pid X) q rs)))))))"

definition macos_lookup :: "rt_layout \<Rightarrow> 'os route_socket \<Rightarrow> ip_addr \<Rightarrow> 'os \<Rightarrow> ((endpoint_route, io_error) result \<times> 'os) option" where
  "macos_lookup L X dst s =
     (case endpoint_message L (macos_query dst) RTM_GET of
        Err e \<Rightarrow> Some (Err e, s)
      | Ok m \<Rightarrow>
          map_option (\<lambda>(r, s). (and_then r (endpoint_from_reply L dst), s)) (exchange L X m s))"

subsection \<open>Specification\<close>

text \<open>A header that was written is read back, whatever follows it; its first bytes are the length, the version and the type.\<close>

definition layout_ok :: "rt_layout \<Rightarrow> bool" where
  "layout_ok L \<longleftrightarrow>
     (\<forall>h bs rest. length bs = header_size L \<longrightarrow>
        length (set_header L h bs) = header_size L \<and> get_header L (set_header L h bs @ rest) = h \<and>
        take 4 (set_header L h bs) = le16 (rtm_msglen h) @ [rtm_version h, rtm_type h]) \<and> 4 \<le> header_size L"

text \<open>An address announces its own length in its first byte; an empty one is announced by a zero.\<close>

definition sockaddr :: "bytes \<Rightarrow> bool" where
  "sockaddr a \<longleftrightarrow> length a < 256 \<and> (a = [] \<or> unat (hd a) = length a)"

definition padded :: "bytes \<Rightarrow> bytes" where
  "padded a = a @ replicate (address_step (length a) - length a) 0"

definition flatten :: "bytes option list \<Rightarrow> bytes" where
  "flatten slots = concat (map (\<lambda>x. case x of Some a \<Rightarrow> padded a | None \<Rightarrow> []) slots)"

definition slots_ok :: "32 word \<Rightarrow> nat list \<Rightarrow> bytes option list \<Rightarrow> bool" where
  "slots_ok addrs is slots \<longleftrightarrow>
     list_all2 (\<lambda>i x. bit addrs i = (x \<noteq> None) \<and> (case x of Some a \<Rightarrow> sockaddr a | None \<Rightarrow> True)) is slots"

text \<open>An endpoint route as a lookup gives it.\<close>

definition endpoint_wf :: "endpoint_route \<Rightarrow> bool" where
  "endpoint_wf r \<longleftrightarrow>
     ep_interface r \<noteq> 0 \<and> sockaddr (ep_gateway r) \<and>
     (ep_gateway r = link_address (ep_interface r) \<or>
      1 < length (ep_gateway r) \<and> (ep_gateway r ! 1 = AF_INET \<or> ep_gateway r ! 1 = AF_INET6)) \<and>
     (case ep_source r of Some a \<Rightarrow> sockaddr a | None \<Rightarrow> True)"

definition endpoint_slots :: "endpoint_route \<Rightarrow> bytes option list" where
  "endpoint_slots r =
     [Some (ip_address (ep_destination r)), Some (ep_gateway r), Some (ip_address (full_mask (ep_destination r))), None,
      Some (link_address (ep_interface r)), ep_source r, None, None]"

text \<open>
  The exchange takes the first message that answers its own request; everything else in the buffers,
  whole messages of any kind, is skipped.
\<close>

definition verdict :: "rt_layout \<Rightarrow> byte \<Rightarrow> 32 word \<Rightarrow> 32 word \<Rightarrow> bytes \<Rightarrow> buffer_scan" where
  "verdict L operation p q m =
     (if m ! 2 \<noteq> RTM_VERSION \<or> m ! 3 \<noteq> operation then Skipped
      else (case header L m of
              Err e \<Rightarrow> Found (Err e)
            | Ok reply \<Rightarrow>
                if rtm_version reply = RTM_VERSION \<and> rtm_pid reply = p \<and> rtm_seq reply = q
                then Found (if rtm_errno reply \<noteq> 0 then Err (OsError (sint (rtm_errno reply))) else Ok m)
                else Skipped))"

fun first_verdict :: "rt_layout \<Rightarrow> byte \<Rightarrow> 32 word \<Rightarrow> 32 word \<Rightarrow> bytes list \<Rightarrow> buffer_scan" where
  "first_verdict L operation p q [] = Skipped"
| "first_verdict L operation p q (m # ms) =
     (case verdict L operation p q m of Found r \<Rightarrow> Found r | Skipped \<Rightarrow> first_verdict L operation p q ms)"

definition whole_message :: "bytes \<Rightarrow> bool" where
  "whole_message m \<longleftrightarrow> 4 \<le> length m \<and> unat (m ! 0) + 256 * unat (m ! 1) = length m"

text \<open>A layout for the examples: the fields one after the other.\<close>

definition be32 :: "32 word \<Rightarrow> bytes" where
  "be32 w = nat_be 4 (unat w)"

definition sample_layout :: rt_layout where
  "sample_layout =
     \<lparr>header_size = 38,
      get_header = (\<lambda>bs. \<lparr>rtm_msglen = of_nat (unat (bs ! 0) + 256 * unat (bs ! 1)), rtm_version = bs ! 2, rtm_type = bs ! 3,
         rtm_index = of_nat (be_nat (take 2 (drop 4 bs))), rtm_flags = of_nat (be_nat (take 4 (drop 6 bs))),
         rtm_addrs = of_nat (be_nat (take 4 (drop 10 bs))), rtm_pid = of_nat (be_nat (take 4 (drop 14 bs))),
         rtm_seq = of_nat (be_nat (take 4 (drop 18 bs))), rtm_errno = of_nat (be_nat (take 4 (drop 22 bs))),
         rtm_inits = of_nat (be_nat (take 4 (drop 26 bs))), rmx_mtu = of_nat (be_nat (take 4 (drop 30 bs))),
         rmx_hopcount = of_nat (be_nat (take 4 (drop 34 bs)))\<rparr>),
      set_header = (\<lambda>h bs. le16 (rtm_msglen h) @ [rtm_version h, rtm_type h] @ nat_be 2 (unat (rtm_index h)) @ be32 (rtm_flags h) @
         be32 (rtm_addrs h) @ be32 (rtm_pid h) @ be32 (rtm_seq h) @ be32 (rtm_errno h) @ be32 (rtm_inits h) @
         be32 (rmx_mtu h) @ be32 (rmx_hopcount h))\<rparr>"

definition sample_endpoint :: endpoint_route where
  "sample_endpoint =
     \<lparr>ep_destination = IpV4 7, ep_interface = 3, ep_gateway = ip_address (IpV4 9), via_gateway = True, ep_source = None, ep_mtu = 1400, ep_hopcount = 0\<rparr>"

section \<open>Lemmas\<close>

lemma layout_okD:
  assumes "layout_ok L"
  shows "length (put_header L h) = header_size L" "get_header L (put_header L h @ rest) = h"
    "take 4 (put_header L h) = le16 (rtm_msglen h) @ [rtm_version h, rtm_type h]" "4 \<le> header_size L"
  using assms by (simp_all add: layout_ok_def put_header_def)

lemma address_step_ge: "n \<le> address_step n" "4 \<le> address_step n"
  unfolding address_step_def by presburger+

lemma length_padded [simp]: "length (padded a) = address_step (length a)"
  using address_step_ge(1) [of "length a"] by (simp add: padded_def)

lemma append_padded: "append p a = p @ padded a"
  by (simp add: append_def padded_def)

lemma sockaddr_head: "sockaddr a \<Longrightarrow> unat ((padded a @ rest) ! 0) = length a"
proof (cases a)
  case Nil
  then show ?thesis by (simp add: padded_def address_step_def nth_append)
qed (simp add: sockaddr_def padded_def)

text \<open>Reading the addresses gives back the slots they were written from.\<close>

lemma address_slots_flatten:
  assumes "slots_ok addrs is slots"
  shows "address_slots addrs (pre @ flatten slots @ post) is (length pre) = Ok slots"
  using assms
proof (induction "is" arbitrary: slots pre)
  case Nil
  then show ?case by (simp add: slots_ok_def)
next
  case (Cons i "is")
  then obtain x xs where s: "slots = x # xs" "bit addrs i = (x \<noteq> None)" "case x of Some a \<Rightarrow> sockaddr a | None \<Rightarrow> True"
      "slots_ok addrs is xs"
    by (auto simp: slots_ok_def list_all2_Cons1)
  show ?case
  proof (cases x)
    case None
    then show ?thesis using s Cons.IH [OF s(4), of pre] by (simp add: flatten_def)
  next
    case (Some a)
    let ?bs = "pre @ padded a @ flatten xs @ post"
    have bs: "pre @ flatten slots @ post = ?bs" using s(1) Some by (simp add: flatten_def)
    have n: "unat (?bs ! length pre) = length a"
      using s(3) Some sockaddr_head [of a "flatten xs @ post"] by (simp add: nth_append)
    have "address_slots addrs ((pre @ padded a) @ flatten xs @ post) is (length (pre @ padded a)) = Ok xs"
      by (rule Cons.IH [OF s(4)])
    moreover have "take (length a) (drop (length pre) ?bs) = a" by (simp add: padded_def)
    moreover have "length pre < length ?bs" using address_step_ge(2) [of "length a"] by simp
    ultimately show ?thesis unfolding bs using s(1,2) Some n by (simp add: Let_def)
  qed
qed

lemma sockaddr_ip [simp]: "sockaddr (ip_address ip)"
  by (cases ip) (simp_all add: sockaddr_def)

lemma padded_ip [simp]: "padded (ip_address ip) = ip_address ip"
  by (cases ip) (simp_all add: padded_def address_step_def)

lemma sockaddr_link [simp]: "sockaddr (link_address i)"
  by (simp add: sockaddr_def link_address_def le16_def)

lemma bit_RTA: "bit (RTA i) j \<longleftrightarrow> i = j \<and> j < 32"
  by (auto simp: RTA_def bit_simps)

lemma indices: "[0..<RTAX_MAX] = [0, 1, 2, 3, 4, 5, 6, 7]"
  by (simp add: RTAX_MAX_def upt_rec)

lemmas rtax = RTAX_DST_def RTAX_GATEWAY_def RTAX_NETMASK_def RTAX_IFP_def RTAX_IFA_def
lemmas rtf = RTF_UP_def RTF_GATEWAY_def RTF_HOST_def RTF_REJECT_def RTF_STATIC_def RTF_BLACKHOLE_def

lemma endpoint_payload_slots:
  assumes "operation \<noteq> RTM_GET" and "endpoint_wf r" and "endpoint_payload r operation = (payload, addrs, fl)"
  shows "payload = flatten (endpoint_slots r) \<and> slots_ok addrs [0..<RTAX_MAX] (endpoint_slots r) \<and>
    fl = (if via_gateway r then or (or (or RTF_UP RTF_HOST) RTF_STATIC) RTF_GATEWAY else or (or RTF_UP RTF_HOST) RTF_STATIC)"
proof (cases "ep_source r")
  case None
  then have p: "payload = flatten (endpoint_slots r)"
    and a: "addrs = or (RTA RTAX_DST) (or (or (RTA RTAX_GATEWAY) (RTA RTAX_NETMASK)) (RTA RTAX_IFP))"
    using assms(1,3) by (auto simp: endpoint_payload_def Let_def append_padded flatten_def endpoint_slots_def)
  have "slots_ok addrs [0..<RTAX_MAX] (endpoint_slots r)"
    unfolding indices a slots_ok_def endpoint_slots_def using assms(2) None
    by (simp add: bit_or_iff bit_RTA rtax endpoint_wf_def)
  then show ?thesis using p assms(1,3) None by (auto simp: endpoint_payload_def Let_def)
next
  case (Some src)
  then have p: "payload = flatten (endpoint_slots r)"
    and a: "addrs = or (or (RTA RTAX_DST) (or (or (RTA RTAX_GATEWAY) (RTA RTAX_NETMASK)) (RTA RTAX_IFP))) (RTA RTAX_IFA)"
    using assms(1,3) by (auto simp: endpoint_payload_def Let_def append_padded flatten_def endpoint_slots_def)
  have "slots_ok addrs [0..<RTAX_MAX] (endpoint_slots r)"
    unfolding indices a slots_ok_def endpoint_slots_def using assms(2) Some
    by (simp add: bit_or_iff bit_RTA rtax endpoint_wf_def)
  then show ?thesis using p assms(1,3) Some by (auto simp: endpoint_payload_def Let_def)
qed

text \<open>Headers and addresses of a message that was put together are read back.\<close>

lemma header_put: "layout_ok L \<Longrightarrow> header L (put_header L h @ payload) = Ok h"
  by (simp add: header_def layout_okD)

lemma addresses_put:
  assumes "layout_ok L" and "slots_ok (rtm_addrs h) [0..<RTAX_MAX] slots"
  shows "addresses L (put_header L h' @ flatten slots) h = Ok slots"
  using address_slots_flatten [OF assms(2), of "put_header L h'" "[]"] layout_okD(1) [OF assms(1)]
  by (simp add: addresses_def)

lemma endpoint_message_cases:
  assumes "operation \<noteq> RTM_GET" and "endpoint_wf r" and "endpoint_message L r operation = Ok bs"
  obtains h where "bs = put_header L h @ flatten (endpoint_slots r)" "slots_ok (rtm_addrs h) [0..<RTAX_MAX] (endpoint_slots r)"
    "rtm_index h = ep_interface r" "rtm_type h = operation" "rtm_version h = RTM_VERSION"
    "unat (rtm_msglen h) = header_size L + length (flatten (endpoint_slots r))"
    "rtm_flags h = (if via_gateway r then or (or (or RTF_UP RTF_HOST) RTF_STATIC) RTF_GATEWAY else or (or RTF_UP RTF_HOST) RTF_STATIC)"
    "operation = RTM_ADD \<Longrightarrow> rmx_mtu h = ep_mtu r \<and> rmx_hopcount h = ep_hopcount r"
proof -
  obtain payload addrs fl where p: "endpoint_payload r operation = (payload, addrs, fl)" by (cases "endpoint_payload r operation")
  note slots = endpoint_payload_slots [OF assms(1,2) p]
  have n: "header_size L + length payload \<le> 65535"
    using assms(3) p by (auto simp: endpoint_message_def message_length_def split: if_splits)
  define h where "h = endpoint_header r operation (of_nat (header_size L + length payload)) addrs fl"
  have bs: "bs = put_header L h @ payload"
    using assms(3) p n by (simp add: endpoint_message_def message_length_def h_def del: of_nat_add)
  have "unat (of_nat (header_size L + length payload) :: 16 word) = header_size L + length payload"
    using n by (simp add: unat_of_nat del: of_nat_add)
  moreover have "rtm_addrs h = addrs" "rtm_index h = ep_interface r" "rtm_type h = operation" "rtm_version h = RTM_VERSION"
    "rtm_msglen h = of_nat (header_size L + length payload)" "rtm_flags h = fl"
    "operation = RTM_ADD \<Longrightarrow> rmx_mtu h = ep_mtu r \<and> rmx_hopcount h = ep_hopcount r"
    by (simp_all add: h_def endpoint_header_def Let_def del: of_nat_add)
  ultimately show thesis using that [of h] bs slots by (simp del: of_nat_add)
qed

lemma length_be32 [simp]: "length (be32 w) = 4"
  by (simp add: be32_def)

lemma be32_read [simp]: "of_nat (be_nat (be32 w)) = w"
proof -
  have "unat w < 256 ^ 4" using unsigned_less [of w, where 'a = nat] by simp
  then show ?thesis by (simp add: be32_def be_nat_nat_be)
qed

lemma le16_read: "of_nat (unat (of_nat (unat w mod 256) :: byte) + 256 * unat (of_nat (unat w div 256) :: byte)) = (w :: 16 word)"
proof -
  have "unat w < 65536" using unsigned_less [of w, where 'a = nat] by simp
  then have "unat w div 256 < 256" by simp
  then have "unat (of_nat (unat w mod 256) :: byte) + 256 * unat (of_nat (unat w div 256) :: byte) = unat w"
    by (simp add: unat_of_nat)
  then show ?thesis by simp
qed

lemma sample_layout_ok: "layout_ok sample_layout"
proof -
  have i: "of_nat (be_nat (nat_be 2 (unat w))) = w" for w :: "16 word"
  proof -
    have "unat w < 256 ^ 2" using unsigned_less [of w, where 'a = nat] by simp
    then show ?thesis by (simp add: be_nat_nat_be)
  qed
  have "length (nat_be 2 n) = 2" for n by simp
  then show ?thesis
    unfolding layout_ok_def sample_layout_def rt_layout.simps
    using le16_read by (simp add: le16_def i del: of_nat_add of_nat_mult)
qed

text \<open>The exchange takes the first verdict.\<close>

lemma scan_buffer_messages:
  assumes "list_all whole_message ms"
  shows "scan_buffer L operation p q (pre @ concat ms) (length pre) = first_verdict L operation p q ms"
  using assms
proof (induction ms arbitrary: pre)
  case Nil
  show ?case by (subst scan_buffer.simps) simp
next
  case (Cons m ms)
  let ?buf = "pre @ m @ concat ms"
  have m: "4 \<le> length m" "unat (m ! 0) + 256 * unat (m ! 1) = length m" using Cons.prems by (simp_all add: whole_message_def)
  have nth: "?buf ! (length pre + i) = m ! i" if "i < 4" for i using that m(1) by (simp add: nth_append)
  have len: "unat (?buf ! length pre) + 256 * unat (?buf ! (length pre + 1)) = length m" using nth [of 0] nth [of 1] m(2) by simp
  have IH: "scan_buffer L operation p q ((pre @ m) @ concat ms) (length (pre @ m)) = first_verdict L operation p q ms"
    using Cons.prems by (intro Cons.IH) simp
  have "length pre < length ?buf" "\<not> length ?buf - length pre < 4" "\<not> (length m < 4 \<or> length m > length ?buf - length pre)"
    "take (length m) (drop (length pre) ?buf) = m"
    using m(1) by auto
  then show ?case
    using len nth [of 2] nth [of 3] IH
    by (subst scan_buffer.simps) (simp add: Let_def verdict_def split: result.split)
qed

lemma receive_reply_first:
  assumes "list_all (list_all whole_message) bufs" and "[] \<notin> set bufs"
  shows "receive_reply L operation p q (map (\<lambda>ms. ReadBytes (concat ms)) bufs) =
    (case first_verdict L operation p q (concat bufs) of Found r \<Rightarrow> Some r | Skipped \<Rightarrow> None)"
  using assms
proof (induction bufs)
  case (Cons ms bufs)
  have "first_verdict L operation p q (ms @ xs) =
      (case first_verdict L operation p q ms of Found r \<Rightarrow> Found r | Skipped \<Rightarrow> first_verdict L operation p q xs)" for xs
    by (induction ms) (simp_all split: buffer_scan.split)
  moreover have "concat ms \<noteq> []" using Cons.prems by (cases ms) (auto simp: whole_message_def)
  ultimately show ?case
    using Cons scan_buffer_messages [of ms L operation p q "[]"] by (auto split: buffer_scan.split)
qed simp

section \<open>Properties\<close>

text \<open>
  C40: The messages for an endpoint route say what the lookup said. Whatever a lookup gave, the message that
  adds the route, read back like an answer of the kernel, gives the same route: destination, interface,
  gateway and whether it is one, source address, MTU and hop count; and both the message that adds it and the one that deletes it carry the full
  host mask and are bound to the interface by its link address.
\<close>

theorem endpoint_message_roundtrip:
  assumes "layout_ok L" and "endpoint_wf r" and "endpoint_message L r RTM_ADD = Ok bs" and "endpoint_message L r RTM_DELETE = Ok bs'"
  shows "endpoint_from_reply L (ep_destination r) bs = Ok r \<and>
    (\<forall>m \<in> {bs, bs'}. \<exists>h slots. header L m = Ok h \<and> addresses L m h = Ok slots \<and> unat (rtm_msglen h) = length m \<and>
       slots ! RTAX_DST = Some (ip_address (ep_destination r)) \<and>
       slots ! RTAX_NETMASK = Some (ip_address (full_mask (ep_destination r))) \<and>
       slots ! RTAX_IFP = Some (link_address (ep_interface r)) \<and> rtm_index h = ep_interface r)"
proof -
  have ops: "RTM_ADD \<noteq> RTM_GET" "RTM_DELETE \<noteq> RTM_GET" by (simp_all add: RTM_ADD_def RTM_DELETE_def RTM_GET_def)
  have read: "\<exists>h slots. header L m = Ok h \<and> addresses L m h = Ok slots \<and> unat (rtm_msglen h) = length m \<and>
       slots ! RTAX_DST = Some (ip_address (ep_destination r)) \<and>
       slots ! RTAX_NETMASK = Some (ip_address (full_mask (ep_destination r))) \<and>
       slots ! RTAX_IFP = Some (link_address (ep_interface r)) \<and> rtm_index h = ep_interface r"
    if m: "operation \<noteq> RTM_GET" "endpoint_message L r operation = Ok m" for operation m
  proof -
    obtain h where h: "m = put_header L h @ flatten (endpoint_slots r)" "slots_ok (rtm_addrs h) [0..<RTAX_MAX] (endpoint_slots r)"
        "rtm_index h = ep_interface r" "unat (rtm_msglen h) = header_size L + length (flatten (endpoint_slots r))"
      using endpoint_message_cases [OF m(1) assms(2) m(2)] by metis
    then show ?thesis
      using header_put [OF assms(1)] addresses_put [OF assms(1) h(2)] layout_okD(1) [OF assms(1)]
      by (intro exI [of _ h] exI [of _ "endpoint_slots r"]) (simp add: rtax endpoint_slots_def)
  qed
  obtain h where h: "bs = put_header L h @ flatten (endpoint_slots r)" "slots_ok (rtm_addrs h) [0..<RTAX_MAX] (endpoint_slots r)"
      "rtm_index h = ep_interface r" "rmx_mtu h = ep_mtu r" "rmx_hopcount h = ep_hopcount r"
      "rtm_flags h = (if via_gateway r then or (or (or RTF_UP RTF_HOST) RTF_STATIC) RTF_GATEWAY else or (or RTF_UP RTF_HOST) RTF_STATIC)"
    using endpoint_message_cases [OF ops(1) assms(2,3)] by metis
  have fl: "and (rtm_flags h) (or RTF_REJECT RTF_BLACKHOLE) = 0" "(and (rtm_flags h) RTF_GATEWAY \<noteq> 0) = via_gateway r"
    unfolding h(6) by (simp_all add: rtf)
  have "endpoint_from_reply L (ep_destination r) bs = Ok r"
    using assms(2) h(3,4,5) fl header_put [OF assms(1), of h] addresses_put [OF assms(1) h(2), of h]
    by (auto simp: endpoint_from_reply_def h(1) Let_def endpoint_slots_def rtax endpoint_wf_def)
  then show ?thesis using read [OF ops(1) assms(3)] read [OF ops(2) assms(4)] by blast
qed

theorem endpoint_message_roundtrip_witness:
  "and_then (endpoint_message sample_layout sample_endpoint RTM_ADD) (endpoint_from_reply sample_layout (IpV4 7)) = Ok sample_endpoint"
proof -
  have wf: "endpoint_wf sample_endpoint"
    by (simp add: endpoint_wf_def sample_endpoint_def sockaddr_def)
  have "\<exists>bs. endpoint_message sample_layout sample_endpoint operation = Ok bs" for operation
    by (simp add: endpoint_message_def message_length_def endpoint_payload_def sample_endpoint_def sample_layout_def append_padded Let_def
        link_address_def le16_def address_step_def)
  then obtain bs bs' where "endpoint_message sample_layout sample_endpoint RTM_ADD = Ok bs"
      "endpoint_message sample_layout sample_endpoint RTM_DELETE = Ok bs'" by metis
  from endpoint_message_roundtrip [OF sample_layout_ok wf this] this show ?thesis by (simp add: sample_endpoint_def)
qed

end
