(* ===== verification/Routes_Macos.thy ===== *)
theory Routes_Macos
  imports Route_Socket
begin

text \<open>
  The routes of a session on macOS, platform/routes_macos.rs: snapshots of routes as routing messages,
  the key that identifies a route, and the record of changes from which the previous routes are restored. The
  trait \<^verbatim>\<open>RouteTable\<close> is the record \<open>route_table\<close>; its implementation on the system is given by \<open>find_route\<close>,
  \<open>dump_routes\<close> and the exchange of \<open>Route_Socket\<close>.
\<close>

section \<open>Definitions\<close>

subsection \<open>Snapshots\<close>

type_synonym snapshot = bytes

record route_key =
  key_family :: byte
  key_destination :: bytes
  key_mask :: bytes
  key_host :: bool
  key_scope :: "16 word"

definition byte_at :: "bytes \<Rightarrow> nat \<Rightarrow> byte option" where
  "byte_at bs i = (if i < length bs then Some (bs ! i) else None)"

definition address_field :: "bytes \<Rightarrow> nat \<Rightarrow> nat \<Rightarrow> bytes" where
  "address_field a off len = map (\<lambda>i. case byte_at a (off + i) of Some b \<Rightarrow> b | None \<Rightarrow> 0) [0..<len]"

definition address_bytes :: "bytes \<Rightarrow> byte \<Rightarrow> (bytes, io_error) result" where
  "address_bytes a family =
     (if family = AF_INET then Ok (address_field a 4 4)
      else if family = AF_INET6
      then let bs = address_field a 8 16
           in Ok (if bs ! 0 = 0xfe \<and> and (bs ! 1) 0xc0 = 0x80 then bs[2 := 0, 3 := 0] else bs)
      else Err (route_error ''unsupported routing address family''))"

definition same_address :: "bytes \<Rightarrow> bytes \<Rightarrow> (bool, io_error) result" where
  "same_address a b =
     (case (byte_at a 1, byte_at b 1) of
        (Some f, Some g) \<Rightarrow>
          if f = g then and_then (address_bytes a f) (\<lambda>x. map_ok (\<lambda>y. x = y) (address_bytes b g)) else Ok False
      | _ \<Rightarrow> Ok False)"

definition has_flag :: "rt_msghdr \<Rightarrow> 32 word \<Rightarrow> bool" where
  "has_flag h f \<longleftrightarrow> and (rtm_flags h) f \<noteq> 0"

definition snap_key :: "rt_layout \<Rightarrow> snapshot \<Rightarrow> (route_key, io_error) result" where
  "snap_key L r =
     and_then (header L r) (\<lambda>h.
     and_then (addresses L r h) (\<lambda>attrs.
     and_then (ok_or (attrs ! RTAX_DST) (route_error ''route has no destination'')) (\<lambda>dst.
     and_then (ok_or (byte_at dst 1) (route_error ''invalid route destination'')) (\<lambda>family.
     and_then (address_bytes dst family) (\<lambda>bs.
     and_then (if has_flag h RTF_HOST then Ok (replicate (length bs) 255)
               else address_bytes (case attrs ! RTAX_NETMASK of Some m \<Rightarrow> m | None \<Rightarrow> []) family) (\<lambda>mask.
     Ok \<lparr>key_family = family, key_destination = map2 and bs mask, key_mask = mask, key_host = has_flag h RTF_HOST,
         key_scope = (if has_flag h RTF_IFSCOPE then rtm_index h else 0)\<rparr>))))))"

definition routing_flags :: "rt_msghdr \<Rightarrow> 32 word" where
  "routing_flags h = and (rtm_flags h) (or (or RTF_GATEWAY RTF_REJECT) RTF_BLACKHOLE)"

definition gateways_equal :: "bytes option \<Rightarrow> bytes option \<Rightarrow> (bool, io_error) result" where
  "gateways_equal a b =
     (case (a, b) of
        (Some a, Some b) \<Rightarrow>
          if byte_at a 1 = Some AF_LINK \<and> byte_at b 1 = Some AF_LINK then Ok True else same_address a b
      | _ \<Rightarrow> Ok (a = b))"

definition sources_equal :: "bytes option \<Rightarrow> bytes option \<Rightarrow> (bool, io_error) result" where
  "sources_equal a b =
     (case b of
        None \<Rightarrow> Ok True
      | Some b \<Rightarrow> (case a of Some a \<Rightarrow> same_address a b | None \<Rightarrow> Ok False))"

definition same_path :: "rt_layout \<Rightarrow> snapshot \<Rightarrow> snapshot \<Rightarrow> (bool, io_error) result" where
  "same_path L x y =
     and_then (header L x) (\<lambda>left.
     and_then (header L y) (\<lambda>right.
     and_then (addresses L x left) (\<lambda>left_attrs.
     and_then (addresses L y right) (\<lambda>right_attrs.
     and_then (snap_key L x) (\<lambda>kx.
     and_then (snap_key L y) (\<lambda>ky.
       if kx \<noteq> ky \<or> rtm_index left \<noteq> rtm_index right \<or> routing_flags left \<noteq> routing_flags right then Ok False
       else and_then (gateways_equal (left_attrs ! RTAX_GATEWAY) (right_attrs ! RTAX_GATEWAY)) (\<lambda>g.
            map_ok (\<lambda>s. g \<and> s) (sources_equal (left_attrs ! RTAX_IFA) (right_attrs ! RTAX_IFA)))))))))"

text \<open>The metrics that are restored with a route: MTU, hop count, expiry, pipe sizes, threshold and round trip times.\<close>

definition ALL_METRICS :: "32 word" where "ALL_METRICS = 0xff"

definition clear_flags :: "32 word \<Rightarrow> 32 word" where
  "clear_flags f = and f (not (or (or RTF_DONE RTF_IFREF) (or RTF_CONDEMNED RTF_DEAD)))"

fun slot_bits :: "nat \<Rightarrow> bytes option list \<Rightarrow> 32 word" where
  "slot_bits i [] = 0"
| "slot_bits i (x # xs) = or (if x = None then 0 else RTA i) (slot_bits (Suc i) xs)"

definition snap_message :: "rt_layout \<Rightarrow> snapshot \<Rightarrow> byte \<Rightarrow> (bytes, io_error) result" where
  "snap_message L r operation =
     and_then (header L r) (\<lambda>h.
       if rtm_index h = 0 then Err (route_error ''route has no interface to restore'')
       else if has_flag h RTF_PROXY then Err (route_error ''cannot safely replace a kernel proxy route'')
       else and_then (addresses L r h) (\<lambda>attrs.
         let attrs = attrs[RTAX_IFP := Some (link_address (rtm_index h))];
             payload = fold (\<lambda>x p. case x of Some a \<Rightarrow> append p a | None \<Rightarrow> p) attrs []
         in map_ok (\<lambda>len.
              set_header L (h\<lparr>rtm_msglen := len, rtm_type := operation, rtm_errno := 0, rtm_addrs := slot_bits 0 attrs,
                              rtm_flags := clear_flags (rtm_flags h),
                              rtm_inits := (if operation = RTM_ADD then ALL_METRICS else 0)\<rparr>)
                (take (header_size L) r) @ payload)
            (message_length (header_size L + length payload))))"

subsection \<open>Routes of the tunnel\<close>

text \<open>The number of an interface, zero for none, with the error that the system then reports, and the mask that the route crate gives for a route's prefix.\<close>

record tun_env =
  if_nametoindex :: "string \<Rightarrow> 32 word"
  last_os_error :: io_error
  route_mask :: "route \<Rightarrow> ip_addr"

fun masked :: "ip_addr \<Rightarrow> ip_addr \<Rightarrow> (ip_addr, io_error) result" where
  "masked (IpV4 a) (IpV4 m) = Ok (IpV4 (and a m))"
| "masked (IpV6 a) (IpV6 m) = Ok (IpV6 (and a m))"
| "masked _ _ = Err (route_error ''route address family mismatch'')"

definition tun_route :: "rt_layout \<Rightarrow> tun_env \<Rightarrow> route \<Rightarrow> (snapshot, io_error) result" where
  "tun_route L V r =
     and_then (ok_or (if_name r) (route_error ''TUN route has no interface'')) (\<lambda>name.
     and_then (if char_of (0 :: nat) \<in> set name then Err (IoError InvalidInput ''data provided contains a nul byte'') else Ok ()) (\<lambda>_.
     and_then (if if_nametoindex V name = 0 then Err (last_os_error V) else Ok (if_nametoindex V name)) (\<lambda>index.
     and_then (message_length (unat index)) (\<lambda>index.
     and_then (masked (destination r) (route_mask V r)) (\<lambda>dst.
       let payload = append (append (append [] (ip_address dst)) (link_address index)) (ip_address (route_mask V r));
           host = (if unat (route_prefix r) = (if is_ipv4 dst then 32 else 128) then RTF_HOST else 0)
       in map_ok (\<lambda>len.
            put_header L (zero_header\<lparr>rtm_msglen := len, rtm_version := RTM_VERSION, rtm_index := index,
                rtm_addrs := or (or (RTA RTAX_DST) (RTA RTAX_GATEWAY)) (RTA RTAX_NETMASK),
                rtm_flags := or (or RTF_UP RTF_STATIC) host\<rparr>) @ payload)
          (message_length (header_size L + length payload)))))))"

subsection \<open>The routing table\<close>

record 'os route_table =
  find :: "route_key \<Rightarrow> ('os, snapshot option) call"
  request :: "snapshot \<Rightarrow> byte \<Rightarrow> ('os, unit) call"

text \<open>The system's table: the first route of a dump that has the key.\<close>

fun find_route :: "rt_layout \<Rightarrow> route_key \<Rightarrow> snapshot list \<Rightarrow> (snapshot option, io_error) result" where
  "find_route L key [] = Ok None"
| "find_route L key (r # rs) =
     and_then (snap_key L r) (\<lambda>k. if k = key then Ok (Some r) else find_route L key rs)"

text \<open>
  The loop over the messages of a dump; it advances by at least the size of a header, which is never zero.
\<close>

function parse_dump :: "rt_layout \<Rightarrow> bytes \<Rightarrow> nat \<Rightarrow> (snapshot list, io_error) result" where
  "parse_dump L bs offset =
     (if offset < length bs
      then and_then (header L (drop offset bs)) (\<lambda>h.
        let len = unat (rtm_msglen h)
        in if len < max 1 (header_size L) \<or> len > length bs - offset then Err (route_error ''invalid route dump message'')
           else if rtm_version h \<noteq> RTM_VERSION then Err (route_error ''unexpected route dump version'')
           else let message = take len (drop offset bs)
                in and_then (addresses L message h) (\<lambda>attrs.
                     let keep = (case attrs ! RTAX_DST of
                                   Some dst \<Rightarrow> byte_at dst 1 = Some AF_INET \<or> byte_at dst 1 = Some AF_INET6
                                 | None \<Rightarrow> False)
                     in map_ok (\<lambda>rest. if keep then message # rest else rest) (parse_dump L bs (offset + len))))
      else Ok [])"
  by pat_completeness auto

termination parse_dump
  by (relation "measure (\<lambda>(L, bs, offset). length bs - offset)") auto

declare parse_dump.simps [simp del]

text \<open>The dump is tried three times, since the table may grow between asking for its size and reading it.\<close>

record 'os sysctl_ops =
  dump_size :: "('os, nat) call"
  dump_read :: "nat \<Rightarrow> ('os, bytes) call"

definition ENOMEM :: int where "ENOMEM = 12"
definition ESRCH :: int where "ESRCH = 3"

fun dump_tries :: "nat \<Rightarrow> rt_layout \<Rightarrow> 'os sysctl_ops \<Rightarrow> ('os, snapshot list) call" where
  "dump_tries 0 L Y s = (Err (route_error ''routing table kept changing during snapshot''), s)"
| "dump_tries (Suc n) L Y s =
     (case dump_size Y s of
        (Err e, s) \<Rightarrow> (Err e, s)
      | (Ok n', s) \<Rightarrow>
          (case dump_read Y n' s of
             (Err e, s) \<Rightarrow> if e = OsError ENOMEM then dump_tries n L Y s else (Err e, s)
           | (Ok bs, s) \<Rightarrow> (parse_dump L bs 0, s)))"

definition dump_routes :: "rt_layout \<Rightarrow> 'os sysctl_ops \<Rightarrow> ('os, snapshot list) call" where
  "dump_routes L Y s = dump_tries 3 L Y s"

definition system_find :: "rt_layout \<Rightarrow> 'os sysctl_ops \<Rightarrow> route_key \<Rightarrow> ('os, snapshot option) call" where
  "system_find L Y key s = (case dump_routes L Y s of (r, s) \<Rightarrow> (and_then r (find_route L key), s))"

definition system_request ::
    "rt_layout \<Rightarrow> 'os route_socket \<Rightarrow> snapshot \<Rightarrow> byte \<Rightarrow> 'os \<Rightarrow> ((unit, io_error) result \<times> 'os) option" where
  "system_request L X r operation s =
     (case snap_message L r operation of
        Err e \<Rightarrow> Some (Err e, s)
      | Ok m \<Rightarrow> map_option (\<lambda>(q, s). (map_ok (\<lambda>_. ()) q, s)) (exchange L X m s))"

text \<open>
  \<^verbatim>\<open>SystemRoutes\<close>. The exchange has a deadline: when what the socket delivers is used up, the wait ends with the
  deadline's error.
\<close>

definition system_routes :: "rt_layout \<Rightarrow> 'os sysctl_ops \<Rightarrow> 'os route_socket \<Rightarrow> 'os route_table" where
  "system_routes L Y X =
     \<lparr>find = system_find L Y,
      request = (\<lambda>r operation s. case system_request L X r operation s of
                   Some (q, s) \<Rightarrow> (q, s)
                 | None \<Rightarrow> (Err (IoError TimedOut ''routing reply timed out''), s))\<rparr>"

subsection \<open>The changes of a session\<close>

record route_change =
  ch_key :: route_key
  ch_route :: snapshot
  ch_previous :: "snapshot option"
  add_attempted :: bool

type_synonym session_routes = "route_change list"

text \<open>Whether the route that is in the way could be put back at all.\<close>

definition check_previous :: "rt_layout \<Rightarrow> snapshot option \<Rightarrow> (unit, io_error) result" where
  "check_previous L previous =
     (case previous of None \<Rightarrow> Ok () | Some p \<Rightarrow> map_ok (\<lambda>_. ()) (snap_message L p RTM_ADD))"

definition add ::
    "rt_layout \<Rightarrow> 'os route_table \<Rightarrow> snapshot \<Rightarrow> session_routes \<Rightarrow> 'os \<Rightarrow> (unit, io_error) result \<times> session_routes \<times> 'os" where
  "add L T r changes s =
     (case snap_key L r of
        Err e \<Rightarrow> (Err e, changes, s)
      | Ok key \<Rightarrow>
          if list_ex (\<lambda>c. ch_key c = key) changes then (Ok (), changes, s)
          else (case find T key s of
                  (Err e, s) \<Rightarrow> (Err e, changes, s)
                | (Ok previous, s) \<Rightarrow>
                    (case check_previous L previous of
                       Err e \<Rightarrow> (Err e, changes, s)
                     | Ok _ \<Rightarrow>
                         let change = \<lparr>ch_key = key, ch_route = r, ch_previous = previous, add_attempted = False\<rparr>
                         in (case (case previous of None \<Rightarrow> (Ok (), s) | Some p \<Rightarrow> request T p RTM_DELETE s) of
                               (Err e, s) \<Rightarrow> (Err e, changes @ [change], s)
                             | (Ok _, s) \<Rightarrow>
                                 (case request T r RTM_ADD s of
                                    (q, s) \<Rightarrow> (q, changes @ [change\<lparr>add_attempted := True\<rparr>], s))))))"

text \<open>The endpoints come first, then the routes of the tunnel; the first error ends the installation.\<close>

fun add_all ::
    "rt_layout \<Rightarrow> 'os route_table \<Rightarrow> (snapshot, io_error) result list \<Rightarrow> session_routes \<Rightarrow> 'os \<Rightarrow>
       (unit, io_error) result \<times> session_routes \<times> 'os" where
  "add_all L T [] changes s = (Ok (), changes, s)"
| "add_all L T (Err e # rs) changes s = (Err e, changes, s)"
| "add_all L T (Ok r # rs) changes s =
     (case add L T r changes s of
        (Err e, changes, s) \<Rightarrow> (Err e, changes, s)
      | (Ok _, changes, s) \<Rightarrow> add_all L T rs changes s)"

definition install ::
    "rt_layout \<Rightarrow> tun_env \<Rightarrow> 'os route_table \<Rightarrow> route list \<Rightarrow> endpoint_route list \<Rightarrow> session_routes \<Rightarrow> 'os \<Rightarrow>
       (unit, io_error) result \<times> session_routes \<times> 'os" where
  "install L V T vpn eps changes s =
     add_all L T (map (\<lambda>r. endpoint_message L r RTM_ADD) eps @ map (tun_route L V) vpn) changes s"

definition put_back :: "'os route_table \<Rightarrow> snapshot option \<Rightarrow> ('os, unit) call" where
  "put_back T previous s = (case previous of None \<Rightarrow> (Ok (), s) | Some p \<Rightarrow> request T p RTM_ADD s)"

definition restore_change :: "rt_layout \<Rightarrow> 'os route_table \<Rightarrow> route_change \<Rightarrow> ('os, unit) call" where
  "restore_change L T c s =
     (case find T (ch_key c) s of
        (Err e, s) \<Rightarrow> (Err e, s)
      | (Ok None, s) \<Rightarrow> put_back T (ch_previous c) s
      | (Ok (Some current), s) \<Rightarrow>
          if \<not> add_attempted c then (Ok (), s)
          else (case same_path L current (ch_route c) of
                  Err e \<Rightarrow> (Err e, s)
                | Ok False \<Rightarrow> (Err (route_error ''route changed outside its session; leaving it untouched''), s)
                | Ok True \<Rightarrow>
                    (case request T current RTM_DELETE s of
                       (Ok _, s) \<Rightarrow> put_back T (ch_previous c) s
                     | (Err e, s) \<Rightarrow> if e = OsError ESRCH then put_back T (ch_previous c) s else (Err e, s))))"

fun restore_all :: "rt_layout \<Rightarrow> 'os route_table \<Rightarrow> route_change list \<Rightarrow> 'os \<Rightarrow> io_error list \<times> 'os" where
  "restore_all L T [] s = ([], s)"
| "restore_all L T (c # cs) s =
     (case restore_change L T c s of
        (r, s) \<Rightarrow> (case restore_all L T cs s of (es, s) \<Rightarrow> ((case r of Ok _ \<Rightarrow> es | Err e \<Rightarrow> e # es), s)))"

text \<open>The changes are taken out first, so a second restore has nothing to do.\<close>

definition restore ::
    "(io_error \<Rightarrow> string) \<Rightarrow> rt_layout \<Rightarrow> 'os route_table \<Rightarrow> session_routes \<Rightarrow> 'os \<Rightarrow> (unit, string) result \<times> session_routes \<times> 'os" where
  "restore io_str L T changes s =
     (case restore_all L T (rev changes) s of
        (es, s) \<Rightarrow> (if es = [] then Ok () else Err (join ''; '' (map io_str es)), [], s))"

subsection \<open>Specification\<close>

text \<open>
  What the code relies on of the kernel, with no one else changing the table meanwhile: \<open>tab\<close> is the path kept for every key and \<open>p\<close> the path a
  snapshot describes. A lookup is exact and changes nothing. A request that succeeded took effect; one
  that failed may have taken effect or not (its answer may have been lost); deleting fails with \<^const>\<open>ESRCH\<close>
  only where there is no route.
\<close>

definition find_ok :: "rt_layout \<Rightarrow> 'os route_table \<Rightarrow> ('os \<Rightarrow> route_key \<Rightarrow> 'p option) \<Rightarrow> (snapshot \<Rightarrow> 'p) \<Rightarrow> bool" where
  "find_ok L T tab p \<longleftrightarrow>
     (\<forall>s k q s'. find T k s = (q, s') \<longrightarrow> tab s' = tab s \<and>
        (case q of Ok None \<Rightarrow> tab s k = None
         | Ok (Some r) \<Rightarrow> snap_key L r = Ok k \<and> tab s k = Some (p r)
         | Err _ \<Rightarrow> True))"

definition delete_ok :: "rt_layout \<Rightarrow> 'os route_table \<Rightarrow> ('os \<Rightarrow> route_key \<Rightarrow> 'p option) \<Rightarrow> bool" where
  "delete_ok L T tab \<longleftrightarrow>
     (\<forall>s r k q s'. snap_key L r = Ok k \<longrightarrow> request T r RTM_DELETE s = (q, s') \<longrightarrow>
        (tab s' = tab s \<or> tab s' = (tab s)(k := None)) \<and>
        (q = Ok () \<longrightarrow> tab s' k = None) \<and> (q = Err (OsError ESRCH) \<longrightarrow> tab s k = None))"

definition add_ok :: "rt_layout \<Rightarrow> 'os route_table \<Rightarrow> ('os \<Rightarrow> route_key \<Rightarrow> 'p option) \<Rightarrow> (snapshot \<Rightarrow> 'p) \<Rightarrow> bool" where
  "add_ok L T tab p \<longleftrightarrow>
     (\<forall>s r k q s'. snap_key L r = Ok k \<longrightarrow> request T r RTM_ADD s = (q, s') \<longrightarrow>
        (tab s' = tab s \<or> tab s' = (tab s)(k \<mapsto> p r)) \<and> (q = Ok () \<longrightarrow> tab s' k = Some (p r)))"

definition table_ok :: "rt_layout \<Rightarrow> 'os route_table \<Rightarrow> ('os \<Rightarrow> route_key \<Rightarrow> 'p option) \<Rightarrow> (snapshot \<Rightarrow> 'p) \<Rightarrow> bool" where
  "table_ok L T tab p \<longleftrightarrow> find_ok L T tab p \<and> delete_ok L T tab \<and> add_ok L T tab p"

text \<open>A kernel that answers every lookup and refuses no request that is possible, and reports the routes of the changes as they were added.\<close>

definition answers :: "rt_layout \<Rightarrow> 'os route_table \<Rightarrow> ('os \<Rightarrow> route_key \<Rightarrow> 'p option) \<Rightarrow> (snapshot \<Rightarrow> 'p) \<Rightarrow> session_routes \<Rightarrow> bool" where
  "answers L T tab p changes \<longleftrightarrow>
     (\<forall>s k. \<exists>r s'. find T k s = (Ok r, s')) \<and>
     (\<forall>s r k. snap_key L r = Ok k \<longrightarrow> tab s k \<noteq> None \<longrightarrow> fst (request T r RTM_DELETE s) = Ok ()) \<and>
     (\<forall>s r k. snap_key L r = Ok k \<longrightarrow> tab s k = None \<longrightarrow> fst (request T r RTM_ADD s) = Ok ()) \<and>
     (\<forall>c \<in> set changes. \<forall>r. snap_key L r = Ok (ch_key c) \<longrightarrow> p r = p (ch_route c) \<longrightarrow> same_path L r (ch_route c) = Ok True)"

text \<open>A change, with the original and the present path of its key.\<close>

definition change_ok :: "rt_layout \<Rightarrow> (snapshot \<Rightarrow> 'p) \<Rightarrow> (route_key \<Rightarrow> 'p option) \<Rightarrow> (route_key \<Rightarrow> 'p option) \<Rightarrow> route_change \<Rightarrow> bool" where
  "change_ok L p orig now c \<longleftrightarrow>
     snap_key L (ch_route c) = Ok (ch_key c) \<and>
     (case ch_previous c of None \<Rightarrow> orig (ch_key c) = None
      | Some r \<Rightarrow> snap_key L r = Ok (ch_key c) \<and> orig (ch_key c) = Some (p r)) \<and>
     (now (ch_key c) = None \<or>
      now (ch_key c) = (if add_attempted c then Some (p (ch_route c)) else orig (ch_key c)))"

definition changes_ok :: "rt_layout \<Rightarrow> (snapshot \<Rightarrow> 'p) \<Rightarrow> (route_key \<Rightarrow> 'p option) \<Rightarrow> (route_key \<Rightarrow> 'p option) \<Rightarrow> session_routes \<Rightarrow> bool" where
  "changes_ok L p orig now changes \<longleftrightarrow>
     distinct (map ch_key changes) \<and> list_all (change_ok L p orig now) changes \<and>
     (\<forall>k. k \<notin> ch_key ` set changes \<longrightarrow> now k = orig k)"

text \<open>The key of a host route without a scope.\<close>

fun family_of :: "ip_addr \<Rightarrow> byte" where
  "family_of (IpV4 _) = AF_INET"
| "family_of (IpV6 _) = AF_INET6"

definition host_key :: "ip_addr \<Rightarrow> route_key" where
  "host_key d =
     (let bs = (case address_bytes (ip_address d) (family_of d) of Ok bs \<Rightarrow> bs | Err _ \<Rightarrow> []);
          mask = replicate (length bs) 255
      in \<lparr>key_family = family_of d, key_destination = map2 and bs mask, key_mask = mask, key_host = True, key_scope = 0\<rparr>)"

text \<open>A kernel for the examples: the routes by key.\<close>

definition sample_tab :: "(route_key \<Rightarrow> snapshot option) \<Rightarrow> route_key \<Rightarrow> snapshot option" where
  "sample_tab s k = (case s k of Some r \<Rightarrow> if snap_key sample_layout r = Ok k then Some r else None | None \<Rightarrow> None)"

definition sample_request :: "snapshot \<Rightarrow> byte \<Rightarrow> (route_key \<Rightarrow> snapshot option, unit) call" where
  "sample_request r operation s =
     (case snap_key sample_layout r of
        Err e \<Rightarrow> (Err e, s)
      | Ok k \<Rightarrow>
          if operation = RTM_ADD then (if sample_tab s k = None then (Ok (), s(k \<mapsto> r)) else (Err (OsError 17), s))
          else if sample_tab s k = None then (Err (OsError ESRCH), s) else (Ok (), s(k := None)))"

definition sample_kernel :: "(route_key \<Rightarrow> snapshot option) route_table" where
  "sample_kernel = \<lparr>find = (\<lambda>k s. (Ok (sample_tab s k), s)), request = sample_request\<rparr>"

definition sample_state :: "route_key \<Rightarrow> snapshot option" where
  "sample_state =
     (case endpoint_message sample_layout (sample_endpoint\<lparr>ep_gateway := ip_address (IpV4 1)\<rparr>) RTM_ADD of
        Ok m \<Rightarrow> [host_key (IpV4 7) \<mapsto> m]
      | Err _ \<Rightarrow> Map.empty)"

definition sample_env :: tun_env where
  "sample_env = \<lparr>if_nametoindex = (\<lambda>_. 1), last_os_error = OsError 6, route_mask = destination\<rparr>"

section \<open>Lemmas\<close>

lemma table_okD:
  assumes "table_ok L T tab p"
  shows "find T k s = (q, s') \<Longrightarrow> tab s' = tab s"
    "find T k s = (Ok None, s') \<Longrightarrow> tab s k = None"
    "find T k s = (Ok (Some r), s') \<Longrightarrow> snap_key L r = Ok k \<and> tab s k = Some (p r)"
    "snap_key L r = Ok k \<Longrightarrow> request T r RTM_DELETE s = (q', s') \<Longrightarrow>
       (tab s' = tab s \<or> tab s' = (tab s)(k := None)) \<and>
       (q' = Ok () \<longrightarrow> tab s' k = None) \<and> (q' = Err (OsError ESRCH) \<longrightarrow> tab s k = None)"
    "snap_key L r = Ok k \<Longrightarrow> request T r RTM_ADD s = (q', s') \<Longrightarrow>
       (tab s' = tab s \<or> tab s' = (tab s)(k \<mapsto> p r)) \<and> (q' = Ok () \<longrightarrow> tab s' k = Some (p r))"
  using assms unfolding table_ok_def find_ok_def delete_ok_def add_ok_def
  by (blast, fastforce, fastforce, blast, blast)

lemma change_ok_cong: "now' (ch_key c) = now (ch_key c) \<Longrightarrow> change_ok L p orig now' c = change_ok L p orig now c"
  by (simp add: change_ok_def)

lemma changes_ok_snoc:
  assumes "changes_ok L p orig now changes" and "ch_key c \<notin> ch_key ` set changes" and "change_ok L p orig now' c"
    and "\<And>k. k \<noteq> ch_key c \<Longrightarrow> now' k = now k"
  shows "changes_ok L p orig now' (changes @ [c])"
proof -
  have "change_ok L p orig now' d" if "d \<in> set changes" for d
  proof -
    have "ch_key d \<noteq> ch_key c" using that assms(2) by (metis imageI)
    then show ?thesis using change_ok_cong [of now' d now L p orig] assms(1,4) that by (simp add: changes_ok_def list_all_iff)
  qed
  then show ?thesis using assms by (auto simp: changes_ok_def list_all_iff)
qed

text \<open>Every way \<open>add\<close> can end leaves the record of changes true.\<close>

lemma add_changes_ok:
  assumes T: "table_ok L T tab p" and inv: "changes_ok L p orig (tab s) changes" and run: "add L T r changes s = (q, changes', s')"
  shows "changes_ok L p orig (tab s') changes'"
proof (cases "snap_key L r")
  case (Err e)
  then show ?thesis using inv run by (simp add: add_def)
next
  case key: (Ok k)
  show ?thesis
  proof (cases "list_ex (\<lambda>c. ch_key c = k) changes")
    case True
    then show ?thesis using inv run key by (simp add: add_def)
  next
    case False
    then have new: "k \<notin> ch_key ` set changes" by (auto simp: list_ex_iff)
    obtain f s1 where f: "find T k s = (f, s1)" by (cases "find T k s")
    note same = table_okD(1) [OF T f]
    show ?thesis
    proof (cases "\<exists>previous. f = Ok previous \<and> (\<exists>u. check_previous L previous = Ok u)")
      case False
      then have "changes' = changes" "s' = s1"
        using run key f \<open>\<not> list_ex _ changes\<close> by (auto simp: add_def split: result.splits)
      then show ?thesis using inv same by simp
    next
      case True
      then obtain previous u where prev: "f = Ok previous" "check_previous L previous = Ok u" by blast
      let ?c = "\<lparr>ch_key = k, ch_route = r, ch_previous = previous, add_attempted = False\<rparr>"
      have orig: "orig k = tab s k" using inv new by (simp add: changes_ok_def)
      have recorded: "case previous of None \<Rightarrow> orig k = None | Some x \<Rightarrow> snap_key L x = Ok k \<and> orig k = Some (p x)"
        using table_okD(2,3) [OF T, of k s] f prev(1) orig by (cases previous) auto
      obtain d s2 where d: "(case previous of None \<Rightarrow> (Ok (), s1) | Some x \<Rightarrow> request T x RTM_DELETE s1) = (d, s2)" by fastforce
      have cleared: "(tab s2 = tab s \<or> tab s2 = (tab s)(k := None)) \<and> (d = Ok () \<longrightarrow> tab s2 k = None)"
        using d recorded orig same table_okD(4) [OF T, of _ k s1 d s2] by (cases previous) auto
      show ?thesis
      proof (cases d)
        case (Err e)
        then have final: "changes' = changes @ [?c]" "s' = s2" using run key f \<open>\<not> list_ex _ changes\<close> prev d by (auto simp: add_def Let_def)
        have now: "tab s2 k = None \<or> tab s2 k = orig k" and others: "\<And>j. j \<noteq> k \<Longrightarrow> tab s2 j = tab s j"
          using cleared orig by auto
        have "change_ok L p orig (tab s2) ?c"
          using now recorded key by (simp add: change_ok_def split: option.splits)
        then have "changes_ok L p orig (tab s2) (changes @ [?c])"
          using new others by (intro changes_ok_snoc [OF inv]) simp_all
        with final show ?thesis by simp
      next
        case (Ok u)
        obtain a s3 where a: "request T r RTM_ADD s2 = (a, s3)" by fastforce
        have final: "changes' = changes @ [?c\<lparr>add_attempted := True\<rparr>]" "s' = s3"
          using run key f \<open>\<not> list_ex _ changes\<close> prev d Ok a by (auto simp: add_def Let_def)
        have "tab s3 = tab s2 \<or> tab s3 = (tab s2)(k \<mapsto> p r)" using table_okD(5) [OF T key a] by blast
        then have now: "tab s3 k = None \<or> tab s3 k = Some (p r)" and others: "\<And>j. j \<noteq> k \<Longrightarrow> tab s3 j = tab s j"
          using cleared Ok by auto
        have "change_ok L p orig (tab s3) (?c\<lparr>add_attempted := True\<rparr>)"
          using now recorded key by (simp add: change_ok_def split: option.splits)
        then have "changes_ok L p orig (tab s3) (changes @ [?c\<lparr>add_attempted := True\<rparr>])"
          using new others by (intro changes_ok_snoc [OF inv]) simp_all
        with final show ?thesis by simp
      qed
    qed
  qed
qed

lemma add_all_changes_ok:
  assumes "table_ok L T tab p" and "changes_ok L p orig (tab s) changes" and "add_all L T rs changes s = (q, changes', s')"
  shows "changes_ok L p orig (tab s') changes'"
  using assms(2,3)
proof (induction rs arbitrary: changes s)
  case (Cons x rs)
  show ?case
  proof (cases x)
    case (Err e)
    then show ?thesis using Cons.prems by simp
  next
    case (Ok r)
    obtain a changes1 s1 where a: "add L T r changes s = (a, changes1, s1)" by (metis prod_cases3)
    note step = add_changes_ok [OF assms(1) Cons.prems(1) a]
    then show ?thesis using Cons.prems(2) Ok a Cons.IH [OF step] by (cases a) auto
  qed
qed simp

lemma answers_find: "answers L T tab p changes \<Longrightarrow> find T k s \<noteq> (Err e, s')"
proof -
  assume "answers L T tab p changes"
  then obtain r s'' where "find T k s = (Ok r, s'')" unfolding answers_def by blast
  then show ?thesis by simp
qed

lemma put_back_restores:
  assumes T: "table_ok L T tab p" and c: "change_ok L p orig now c" and gone: "tab s (ch_key c) = None"
    and run: "put_back T (ch_previous c) s = (q, s')"
  shows "(\<forall>k. k \<noteq> ch_key c \<longrightarrow> tab s' k = tab s k) \<and> (q = Ok () \<longrightarrow> tab s' (ch_key c) = orig (ch_key c)) \<and>
    (answers L T tab p changes \<longrightarrow> q = Ok ())"
proof (cases "ch_previous c")
  case None
  then show ?thesis using c gone run by (simp add: put_back_def change_ok_def)
next
  case (Some r)
  then have r: "snap_key L r = Ok (ch_key c)" "orig (ch_key c) = Some (p r)" using c by (simp_all add: change_ok_def)
  have req: "request T r RTM_ADD s = (q, s')" using run Some by (simp add: put_back_def)
  have "answers L T tab p changes \<longrightarrow> q = Ok ()"
    using r(1) gone req unfolding answers_def by (metis fst_conv)
  then show ?thesis using table_okD(5) [OF T r(1) req] r(2) by auto
qed

text \<open>Restoring one change touches its own key only, and succeeds only by bringing back what was there.\<close>

lemma restore_change_restores:
  assumes T: "table_ok L T tab p" and c: "change_ok L p orig (tab s) c" and run: "restore_change L T c s = (q, s')"
    and mem: "c \<in> set changes"
  shows "(\<forall>k. k \<noteq> ch_key c \<longrightarrow> tab s' k = tab s k) \<and> (q = Ok () \<longrightarrow> tab s' (ch_key c) = orig (ch_key c)) \<and>
    (answers L T tab p changes \<longrightarrow> q = Ok ())"
proof -
  obtain f s1 where f: "find T (ch_key c) s = (f, s1)" by fastforce
  note same = table_okD(1) [OF T f]
  consider (failed) e where "f = Err e" | (gone) "f = Ok None" | (there) r where "f = Ok (Some r)"
    by (cases f) auto
  then show ?thesis
  proof cases
    case failed
    then show ?thesis using run f same answers_find [of L T tab p changes] by (auto simp: restore_change_def)
  next
    case gone
    then have "put_back T (ch_previous c) s1 = (q, s')" using run f by (simp add: restore_change_def)
    then show ?thesis using put_back_restores [OF T c, of s1] table_okD(2) [OF T, of "ch_key c" s s1] gone f same by simp
  next
    case there
    then have r: "snap_key L r = Ok (ch_key c)" "tab s (ch_key c) = Some (p r)" using table_okD(3) [OF T, of "ch_key c" s r s1] f by simp_all
    show ?thesis
    proof (cases "add_attempted c \<and> same_path L r (ch_route c) = Ok True")
      case False
      then have "s' = s1" "q = Ok () \<longrightarrow> \<not> add_attempted c" "\<not> add_attempted c \<longrightarrow> q = Ok ()"
        using run f there by (auto simp: restore_change_def split: result.splits bool.splits if_splits)
      moreover have "add_attempted c \<Longrightarrow> p r = p (ch_route c)" using c r(2) by (auto simp: change_ok_def)
      ultimately show ?thesis using c r same mem False by (auto simp: change_ok_def answers_def)
    next
      case True
      obtain d s2 where d: "request T r RTM_DELETE s1 = (d, s2)" by fastforce
      note del = table_okD(4) [OF T r(1) d]
      have del': "answers L T tab p changes \<longrightarrow> d = Ok ()"
        using r same d unfolding answers_def by (metis fst_conv option.distinct(1))
      show ?thesis
      proof (cases "d = Ok () \<or> d = Err (OsError ESRCH)")
        case ok: True
        then have "put_back T (ch_previous c) s2 = (q, s')" using run f there True d by (auto simp: restore_change_def)
        moreover have gone: "tab s2 (ch_key c) = None" using del ok by auto
        ultimately have "(\<forall>k. k \<noteq> ch_key c \<longrightarrow> tab s' k = tab s2 k) \<and> (q = Ok () \<longrightarrow> tab s' (ch_key c) = orig (ch_key c)) \<and>
            (answers L T tab p changes \<longrightarrow> q = Ok ())"
          by (intro put_back_restores [OF T c])
        moreover have "\<And>k. k \<noteq> ch_key c \<Longrightarrow> tab s2 k = tab s k" using del same by auto
        ultimately show ?thesis by simp
      next
        case False
        then have "s' = s2" "q = d" using run f there True d by (auto simp: restore_change_def split: result.splits)
        moreover have "\<And>k. k \<noteq> ch_key c \<Longrightarrow> tab s2 k = tab s k" using del same by auto
        ultimately show ?thesis using del' False by blast
      qed
    qed
  qed
qed

lemma restore_all_restores:
  assumes "table_ok L T tab p" and "distinct (map ch_key cs)" and "list_all (change_ok L p orig (tab s)) cs" and "set cs \<subseteq> set changes"
    and "restore_all L T cs s = (es, s')"
  shows "(\<forall>k. k \<notin> ch_key ` set cs \<longrightarrow> tab s' k = tab s k) \<and> (es = [] \<longrightarrow> (\<forall>k \<in> ch_key ` set cs. tab s' k = orig k)) \<and>
    (answers L T tab p changes \<longrightarrow> es = [])"
  using assms(2-)
proof (induction cs arbitrary: s es)
  case (Cons c cs)
  obtain q s1 where q: "restore_change L T c s = (q, s1)" by fastforce
  obtain es' s2 where es: "restore_all L T cs s1 = (es', s2)" by fastforce
  have run: "s' = s2" "es = (case q of Ok _ \<Rightarrow> es' | Err e \<Rightarrow> e # es')" using Cons.prems(4) q es by simp_all
  have one: "(\<forall>k. k \<noteq> ch_key c \<longrightarrow> tab s1 k = tab s k) \<and> (q = Ok () \<longrightarrow> tab s1 (ch_key c) = orig (ch_key c)) \<and>
      (answers L T tab p changes \<longrightarrow> q = Ok ())"
    using Cons.prems by (intro restore_change_restores [OF assms(1) _ q]) simp_all
  have "change_ok L p orig (tab s1) d" if "d \<in> set cs" for d
  proof -
    have "ch_key d \<noteq> ch_key c" using that Cons.prems(1) by (metis distinct.simps(2) imageI list.map(2) list.set_map)
    then show ?thesis using change_ok_cong [of "tab s1" d "tab s" L p orig] one Cons.prems(2) that by (simp add: list_all_iff)
  qed
  then have rest: "(\<forall>k. k \<notin> ch_key ` set cs \<longrightarrow> tab s' k = tab s1 k) \<and> (es' = [] \<longrightarrow> (\<forall>k \<in> ch_key ` set cs. tab s' k = orig k)) \<and>
      (answers L T tab p changes \<longrightarrow> es' = [])"
    using Cons.prems es run(1) by (intro Cons.IH) (simp_all add: list_all_iff)
  show ?case using one rest run(2) Cons.prems(1) by (cases q) auto
qed simp

text \<open>The message of an endpoint route is keyed by its destination alone, as a host route without a scope.\<close>

lemma endpoint_key:
  assumes "layout_ok L" and "endpoint_wf r" and "endpoint_message L r RTM_ADD = Ok m"
  shows "snap_key L m = Ok (host_key (ep_destination r))"
proof -
  have op: "RTM_ADD \<noteq> RTM_GET" by (simp add: RTM_ADD_def RTM_GET_def)
  obtain h where h: "m = put_header L h @ flatten (endpoint_slots r)" "slots_ok (rtm_addrs h) [0..<RTAX_MAX] (endpoint_slots r)"
      "rtm_flags h = (if via_gateway r then or (or (or RTF_UP RTF_HOST) RTF_STATIC) RTF_GATEWAY else or (or RTF_UP RTF_HOST) RTF_STATIC)"
    using endpoint_message_cases [OF op assms(2,3)] by metis
  have "has_flag h RTF_HOST" "\<not> has_flag h RTF_IFSCOPE" unfolding has_flag_def h(3) by (simp_all add: rtf RTF_IFSCOPE_def)
  moreover have "byte_at (ip_address d) 1 = Some (family_of d)" "\<exists>bs. address_bytes (ip_address d) (family_of d) = Ok bs" for d
    by (cases d; simp add: byte_at_def address_bytes_def Let_def AF_INET_def AF_INET6_def)+
  moreover from this(2) obtain bs where "address_bytes (ip_address (ep_destination r)) (family_of (ep_destination r)) = Ok bs" by blast
  ultimately show ?thesis
    using header_put [OF assms(1), of h] addresses_put [OF assms(1) h(2), of h]
    by (simp add: snap_key_def h(1) endpoint_slots_def rtax host_key_def Let_def)
qed

lemma endpoint_same_path:
  assumes "layout_ok L" and "endpoint_wf r" and "endpoint_message L r RTM_ADD = Ok m" and "ep_source r = None"
  shows "same_path L m m = Ok True"
proof -
  have op: "RTM_ADD \<noteq> RTM_GET" by (simp add: RTM_ADD_def RTM_GET_def)
  obtain h where h: "m = put_header L h @ flatten (endpoint_slots r)" "slots_ok (rtm_addrs h) [0..<RTAX_MAX] (endpoint_slots r)"
    using endpoint_message_cases [OF op assms(2,3)] by metis
  have "gateways_equal (Some (ep_gateway r)) (Some (ep_gateway r)) = Ok True"
    using assms(2)
    by (auto simp: endpoint_wf_def gateways_equal_def same_address_def byte_at_def link_address_def address_bytes_def Let_def)
  then show ?thesis
    using header_put [OF assms(1), of h] addresses_put [OF assms(1) h(2), of h] endpoint_key [OF assms(1-3)] assms(4)
    by (simp add: same_path_def h(1) endpoint_slots_def rtax sources_equal_def)
qed

lemma add_recorded_routes:
  assumes "add L T r changes s = (q, changes', s')"
  shows "ch_route ` set changes' \<subseteq> insert r (ch_route ` set changes)"
  using assms by (auto simp: add_def Let_def split: result.splits prod.splits if_splits)

lemma sample_kernel_ok: "table_ok sample_layout sample_kernel sample_tab id"
proof -
  have [simp]: "find sample_kernel k s = (Ok (sample_tab s k), s)" "request sample_kernel = sample_request" for k s
    by (simp_all add: sample_kernel_def)
  have put: "sample_tab (s(k \<mapsto> r)) = (sample_tab s)(k \<mapsto> r)" if "snap_key sample_layout r = Ok k" for s k r
    using that by (auto simp: sample_tab_def)
  have del: "sample_tab (s(k := None)) = (sample_tab s)(k := None)" for s k
    by (auto simp: sample_tab_def)
  have "find_ok sample_layout sample_kernel sample_tab id"
    by (auto simp: find_ok_def sample_tab_def split: option.splits if_splits)
  moreover have "delete_ok sample_layout sample_kernel sample_tab"
    unfolding delete_ok_def by (auto simp: sample_request_def del RTM_ADD_def RTM_DELETE_def split: if_splits)
  moreover have "add_ok sample_layout sample_kernel sample_tab id"
    unfolding add_ok_def by (auto simp: sample_request_def put split: if_splits)
  ultimately show ?thesis by (simp add: table_ok_def)
qed

lemma sample_kernel_answers:
  assumes "ch_route ` set changes \<subseteq> {m}" and "same_path sample_layout m m = Ok True"
  shows "answers sample_layout sample_kernel sample_tab id changes"
  using assms by (auto simp: answers_def sample_kernel_def sample_request_def RTM_ADD_def RTM_DELETE_def)

text \<open>Installing from nothing, and restoring from a true record in any state with the same table.\<close>

lemma install_changes_ok:
  assumes "table_ok L T tab p" and "install L V T vpn eps [] s0 = (q, changes, s1)"
  shows "changes_ok L p (tab s0) (tab s1) changes"
  using add_all_changes_ok [OF assms(1), of "tab s0" s0 "[]"] assms(2) by (simp add: install_def changes_ok_def)

lemma restore_changes_ok:
  assumes "table_ok L T tab p" and inv: "changes_ok L p orig (tab s1) changes"
    and run: "restore io_str L T changes s1 = (q, rest, s2)"
  shows "rest = [] \<and> (q = Ok () \<longrightarrow> tab s2 = orig) \<and> (\<forall>k. tab s2 k \<noteq> orig k \<longrightarrow> k \<in> ch_key ` set changes) \<and>
    (answers L T tab p changes \<longrightarrow> q = Ok ())"
proof -
  obtain es where es: "restore_all L T (rev changes) s1 = (es, s2)" "rest = []" "q = Ok () \<longleftrightarrow> es = []"
    using run by (auto simp: restore_def split: prod.splits if_splits)
  have "(\<forall>k. k \<notin> ch_key ` set (rev changes) \<longrightarrow> tab s2 k = tab s1 k) \<and>
      (es = [] \<longrightarrow> (\<forall>k \<in> ch_key ` set (rev changes). tab s2 k = orig k)) \<and> (answers L T tab p changes \<longrightarrow> es = [])"
    using inv by (intro restore_all_restores [OF assms(1) _ _ _ es(1)]) (auto simp: changes_ok_def list_all_iff rev_map [symmetric])
  then have "\<forall>k. k \<notin> ch_key ` set changes \<longrightarrow> tab s2 k = orig k"
      "es = [] \<longrightarrow> (\<forall>k \<in> ch_key ` set changes. tab s2 k = orig k)" "answers L T tab p changes \<longrightarrow> es = []"
    using inv by (simp_all add: changes_ok_def)
  then show ?thesis using es by (metis ext)
qed

section \<open>Properties\<close>

text \<open>
  C7: The routes of a session are taken back completely. Wherever the installation of the endpoint routes and the
  tunnel's routes ended, with success or with an error at any request, even one whose effect is unknown,
  restoring from the recorded changes uses them up, and when it reports success the routing table is what it was before the session: routes that were
  replaced are back, routes that were added are gone. When it reports errors, only routes
  that the session recorded can differ; and it does report success when the kernel serves the lookups
  and the requests that are possible.
\<close>

theorem session_routes_restored:
  assumes "table_ok L T tab p" and "install L V T vpn eps [] s0 = (q1, changes, s1)"
    and "restore io_str L T changes s1 = (q2, rest, s2)"
  shows "rest = [] \<and> (q2 = Ok () \<longrightarrow> tab s2 = tab s0) \<and> (\<forall>k. tab s2 k \<noteq> tab s0 k \<longrightarrow> k \<in> ch_key ` set changes) \<and>
    (answers L T tab p changes \<longrightarrow> q2 = Ok ())"
  by (rule restore_changes_ok [OF assms(1) install_changes_ok [OF assms(1,2)] assms(3)])

theorem session_routes_restored_witness:
  "case install sample_layout sample_env sample_kernel [] [sample_endpoint] [] sample_state of
     (q1, changes, s1) \<Rightarrow> sample_tab sample_state (host_key (IpV4 7)) \<noteq> None \<and>
       (case restore (\<lambda>_. []) sample_layout sample_kernel changes s1 of
          (q2, rest, s2) \<Rightarrow> q2 = Ok () \<and> rest = [] \<and> sample_tab s2 = sample_tab sample_state)"
proof -
  have wf: "endpoint_wf (sample_endpoint\<lparr>ep_gateway := ip_address (IpV4 g)\<rparr>)" "endpoint_wf sample_endpoint" for g
    by (simp_all add: endpoint_wf_def sample_endpoint_def sockaddr_def)
  have msg: "\<exists>m. endpoint_message sample_layout (sample_endpoint\<lparr>ep_gateway := ip_address (IpV4 g)\<rparr>) RTM_ADD = Ok m" for g
    by (simp add: endpoint_message_def message_length_def endpoint_payload_def sample_endpoint_def sample_layout_def append_padded Let_def
        link_address_def le16_def address_step_def)
  obtain m where m: "endpoint_message sample_layout sample_endpoint RTM_ADD = Ok m"
    using msg [of 9] by (auto simp: sample_endpoint_def)
  obtain m' where m': "endpoint_message sample_layout (sample_endpoint\<lparr>ep_gateway := ip_address (IpV4 1)\<rparr>) RTM_ADD = Ok m'"
    using msg by blast
  then have "sample_tab sample_state (host_key (IpV4 7)) \<noteq> None"
    using endpoint_key [OF sample_layout_ok wf(1) m'] by (auto simp: sample_tab_def sample_state_def sample_endpoint_def)
  moreover obtain q1 changes s1 where run: "install sample_layout sample_env sample_kernel [] [sample_endpoint] [] sample_state = (q1, changes, s1)"
    by (metis prod_cases3)
  moreover obtain q2 rest s2 where undone: "restore (\<lambda>_. []) sample_layout sample_kernel changes s1 = (q2, rest, s2)"
    by (metis prod_cases3)
  moreover have "ch_route ` set changes \<subseteq> {m}"
    using run m add_recorded_routes [of sample_layout sample_kernel m "[]" sample_state]
    by (auto simp: install_def split: result.splits prod.splits)
  then have "answers sample_layout sample_kernel sample_tab id changes"
    by (rule sample_kernel_answers) (rule endpoint_same_path [OF sample_layout_ok wf(2) m], simp add: sample_endpoint_def)
  ultimately show ?thesis
    using session_routes_restored [OF sample_kernel_ok run undone] by simp
qed

end
