(* ===== verification/Configure_Macos.thy ===== *)
theory Configure_Macos
  imports Configure Routes_Macos
begin

text \<open>
  The macOS adapter: the resolver entries in the dynamic store, platform/dns_macos.rs, and
  platform/macos.rs, which puts routes and resolver entries together and undoes both. The store belongs to the SystemConfiguration
  framework and is a parameter, \<open>dynamic_store\<close>.
\<close>

section \<open>Definitions\<close>

subsection \<open>Resolver entries\<close>

text \<open>Values of the store; a dictionary has its entries in the order of their keys.\<close>

datatype cf_value = CfString string | CfArray "cf_value list" | CfDictionary "(string \<times> cf_value) list"

record 'os dynamic_store =
  store_create :: "'os \<Rightarrow> bool \<times> 'os"
  store_copy :: "string \<Rightarrow> 'os \<Rightarrow> cf_value option \<times> 'os"
  store_set_multiple :: "(string \<times> cf_value) list \<Rightarrow> 'os \<Rightarrow> bool \<times> 'os"
  store_remove :: "string \<Rightarrow> 'os \<Rightarrow> bool \<times> 'os"
  sc_error :: "'os \<Rightarrow> int"
  sc_error_string :: "int \<Rightarrow> string option"

definition SC_STATUS_NO_KEY :: int where "SC_STATUS_NO_KEY = 1004"

definition store_error :: "'os dynamic_store \<Rightarrow> string \<Rightarrow> int \<Rightarrow> string" where
  "store_error D operation status =
     operation @ '': '' @ (case sc_error_string D status of None \<Rightarrow> ''unknown error'' | Some m \<Rightarrow> m) @
     '' (SystemConfiguration '' @ int_str status @ '')''"

definition last_error :: "'os dynamic_store \<Rightarrow> string \<Rightarrow> 'os \<Rightarrow> string" where
  "last_error D operation s = store_error D operation (sc_error D s)"

definition resolver_root :: "string \<Rightarrow> string" where
  "resolver_root interface = ''State:/Network/Interface/'' @ interface"

definition resolver_keys :: "string \<Rightarrow> string list" where
  "resolver_keys interface = [resolver_root interface @ ''/DNS'', resolver_root interface]"

definition dns_entry :: "string list \<Rightarrow> string list \<Rightarrow> cf_value" where
  "dns_entry ips doms =
     CfDictionary [(''ServerAddresses'', CfArray (map CfString ips)),
                   (''SupplementalMatchDomains'', CfArray (map CfString doms))]"

definition root_entry :: "string \<Rightarrow> cf_value" where
  "root_entry interface = CfDictionary [(''UserDefinedName'', CfString interface)]"

definition dns_values :: "string \<Rightarrow> string list \<Rightarrow> string list \<Rightarrow> (string \<times> cf_value) list" where
  "dns_values interface ips doms = zip (resolver_keys interface) [dns_entry ips doms, root_entry interface]"

definition copy_value :: "'os dynamic_store \<Rightarrow> string \<Rightarrow> 'os \<Rightarrow> (cf_value option, string) result \<times> 'os" where
  "copy_value D key s =
     (case store_copy D key s of
        (Some v, s) \<Rightarrow> (Ok (Some v), s)
      | (None, s) \<Rightarrow>
          (if sc_error D s = SC_STATUS_NO_KEY then Ok None else Err (store_error D (''read '' @ key) (sc_error D s)), s))"

text \<open>What was set is read back.\<close>

fun check_values :: "'os dynamic_store \<Rightarrow> (string \<times> cf_value) list \<Rightarrow> 'os hook" where
  "check_values D [] s = (Ok (), s)"
| "check_values D ((key, expected) # vs) s =
     (case copy_value D key s of
        (Err e, s) \<Rightarrow> (Err e, s)
      | (Ok v, s) \<Rightarrow>
          if v \<noteq> Some expected then (Err (''DNS store value did not match after setting '' @ key), s)
          else check_values D vs s)"

definition set_values :: "'os dynamic_store \<Rightarrow> (string \<times> cf_value) list \<Rightarrow> 'os hook" where
  "set_values D vs s =
     (case store_set_multiple D vs s of
        (False, s) \<Rightarrow> (Err (last_error D ''set DNS entries'' s), s)
      | (True, s) \<Rightarrow> check_values D vs s)"

definition check_removed :: "'os dynamic_store \<Rightarrow> string \<Rightarrow> 'os hook" where
  "check_removed D key s =
     (case copy_value D key s of
        (Err e, s) \<Rightarrow> (Err e, s)
      | (Ok (Some _), s) \<Rightarrow> (Err (''DNS store value still exists after removing '' @ key), s)
      | (Ok None, s) \<Rightarrow> (Ok (), s))"

definition remove_value :: "'os dynamic_store \<Rightarrow> string \<Rightarrow> 'os hook" where
  "remove_value D key s =
     (case copy_value D key s of
        (Err e, s) \<Rightarrow> (Err e, s)
      | (Ok None, s) \<Rightarrow> (Ok (), s)
      | (Ok (Some _), s) \<Rightarrow>
          (case store_remove D key s of
             (removed, s) \<Rightarrow>
               if \<not> removed \<and> sc_error D s \<noteq> SC_STATUS_NO_KEY
               then (Err (store_error D (''remove '' @ key) (sc_error D s)), s)
               else check_removed D key s))"

fun remove_errors :: "'os dynamic_store \<Rightarrow> string list \<Rightarrow> 'os \<Rightarrow> string list \<times> 'os" where
  "remove_errors D [] s = ([], s)"
| "remove_errors D (key # keys) s =
     (case remove_value D key s of
        (r, s) \<Rightarrow> (case remove_errors D keys s of (es, s) \<Rightarrow> ((case r of Ok _ \<Rightarrow> es | Err e \<Rightarrow> e # es), s)))"

definition remove_values :: "'os dynamic_store \<Rightarrow> string list \<Rightarrow> 'os hook" where
  "remove_values D keys s =
     (case remove_errors D keys s of (es, s) \<Rightarrow> (if es = [] then Ok () else Err (join ''; '' es), s))"

definition DnsStore_new :: "'os dynamic_store \<Rightarrow> 'os hook" where
  "DnsStore_new D s =
     (case store_create D s of
        (False, s) \<Rightarrow> (Err (last_error D ''open DNS store'' s), s)
      | (True, s) \<Rightarrow> (Ok (), s))"

definition set_dns_entries :: "'os dynamic_store \<Rightarrow> string \<Rightarrow> string list \<Rightarrow> string list \<Rightarrow> 'os hook" where
  "set_dns_entries D interface ips doms =
     then_do (DnsStore_new D) (set_values D (dns_values interface ips doms))"

definition clear_dns_entries :: "'os dynamic_store \<Rightarrow> string \<Rightarrow> 'os hook" where
  "clear_dns_entries D interface = then_do (DnsStore_new D) (remove_values D (resolver_keys interface))"

subsection \<open>The session\<close>

record 'os macos =
  mac_io_str :: "io_error \<Rightarrow> string"
  mac_route_mgr :: "'os route_ops"
  mac_layout :: rt_layout
  mac_tun :: tun_env
  mac_table :: "'os route_table"
  mac_store :: "'os dynamic_store"

definition macos_dns :: "'os macos \<Rightarrow> string \<Rightarrow> string list \<Rightarrow> string list \<Rightarrow> 'os hook" where
  "macos_dns M interface dns_servers dns_domains =
     then_do (clear_dns_entries (mac_store M) interface)
       (if dns_servers \<noteq> [] \<and> dns_domains \<noteq> [] then set_dns_entries (mac_store M) interface dns_servers dns_domains
        else (\<lambda>s. (Ok (), s)))"

definition macos_cleanup :: "'os macos \<Rightarrow> string \<Rightarrow> session_routes \<Rightarrow> 'os hook" where
  "macos_cleanup M interface changes s =
     (case restore (mac_io_str M) (mac_layout M) (mac_table M) changes s of
        (route_result, _, s) \<Rightarrow>
          (case clear_dns_entries (mac_store M) interface s of
             (dns_result, s) \<Rightarrow>
               (case (route_result, dns_result) of
                  (Ok _, result) \<Rightarrow> result
                | (Err a, Ok _) \<Rightarrow> Err a
                | (Err a, Err b) \<Rightarrow> Err (a @ ''; '' @ b), s)))"

text \<open>The setup: the routes with what they changed, then the resolver entries.\<close>

definition macos_setup ::
    "'os macos \<Rightarrow> string \<Rightarrow> route list \<Rightarrow> endpoint_route list \<Rightarrow> string list \<Rightarrow> string list \<Rightarrow> 'os \<Rightarrow>
       (unit, string) result \<times> session_routes \<times> 'os" where
  "macos_setup M interface routes eps dns_servers dns_domains s =
     (case install (mac_layout M) (mac_tun M) (mac_table M) routes eps [] s of
        (Err e, changes, s) \<Rightarrow> (Err (''failed to configure routes: '' @ mac_io_str M e), changes, s)
      | (Ok _, changes, s) \<Rightarrow> (case macos_dns M interface dns_servers dns_domains s of (r, s) \<Rightarrow> (r, changes, s)))"

definition macos_configure_session ::
    "'os macos \<Rightarrow> tun_session_config \<Rightarrow> string \<Rightarrow> endpoint_route list \<Rightarrow> 'os \<Rightarrow> ('os hook, string) result option \<times> 'os" where
  "macos_configure_session M config interface endpoint_routes s =
     (case build_and_filter_routes (mac_io_str M) (mac_route_mgr M) config interface endpoint_routes s of
        (Err e, s) \<Rightarrow> (Some (Err e), s)
      | (Ok (routes, eps), s) \<Rightarrow>
          (case ips_to_args (config_servers config) of
             None \<Rightarrow> (None, s)
           | Some dns_servers \<Rightarrow>
               (case macos_setup M interface routes eps dns_servers (normalize_domains (config_domains config)) s of
                  (Ok _, changes, s) \<Rightarrow> (Some (Ok (macos_cleanup M interface changes)), s)
                | (Err e, changes, s) \<Rightarrow>
                    (case macos_cleanup M interface changes s of
                       (Ok _, s) \<Rightarrow> (Some (Err e), s)
                     | (Err c, s) \<Rightarrow> (Some (Err (e @ ''; cleanup failed: '' @ c)), s)))))"

subsection \<open>Specification\<close>

text \<open>
  What the code relies on of the store, with \<open>vals\<close> for its contents: reading is exact and changes nothing,
  where a missing value counts as absent only with the status for that; setting and
  removing touch the keys they name, whether they report success or not.
\<close>

definition store_ok :: "'os dynamic_store \<Rightarrow> ('os \<Rightarrow> string \<Rightarrow> cf_value option) \<Rightarrow> bool" where
  "store_ok D vals \<longleftrightarrow>
     (\<forall>s. vals (snd (store_create D s)) = vals s) \<and>
     (\<forall>key s v s'. store_copy D key s = (v, s') \<longrightarrow> vals s' = vals s \<and>
        (v = None \<longrightarrow> sc_error D s' = SC_STATUS_NO_KEY \<longrightarrow> vals s key = None) \<and> (v \<noteq> None \<longrightarrow> vals s key = v)) \<and>
     (\<forall>vs s k. k \<notin> fst ` set vs \<longrightarrow> vals (snd (store_set_multiple D vs s)) k = vals s k) \<and>
     (\<forall>key s k. k \<noteq> key \<longrightarrow> vals (snd (store_remove D key s)) k = vals s k)"

text \<open>A part of the state that the store's calls, or those on routes, leave alone.\<close>

definition store_keeps :: "'os dynamic_store \<Rightarrow> ('os \<Rightarrow> 'x) \<Rightarrow> bool" where
  "store_keeps D v \<longleftrightarrow>
     (\<forall>s. v (snd (store_create D s)) = v s) \<and> (\<forall>key s. v (snd (store_copy D key s)) = v s) \<and>
     (\<forall>vs s. v (snd (store_set_multiple D vs s)) = v s) \<and> (\<forall>key s. v (snd (store_remove D key s)) = v s)"

definition table_keeps :: "'os route_table \<Rightarrow> ('os \<Rightarrow> 'x) \<Rightarrow> bool" where
  "table_keeps T v \<longleftrightarrow>
     (\<forall>k s. v (snd (find T k s)) = v s) \<and> (\<forall>r operation s. v (snd (request T r operation s)) = v s)"

definition macos_ok ::
    "'os macos \<Rightarrow> ('os \<Rightarrow> route_key \<Rightarrow> 'p option) \<Rightarrow> (snapshot \<Rightarrow> 'p) \<Rightarrow> ('os \<Rightarrow> string \<Rightarrow> cf_value option) \<Rightarrow> bool" where
  "macos_ok M tab p vals \<longleftrightarrow>
     table_ok (mac_layout M) (mac_table M) tab p \<and> store_ok (mac_store M) vals \<and>
     store_keeps (mac_store M) tab \<and> table_keeps (mac_table M) vals \<and>
     (\<forall>s. tab (snd (rm_new (mac_route_mgr M) s)) = tab s \<and> vals (snd (rm_new (mac_route_mgr M) s)) = vals s)"

text \<open>The store as it was, but for the entries of an interface.\<close>

definition others_kept :: "string \<Rightarrow> (string \<Rightarrow> cf_value option) \<Rightarrow> (string \<Rightarrow> cf_value option) \<Rightarrow> bool" where
  "others_kept interface before after \<longleftrightarrow> (\<forall>k. k \<notin> set (resolver_keys interface) \<longrightarrow> after k = before k)"

definition entries_gone :: "string \<Rightarrow> (string \<Rightarrow> cf_value option) \<Rightarrow> bool" where
  "entries_gone interface now \<longleftrightarrow> list_all (\<lambda>k. now k = None) (resolver_keys interface)"

text \<open>The entries that a session shows: none without servers or without domains.\<close>

definition shown_entries :: "string \<Rightarrow> string list \<Rightarrow> string list \<Rightarrow> cf_value option list" where
  "shown_entries interface ips doms =
     (if ips \<noteq> [] \<and> doms \<noteq> [] then [Some (dns_entry ips doms), Some (root_entry interface)] else [None, None])"

text \<open>A machine for the examples: the routes by key and the store by key.\<close>

type_synonym sample_os = "(route_key \<Rightarrow> snapshot option) \<times> (string \<Rightarrow> cf_value option)"

definition sample_table :: "sample_os route_table" where
  "sample_table =
     \<lparr>find = (\<lambda>k s. (Ok (sample_tab (fst s) k), s)),
      request = (\<lambda>r operation s. case sample_request r operation (fst s) of (q, t) \<Rightarrow> (q, (t, snd s)))\<rparr>"

definition sample_store :: "sample_os dynamic_store" where
  "sample_store =
     \<lparr>store_create = (\<lambda>s. (True, s)), store_copy = (\<lambda>key s. (snd s key, s)),
      store_set_multiple = (\<lambda>vs s. (True, (fst s, snd s ++ map_of vs))),
      store_remove = (\<lambda>key s. (True, (fst s, (snd s)(key := None)))),
      sc_error = (\<lambda>s. SC_STATUS_NO_KEY), sc_error_string = (\<lambda>_. None)\<rparr>"

definition sample_macos :: "sample_os macos" where
  "sample_macos =
     \<lparr>mac_io_str = (\<lambda>_. []),
      mac_route_mgr = \<lparr>rm_new = (\<lambda>s. (Ok (), s)), rm_add = (\<lambda>_ s. (Ok (), s)), rm_delete = (\<lambda>_ s. (Ok (), s)), rm_find = (\<lambda>_ s. (Ok None, s))\<rparr>,
      mac_layout = sample_layout, mac_tun = sample_env, mac_table = sample_table, mac_store = sample_store\<rparr>"

section \<open>Lemmas\<close>

lemma copy_value_ok:
  assumes "store_ok D vals" and "copy_value D key s = (r, s')"
  shows "vals s' = vals s" "r = Ok v \<Longrightarrow> vals s key = v"
  using assms
  by (cases "store_copy D key s"; cases "fst (store_copy D key s)";
      fastforce simp: copy_value_def store_ok_def split: if_splits)+

lemma check_values_ok:
  assumes "store_ok D vals" and "check_values D vs s = (r, s')"
  shows "vals s' = vals s \<and> (r = Ok () \<longrightarrow> (\<forall>(k, v) \<in> set vs. vals s k = Some v))"
  using assms(2)
proof (induction vs arbitrary: s)
  case (Cons kv vs)
  obtain k v where kv: "kv = (k, v)" by fastforce
  obtain x s1 where x: "copy_value D k s = (x, s1)" by fastforce
  note copy = copy_value_ok [OF assms(1) x]
  show ?case
  proof (cases "x = Ok (Some v)")
    case True
    then have "check_values D vs s1 = (r, s')" using Cons.prems kv x by simp
    from Cons.IH [OF this] show ?thesis using copy(1) copy(2) [OF True] kv by auto
  next
    case False
    then have "s' = s1 \<and> r \<noteq> Ok ()" using Cons.prems kv x by (auto split: result.splits if_splits)
    then show ?thesis using copy(1) by simp
  qed
qed simp

lemma remove_value_ok:
  assumes D: "store_ok D vals" and run: "remove_value D key s = (r, s')"
  shows "(\<forall>k. k \<noteq> key \<longrightarrow> vals s' k = vals s k) \<and> (r = Ok () \<longrightarrow> vals s' key = None)"
proof -
  obtain x s1 where x: "copy_value D key s = (x, s1)" by fastforce
  note copy = copy_value_ok [OF D x]
  show ?thesis
  proof (cases "\<exists>v. x = Ok (Some v)")
    case False
    then have "s' = s1 \<and> (r = Ok () \<longrightarrow> x = Ok None)" using run x by (auto simp: remove_value_def split: result.splits option.splits)
    then show ?thesis using copy by auto
  next
    case True
    then obtain v where v: "x = Ok (Some v)" by blast
    obtain b s2 where b: "store_remove D key s1 = (b, s2)" by fastforce
    have others: "\<And>k. k \<noteq> key \<Longrightarrow> vals s2 k = vals s k" using D b copy(1) unfolding store_ok_def by (metis snd_conv)
    obtain y s3 where y: "copy_value D key s2 = (y, s3)" by fastforce
    note copy2 = copy_value_ok [OF D y]
    have "vals s' = vals s2 \<and> (r = Ok () \<longrightarrow> y = Ok None)"
      using run x v b y copy2(1) by (auto simp: remove_value_def check_removed_def split: if_splits result.splits option.splits)
    then show ?thesis using others copy2 by auto
  qed
qed

lemma remove_errors_ok:
  assumes D: "store_ok D vals" and "distinct keys" and "remove_errors D keys s = (es, s')"
  shows "(\<forall>k. k \<notin> set keys \<longrightarrow> vals s' k = vals s k) \<and> (es = [] \<longrightarrow> (\<forall>k \<in> set keys. vals s' k = None))"
  using assms(2,3)
proof (induction keys arbitrary: s es)
  case (Cons key keys)
  obtain r s1 where r: "remove_value D key s = (r, s1)" by fastforce
  obtain es' s2 where es: "remove_errors D keys s1 = (es', s2)" by fastforce
  have final: "s' = s2" "es = (case r of Ok _ \<Rightarrow> es' | Err e \<Rightarrow> e # es')" using Cons.prems(2) r es by simp_all
  show ?case using remove_value_ok [OF D r] Cons.IH [of s1 es'] es Cons.prems(1) final by (cases r) auto
qed simp

lemma resolver_keys_distinct: "distinct (resolver_keys interface)"
  by (simp add: resolver_keys_def)

lemma dns_values_keys: "fst ` set (dns_values interface ips doms) = set (resolver_keys interface)"
  by (simp add: dns_values_def resolver_keys_def)

lemma DnsStore_new_ok: "store_ok D vals \<Longrightarrow> vals (snd (DnsStore_new D s)) = vals s"
  by (cases "store_create D s"; cases "fst (store_create D s)") (auto simp: DnsStore_new_def store_ok_def dest: spec [of _ s])

text \<open>Clearing that succeeded left no entry of the interface; in any case absent else changed.\<close>

lemma clear_dns_entries_ok:
  assumes D: "store_ok D vals" and run: "clear_dns_entries D interface s = (r, s')"
  shows "others_kept interface (vals s) (vals s') \<and> (r = Ok () \<longrightarrow> entries_gone interface (vals s'))"
proof -
  obtain x s1 where x: "DnsStore_new D s = (x, s1)" by fastforce
  have same: "vals s1 = vals s" using DnsStore_new_ok [OF D, of s] x by simp
  obtain es s2 where es: "remove_errors D (resolver_keys interface) s1 = (es, s2)" by fastforce
  note removed = remove_errors_ok [OF D resolver_keys_distinct es]
  show ?thesis
  proof (cases x)
    case (Err e)
    then show ?thesis using run x same by (auto simp: clear_dns_entries_def then_do_def others_kept_def)
  next
    case (Ok u)
    then have "s' = s2" "r = Ok () \<longrightarrow> es = []"
      using run x es by (auto simp: clear_dns_entries_def then_do_def remove_values_def split: if_splits)
    then show ?thesis using removed same by (auto simp: others_kept_def entries_gone_def list_all_iff)
  qed
qed

text \<open>Setting that succeeded left exactly the two entries.\<close>

lemma set_dns_entries_ok:
  assumes D: "store_ok D vals" and run: "set_dns_entries D interface ips doms s = (r, s')"
  shows "others_kept interface (vals s) (vals s') \<and>
    (r = Ok () \<longrightarrow> map (vals s') (resolver_keys interface) = [Some (dns_entry ips doms), Some (root_entry interface)])"
proof -
  let ?vs = "dns_values interface ips doms"
  obtain x s1 where x: "DnsStore_new D s = (x, s1)" by fastforce
  have same: "vals s1 = vals s" using DnsStore_new_ok [OF D, of s] x by simp
  obtain b s2 where b: "store_set_multiple D ?vs s1 = (b, s2)" by fastforce
  have others: "vals s2 k = vals s k" if "k \<notin> set (resolver_keys interface)" for k
    using D b same that dns_values_keys [of interface ips doms] unfolding store_ok_def by (metis snd_conv)
  obtain c s3 where c: "check_values D ?vs s2 = (c, s3)" by fastforce
  note checked = check_values_ok [OF D c]
  consider (closed) e where "x = Err e" | (unset) "x = Ok ()" "\<not> b" | (set) "x = Ok ()" b by (cases x) auto
  then show ?thesis
  proof cases
    case closed
    then show ?thesis using run x same by (auto simp: set_dns_entries_def then_do_def others_kept_def)
  next
    case unset
    then have "s' = s2 \<and> r \<noteq> Ok ()" using run x b by (auto simp: set_dns_entries_def then_do_def set_values_def)
    then show ?thesis using others by (simp add: others_kept_def)
  next
    case set
    then have "s' = s3" "r = c" using run x b c by (simp_all add: set_dns_entries_def then_do_def set_values_def)
    then show ?thesis using checked others by (auto simp: others_kept_def dns_values_def resolver_keys_def)
  qed
qed

lemma others_kept_trans: "others_kept i a b \<Longrightarrow> others_kept i b c \<Longrightarrow> others_kept i a c"
  by (simp add: others_kept_def)

lemma macos_dns_ok:
  assumes D: "store_ok (mac_store M) vals" and run: "macos_dns M interface ips doms s = (r, s')"
  shows "others_kept interface (vals s) (vals s') \<and>
    (r = Ok () \<longrightarrow> map (vals s') (resolver_keys interface) = shown_entries interface ips doms)"
proof -
  obtain x s1 where x: "clear_dns_entries (mac_store M) interface s = (x, s1)" by fastforce
  note cleared = clear_dns_entries_ok [OF D x]
  obtain y s2 where y: "set_dns_entries (mac_store M) interface ips doms s1 = (y, s2)" by fastforce
  note entered = set_dns_entries_ok [OF D y]
  consider (failed) e where "x = Err e" | (entries) "x = Ok ()" "ips \<noteq> [] \<and> doms \<noteq> []"
    | (absent) "x = Ok ()" "\<not> (ips \<noteq> [] \<and> doms \<noteq> [])" by (cases x) auto
  then show ?thesis
  proof cases
    case failed
    then show ?thesis using run x cleared by (auto simp: macos_dns_def then_do_def)
  next
    case entries
    then have "r = y" "s' = s2" using run x y by (simp_all add: macos_dns_def then_do_def)
    then show ?thesis using cleared entered others_kept_trans entries(2) by (auto simp: shown_entries_def)
  next
    case absent
    then have "r = Ok ()" "s' = s1" using run x by (auto simp: macos_dns_def then_do_def)
    then show ?thesis using cleared absent by (auto simp: shown_entries_def entries_gone_def resolver_keys_def)
  qed
qed

text \<open>Resolver entries and routes do not disturb each other.\<close>

lemma copy_value_keeps: "store_keeps D v \<Longrightarrow> v (snd (copy_value D key s)) = v s"
  unfolding copy_value_def store_keeps_def by (auto split: prod.splits option.splits) (metis snd_conv)+

lemma check_values_keeps: "store_keeps D v \<Longrightarrow> v (snd (check_values D vs s)) = v s"
proof (induction vs arbitrary: s)
  case (Cons kv vs)
  show ?case
    using Cons copy_value_keeps [OF Cons.prems, of "fst kv" s]
    by (cases kv; cases "copy_value D (fst kv) s") (auto split: result.split)
qed simp

lemma then_do_keeps:
  assumes "\<And>s. v (snd (f s)) = v s" and "\<And>s. v (snd (g s)) = v s"
  shows "v (snd (then_do f g s)) = v s"
proof -
  obtain r s1 where r: "f s = (r, s1)" by fastforce
  then show ?thesis using assms(1) [of s] assms(2) [of s1] by (cases r) (simp_all add: then_do_def)
qed

lemma DnsStore_new_keeps: "store_keeps D v \<Longrightarrow> v (snd (DnsStore_new D s)) = v s"
  unfolding DnsStore_new_def store_keeps_def by (auto split: prod.splits bool.splits) (metis snd_conv)+

lemma remove_value_keeps:
  assumes "store_keeps D v"
  shows "v (snd (remove_value D key s)) = v s"
proof -
  have "v (snd (store_remove D key s')) = v s'" for s' using assms by (simp add: store_keeps_def)
  moreover have "v (snd (check_removed D key s')) = v s'" for s'
    using copy_value_keeps [OF assms, of key s'] by (auto simp: check_removed_def split: prod.splits result.splits option.splits)
  ultimately show ?thesis
    using copy_value_keeps [OF assms, of key s]
    by (auto simp: remove_value_def split: prod.splits result.splits option.splits) (metis snd_conv)+
qed

lemma remove_errors_keeps: "store_keeps D v \<Longrightarrow> v (snd (remove_errors D keys s)) = v s"
proof (induction keys arbitrary: s)
  case (Cons key keys)
  obtain r s1 where r: "remove_value D key s = (r, s1)" by fastforce
  obtain es s2 where es: "remove_errors D keys s1 = (es, s2)" by fastforce
  show ?case using remove_value_keeps [OF Cons.prems, of key s] Cons.IH [OF Cons.prems, of s1] r es by simp
qed simp

lemma clear_dns_entries_keeps: "store_keeps D v \<Longrightarrow> v (snd (clear_dns_entries D interface s)) = v s"
proof -
  assume k: "store_keeps D v"
  have "v (snd (remove_values D keys s')) = v s'" for keys s'
    using remove_errors_keeps [OF k, of keys s'] by (auto simp: remove_values_def split: prod.splits)
  then show ?thesis unfolding clear_dns_entries_def by (intro then_do_keeps DnsStore_new_keeps [OF k])
qed

lemma set_dns_entries_keeps: "store_keeps D v \<Longrightarrow> v (snd (set_dns_entries D interface ips doms s)) = v s"
proof -
  assume k: "store_keeps D v"
  have "v (snd (set_values D vs s')) = v s'" for vs s'
  proof -
    obtain b s1 where b: "store_set_multiple D vs s' = (b, s1)" by fastforce
    then have "v s1 = v s'" using k unfolding store_keeps_def by (metis snd_conv)
    then show ?thesis using b check_values_keeps [OF k, of vs s1] by (cases b) (simp_all add: set_values_def)
  qed
  then show ?thesis unfolding set_dns_entries_def by (intro then_do_keeps DnsStore_new_keeps [OF k])
qed

lemma macos_dns_keeps: "store_keeps (mac_store M) v \<Longrightarrow> v (snd (macos_dns M interface ips doms s)) = v s"
  unfolding macos_dns_def
  by (intro then_do_keeps clear_dns_entries_keeps) (simp_all add: set_dns_entries_keeps)

lemma add_keeps:
  assumes "table_keeps T v"
  shows "v (snd (snd (add L T r changes s))) = v s"
proof -
  have f: "v s' = v s" if "find T k s = (q, s')" for k q s s' using assms that unfolding table_keeps_def by (metis snd_conv)
  have q: "v s' = v s" if "request T r operation s = (q, s')" for r operation q s s'
    using assms that unfolding table_keeps_def by (metis snd_conv)
  show ?thesis
    by (auto simp: add_def Let_def split: result.splits prod.splits option.splits dest!: f q)
qed

lemma add_all_keeps: "table_keeps T v \<Longrightarrow> v (snd (snd (add_all L T rs changes s))) = v s"
proof (induction rs arbitrary: changes s)
  case (Cons x rs)
  show ?case
  proof (cases x)
    case (Ok r)
    obtain a c s1 where a: "add L T r changes s = (a, c, s1)" by (metis prod_cases3)
    then have "v s1 = v s" using add_keeps [OF Cons.prems, of L r changes s] by simp
    then show ?thesis using Ok a Cons.IH [OF Cons.prems, of c s1] by (cases a) simp_all
  qed simp
qed simp

lemma restore_change_keeps:
  assumes "table_keeps T v"
  shows "v (snd (restore_change L T c s)) = v s"
proof -
  have f: "v s' = v s" if "find T k s = (q, s')" for k q s s' using assms that unfolding table_keeps_def by (metis snd_conv)
  have q: "v s' = v s" if "request T r operation s = (q, s')" for r operation q s s'
    using assms that unfolding table_keeps_def by (metis snd_conv)
  have p: "v (snd (put_back T previous s)) = v s" for previous s
    by (auto simp: put_back_def split: option.splits) (metis q surjective_pairing)
  obtain x s1 where x: "find T (ch_key c) s = (x, s1)" by fastforce
  obtain d s2 where d: "request T (case x of Ok (Some r) \<Rightarrow> r | _ \<Rightarrow> []) RTM_DELETE s1 = (d, s2)" by fastforce
  have "v s1 = v s" "v s2 = v s" using f [OF x] q [OF d] by simp_all
  then show ?thesis
    using x d by (auto simp: restore_change_def p split: result.split option.split bool.split)
qed

lemma restore_keeps: "table_keeps T v \<Longrightarrow> v (snd (snd (restore io L T changes s))) = v s"
proof -
  assume k: "table_keeps T v"
  have "v (snd (restore_all L T cs s)) = v s" for cs s
  proof (induction cs arbitrary: s)
    case (Cons c cs)
    obtain r s1 where r: "restore_change L T c s = (r, s1)" by fastforce
    obtain es s2 where es: "restore_all L T cs s1 = (es, s2)" by fastforce
    show ?case using restore_change_keeps [OF k, of L c s] Cons.IH [of s1] r es by simp
  qed simp
  from this [of "rev changes" s] show ?thesis by (auto simp: restore_def split: prod.splits)
qed

text \<open>The cleanup of a session, from a true record of its changes.\<close>

lemma macos_cleanup_ok:
  assumes M: "macos_ok M tab p vals" and inv: "changes_ok (mac_layout M) p orig (tab s) changes"
    and run: "macos_cleanup M interface changes s = (q, s')"
  shows "others_kept interface (vals s) (vals s') \<and> (q = Ok () \<longrightarrow> tab s' = orig \<and> entries_gone interface (vals s'))"
proof -
  obtain a rest s1 where a: "restore (mac_io_str M) (mac_layout M) (mac_table M) changes s = (a, rest, s1)" by (metis prod_cases3)
  obtain b s2 where b: "clear_dns_entries (mac_store M) interface s1 = (b, s2)" by fastforce
  have "table_ok (mac_layout M) (mac_table M) tab p" and D: "store_ok (mac_store M) vals"
    and keep: "store_keeps (mac_store M) tab" "table_keeps (mac_table M) vals"
    using M by (simp_all add: macos_ok_def)
  note routes = restore_changes_ok [OF this(1) inv a]
  note entries = clear_dns_entries_ok [OF D b]
  have "vals s1 = vals s" using restore_keeps [OF keep(2), of "mac_io_str M" "mac_layout M" changes s] a by simp
  moreover have "tab s2 = tab s1" using clear_dns_entries_keeps [OF keep(1), of interface s1] b by simp
  moreover have "s' = s2" "q = Ok () \<longrightarrow> a = Ok () \<and> b = Ok ()"
    using run a b by (auto simp: macos_cleanup_def split: result.splits)
  ultimately show ?thesis using routes entries by simp
qed

lemma macos_setup_ok:
  assumes M: "macos_ok M tab p vals" and run: "macos_setup M interface routes eps ips doms s = (q, changes, s')"
  shows "changes_ok (mac_layout M) p (tab s) (tab s') changes \<and> others_kept interface (vals s) (vals s') \<and>
    (q = Ok () \<longrightarrow> map (vals s') (resolver_keys interface) = shown_entries interface ips doms)"
proof -
  obtain a c s1 where a: "install (mac_layout M) (mac_tun M) (mac_table M) routes eps [] s = (a, c, s1)" by (metis prod_cases3)
  obtain b s2 where b: "macos_dns M interface ips doms s1 = (b, s2)" by fastforce
  have "table_ok (mac_layout M) (mac_table M) tab p" and D: "store_ok (mac_store M) vals"
    and keep: "store_keeps (mac_store M) tab" "table_keeps (mac_table M) vals"
    using M by (simp_all add: macos_ok_def)
  note inv = install_changes_ok [OF this(1) a]
  have same: "vals s1 = vals s"
    using a add_all_keeps [OF keep(2), of "mac_layout M" _ "[]" s] unfolding install_def by (metis snd_conv)
  have tab: "tab s2 = tab s1" using macos_dns_keeps [OF keep(1), of interface ips doms s1] b by simp
  show ?thesis
  proof (cases a)
    case (Err e)
    then show ?thesis using run a inv same by (auto simp: macos_setup_def others_kept_def)
  next
    case (Ok u)
    then have "q = b" "changes = c" "s' = s2" using run a b by (simp_all add: macos_setup_def)
    then show ?thesis using inv tab same macos_dns_ok [OF D b] by simp
  qed
qed

lemma sample_macos_simps [simp]:
  "mac_layout sample_macos = sample_layout" "mac_table sample_macos = sample_table" "mac_store sample_macos = sample_store"
  "rm_new (mac_route_mgr sample_macos) s = (Ok (), s)"
  by (simp_all add: sample_macos_def)

lemma sample_macos_ok: "macos_ok sample_macos (sample_tab \<circ> fst) id snd"
proof -
  have f: "find sample_table k s = (Ok (sample_tab (fst s) k), s)" "find sample_kernel k t = (Ok (sample_tab t k), t)" for k s t
    by (simp_all add: sample_table_def sample_kernel_def)
  have q: "request sample_table r operation s = (q, s') \<Longrightarrow> request sample_kernel r operation (fst s) = (q, fst s')" for r operation s q s'
    by (auto simp: sample_table_def sample_kernel_def split: prod.splits)
  have "find_ok sample_layout sample_table (sample_tab \<circ> fst) id"
    by (auto simp: find_ok_def f sample_tab_def split: option.splits if_splits)
  moreover have "delete_ok sample_layout sample_table (sample_tab \<circ> fst)" "add_ok sample_layout sample_table (sample_tab \<circ> fst) id"
    using sample_kernel_ok q unfolding table_ok_def delete_ok_def add_ok_def comp_apply by blast+
  moreover have "store_ok sample_store snd"
    unfolding store_ok_def
  proof (intro conjI allI impI)
    fix vs :: "(string \<times> cf_value) list" and s :: sample_os and k
    assume "k \<notin> fst ` set vs"
    then have "map_of vs k = None" by (simp add: map_of_eq_None_iff)
    then show "snd (snd (store_set_multiple sample_store vs s)) k = snd s k" by (simp add: sample_store_def map_add_def)
  qed (simp_all add: sample_store_def)
  moreover have "store_keeps sample_store (sample_tab \<circ> fst)" "table_keeps sample_table snd"
    by (auto simp: store_keeps_def sample_store_def table_keeps_def sample_table_def split: prod.splits)
  ultimately show ?thesis
    by (simp add: macos_ok_def table_ok_def)
qed
lemma sample_endpoint_message:
  obtains m where "endpoint_message sample_layout sample_endpoint RTM_ADD = Ok m"
    "snap_key sample_layout m = Ok (host_key (IpV4 7))" "same_path sample_layout m m = Ok True"
proof -
  have wf: "endpoint_wf sample_endpoint" and src: "ep_source sample_endpoint = None" and dst: "ep_destination sample_endpoint = IpV4 7"
    by (simp_all add: endpoint_wf_def sample_endpoint_def sockaddr_def)
  have "\<exists>m. endpoint_message sample_layout sample_endpoint RTM_ADD = Ok m"
    by (simp add: endpoint_message_def message_length_def endpoint_payload_def sample_endpoint_def sample_layout_def append_padded Let_def
        link_address_def le16_def address_step_def)
  then obtain m where m: "endpoint_message sample_layout sample_endpoint RTM_ADD = Ok m" by blast
  show thesis
    using that [OF m] endpoint_key [OF sample_layout_ok wf m] endpoint_same_path [OF sample_layout_ok wf m src] dst by simp
qed

lemma sample_remove_value: "remove_value sample_store key s = (Ok (), (fst s, (snd s)(key := None)))"
  by (cases "snd s key"; cases s)
     (auto simp: remove_value_def copy_value_def check_removed_def sample_store_def)

lemma sample_new: "DnsStore_new sample_store s = (Ok (), s)"
  by (simp add: DnsStore_new_def sample_store_def)

lemma sample_clear: "fst (clear_dns_entries sample_store interface s) = Ok ()"
  by (simp add: clear_dns_entries_def then_do_def sample_new remove_values_def resolver_keys_def sample_remove_value)

lemma sample_set: "fst (set_dns_entries sample_store interface ips doms s) = Ok ()"
  by (simp add: set_dns_entries_def then_do_def DnsStore_new_def set_values_def copy_value_def dns_values_def resolver_keys_def sample_store_def)

lemma sample_macos_dns: "fst (macos_dns sample_macos interface ips doms s) = Ok ()"
  using sample_clear [of interface s] sample_set [of interface ips doms]
  by (cases "clear_dns_entries sample_store interface s") (simp add: macos_dns_def then_do_def)

lemma sample_install:
  assumes "endpoint_message sample_layout sample_endpoint RTM_ADD = Ok m" and "snap_key sample_layout m = Ok (host_key (IpV4 7))"
  shows "install sample_layout V sample_table [] [sample_endpoint] [] (Map.empty, x) =
    (Ok (), [\<lparr>ch_key = host_key (IpV4 7), ch_route = m, ch_previous = None, add_attempted = True\<rparr>], ([host_key (IpV4 7) \<mapsto> m], x))"
  using assms by (simp add: install_def add_def check_previous_def sample_table_def sample_request_def sample_tab_def)

lemma sample_cleanup:
  assumes "macos_cleanup sample_macos interface changes s = (q, s')" and "changes_ok sample_layout id orig (sample_tab (fst s)) changes"
    and "ch_route ` set changes \<subseteq> {m}" and "same_path sample_layout m m = Ok True"
  shows "q = Ok ()"
proof -
  obtain a rest s1 where a: "restore (mac_io_str sample_macos) sample_layout sample_table changes s = (a, rest, s1)" by (metis prod_cases3)
  have "answers sample_layout sample_table (sample_tab \<circ> fst) id changes"
    using assms(3,4) by (auto simp: answers_def sample_table_def sample_request_def RTM_ADD_def RTM_DELETE_def split: prod.splits)
  moreover have "table_ok sample_layout sample_table (sample_tab \<circ> fst) id" using sample_macos_ok by (simp add: macos_ok_def)
  ultimately have "a = Ok ()" using restore_changes_ok [OF _ _ a, of "sample_tab \<circ> fst" id orig] assms(2) by simp
  then show ?thesis
    using assms(1) a sample_clear [of interface s1] by (auto simp: macos_cleanup_def split: prod.splits)
qed

text \<open>On this machine a session without tunnel routes is configured, and its hook succeeds.\<close>

lemma sample_macos_run:
  assumes "filtered_routes config interface = []" and "ips_to_args (config_servers config) = Some ips"
  shows "\<exists>hook s1. macos_configure_session sample_macos config interface [sample_endpoint] (Map.empty, x) = (Some (Ok hook), s1) \<and>
    sample_tab (fst s1) (host_key (IpV4 7)) \<noteq> None \<and>
    (\<forall>s. sample_tab (fst s) = sample_tab (fst s1) \<longrightarrow> fst (hook s) = Ok ())"
proof -
  let ?k = "host_key (IpV4 7)" and ?doms = "normalize_domains (config_domains config)"
  obtain m where m: "endpoint_message sample_layout sample_endpoint RTM_ADD = Ok m" "snap_key sample_layout m = Ok ?k"
      "same_path sample_layout m m = Ok True"
    by (rule sample_endpoint_message)
  let ?changes = "[\<lparr>ch_key = ?k, ch_route = m, ch_previous = None, add_attempted = True\<rparr>]"
  let ?s = "([?k \<mapsto> m], x) :: sample_os"
  obtain d s1 where d: "macos_dns sample_macos interface ips ?doms ?s = (d, s1)" by (metis surj_pair)
  have run: "macos_configure_session sample_macos config interface [sample_endpoint] (Map.empty, x) =
      (Some (Ok (macos_cleanup sample_macos interface ?changes)), s1)"
    using sample_macos_dns [of interface ips ?doms ?s] d assms sample_install [OF m(1,2), of "mac_tun sample_macos" x]
    by (simp add: macos_configure_session_def build_and_filter_routes_def macos_setup_def)
  have tab: "sample_tab (fst s1) = sample_tab (fst ?s)"
    using macos_dns_keeps [of sample_macos "sample_tab \<circ> fst" interface ips ?doms ?s] sample_macos_ok d by (simp add: macos_ok_def)
  have "fst (macos_cleanup sample_macos interface ?changes s) = Ok ()" if "sample_tab (fst s) = sample_tab (fst s1)" for s
  proof -
    obtain q s2 where q: "macos_cleanup sample_macos interface ?changes s = (q, s2)" by (metis surj_pair)
    have "changes_ok sample_layout id (sample_tab Map.empty) (sample_tab (fst s)) ?changes"
      unfolding that tab using m(2) by (auto simp: changes_ok_def change_ok_def sample_tab_def)
    from sample_cleanup [OF q this _ m(3)] q show ?thesis by simp
  qed
  moreover have "sample_tab (fst s1) ?k \<noteq> None" unfolding tab using m(2) by (simp add: sample_tab_def)
  ultimately show ?thesis using run by blast
qed

subsection \<open>What a configured session undoes\<close>

text \<open>
  Configuring touches no resolver entry but the two of its
  interface. If it succeeds, these show exactly the servers and domains of the configuration (or are absent where
  there are no servers or no domains), and when the returned hook, run in any state
  with the same routes, reports success, the routing table is what it was before and the entries are gone. If it
  fails, the routing table is what it was and the entries are gone or were never touched, or the error says that the cleanup failed.
\<close>

lemma macos_configure_undone:
  assumes "macos_ok M tab p vals" and "macos_configure_session M config interface eps s0 = (Some r, s1)"
  shows "others_kept interface (vals s0) (vals s1) \<and>
    (case r of
       Ok hook \<Rightarrow>
         (\<exists>ips. ips_to_args (config_servers config) = Some ips \<and>
            map (vals s1) (resolver_keys interface) = shown_entries interface ips (normalize_domains (config_domains config))) \<and>
         (\<forall>s s2. tab s = tab s1 \<longrightarrow> hook s = (Ok (), s2) \<longrightarrow>
            tab s2 = tab s0 \<and> entries_gone interface (vals s2) \<and> others_kept interface (vals s) (vals s2))
     | Err e \<Rightarrow>
         tab s1 = tab s0 \<and> (entries_gone interface (vals s1) \<or> vals s1 = vals s0) \<or> (\<exists>a c. e = a @ ''; cleanup failed: '' @ c))"
proof -
  obtain n s where n: "rm_new (mac_route_mgr M) s0 = (n, s)" by fastforce
  have start: "tab s = tab s0" "vals s = vals s0" using assms(1) n unfolding macos_ok_def by (metis snd_conv)+
  show ?thesis
  proof (cases n)
    case (Err e)
    then show ?thesis
      using assms(2) n start by (auto simp: macos_configure_session_def build_and_filter_routes_def others_kept_def)
  next
    case (Ok u)
    let ?doms = "normalize_domains (config_domains config)"
    obtain ips where ips: "ips_to_args (config_servers config) = Some ips"
      using assms(2) n Ok by (auto simp: macos_configure_session_def build_and_filter_routes_def split: option.splits)
    obtain q changes s2 where q: "macos_setup M interface (filtered_routes config interface) eps ips ?doms s = (q, changes, s2)"
      by (metis prod_cases3)
    note run = assms(2) [unfolded macos_configure_session_def build_and_filter_routes_def n Ok, simplified, unfolded ips option.case q, simplified]
    note done_ok = macos_setup_ok [OF assms(1) q, unfolded start]
    show ?thesis
    proof (cases q)
      case (Ok u)
      then have r: "r = Ok (macos_cleanup M interface changes)" "s1 = s2" using run by auto
      have undo: "tab s' = tab s0 \<and> entries_gone interface (vals s') \<and> others_kept interface (vals s) (vals s')"
        if "tab s = tab s2" "macos_cleanup M interface changes s = (Ok (), s')" for s s'
        using macos_cleanup_ok [OF assms(1) _ that(2), of "tab s0"] done_ok that(1) by simp
      have "map (vals s2) (resolver_keys interface) = shown_entries interface ips ?doms" using done_ok Ok by simp
      then show ?thesis unfolding r result.case using done_ok ips undo by blast
    next
      case (Err e)
      obtain c s3 where c: "macos_cleanup M interface changes s2 = (c, s3)" by fastforce
      note cleaned = macos_cleanup_ok [OF assms(1) _ c, of "tab s0"]
      have r: "s1 = s3" "r = Err (case c of Ok _ \<Rightarrow> e | Err x \<Rightarrow> e @ ''; cleanup failed: '' @ x)"
        using run Err c by (auto split: result.splits)
      have "others_kept interface (vals s0) (vals s3)"
        using done_ok cleaned others_kept_trans by blast
      then show ?thesis unfolding r result.case using done_ok cleaned by (cases c) (simp_all, blast)
    qed
  qed
qed

end
