(* ===== verification/Nrpt.thy ===== *)
theory Nrpt
  imports Configure Std_Text
begin

text \<open>
  The name resolution policy rules on Windows: the PowerShell programs that platform/windows.rs hands to
  \<^verbatim>\<open>powershell -Command\<close>. The cmdlets on the rules and what the system tells about a process are parameters,
  and so is PowerShell's comparison of texts, which ignores case. With \<^verbatim>\<open>$ErrorActionPreference = 'Stop'\<close>
  the first error ends a program.
\<close>

section \<open>Definitions\<close>

record nrpt_rule =
  rule_name :: string
  rule_namespace :: string
  rule_servers :: "string list"
  rule_text :: string

text \<open>
  What asking for a process and its start time gives: the exceptions that the program catches, any other error, or whether the
  process has exited and when it started.
\<close>

datatype owner_probe = ArgumentException | InvalidOperationException | Win32Exception | OtherException string | Probed bool nat

record 'os nrpt_cmdlets =
  get_rules :: "'os \<Rightarrow> (nrpt_rule list, string) result \<times> 'os"
  add_rule :: "string \<Rightarrow> string list \<Rightarrow> string \<Rightarrow> 'os hook"
  remove_rule :: "nrpt_rule \<Rightarrow> 'os hook"
  probe_owner :: "nat \<Rightarrow> owner_probe"
  same_text :: "string \<Rightarrow> string \<Rightarrow> bool"

type_synonym environment = "(string \<times> string) list"

text \<open>\<^verbatim>\<open>$env:NAME\<close>, which is empty for a variable that is not set.\<close>

definition env_var :: "environment \<Rightarrow> string \<Rightarrow> string" where
  "env_var env name = (case map_of env name of Some v \<Rightarrow> v | None \<Rightarrow> [])"

definition env_lines :: "environment \<Rightarrow> string \<Rightarrow> string list" where
  "env_lines env name = filter (\<lambda>l. l \<noteq> []) (split_on newline_char (env_var env name))"

fun for_each :: "('a \<Rightarrow> 'os hook) \<Rightarrow> 'a list \<Rightarrow> 'os hook" where
  "for_each f [] s = (Ok (), s)"
| "for_each f (x # xs) s = then_do (f x) (for_each f xs) s"

text \<open>The rules that the system has, handed to the rest of the program.\<close>

definition with_rules :: "'os nrpt_cmdlets \<Rightarrow> (nrpt_rule list \<Rightarrow> 'os hook) \<Rightarrow> 'os hook" where
  "with_rules C f s = (case get_rules C s of (Err e, s) \<Rightarrow> (Err e, s) | (Ok rs, s) \<Rightarrow> f rs s)"

definition set_rules_program :: "'os nrpt_cmdlets \<Rightarrow> environment \<Rightarrow> 'os hook" where
  "set_rules_program C env =
     for_each (\<lambda>namespace. add_rule C namespace (env_lines env ''WG_KOTLIN_DNS_SERVERS'') (env_var env ''WG_KOTLIN_NRPT_COMMENT''))
       (env_lines env ''WG_KOTLIN_DNS_NAMESPACES'')"

definition clear_rules_program :: "'os nrpt_cmdlets \<Rightarrow> environment \<Rightarrow> 'os hook" where
  "clear_rules_program C env =
     with_rules C (\<lambda>rs. for_each (remove_rule C)
       (filter (\<lambda>r. same_text C (rule_text r) (env_var env ''WG_KOTLIN_NRPT_COMMENT'')) rs))"

text \<open>
  The match of a comment and the conversion of its two numbers. The prefix ends with a colon and the groups
  hold no colon, so the comment is taken apart at its last three colons.
\<close>

definition owner_fields :: "string \<Rightarrow> (string \<times> string \<times> string \<times> string) option" where
  "owner_fields comment =
     (case rsplit_once (CHR '':'') comment of
        None \<Rightarrow> None
      | Some (front, name) \<Rightarrow>
          (case rsplit_once (CHR '':'') front of
             None \<Rightarrow> None
           | Some (front, start) \<Rightarrow>
               (case rsplit_once (CHR '':'') front of
                  None \<Rightarrow> None
                | Some (front, pid) \<Rightarrow> Some (front @ '':'', pid, start, name))))"

definition digits :: "string \<Rightarrow> bool" where
  "digits s \<longleftrightarrow> s \<noteq> [] \<and> list_all is_ascii_digit s"

definition rule_owner :: "(string \<Rightarrow> string \<Rightarrow> bool) \<Rightarrow> string \<Rightarrow> string \<Rightarrow> (nat \<times> nat) option" where
  "rule_owner same pre comment =
     (case owner_fields comment of
        None \<Rightarrow> None
      | Some (front, pid, start, name) \<Rightarrow>
          if same front pre \<and> digits pid \<and> hd pid \<noteq> CHR ''0'' \<and> digits start \<and>
             same (take 4 name) ''utun'' \<and> digits (drop 4 name) \<and>
             dec_value pid \<le> 2147483647 \<and> dec_value start \<le> 9223372036854775807
          then Some (dec_value pid, dec_value start) else None)"

text \<open>Whether the owner still runs; \<^term>\<open>Ok None\<close> where its identity is not available.\<close>

fun owner_alive :: "owner_probe \<Rightarrow> nat \<Rightarrow> (bool option, string) result" where
  "owner_alive ArgumentException start = Ok (Some False)"
| "owner_alive InvalidOperationException start = Ok (Some False)"
| "owner_alive Win32Exception start = Ok None"
| "owner_alive (OtherException e) start = Err e"
| "owner_alive (Probed exited started) start = Ok (Some (\<not> exited \<and> started = start))"

definition clear_stale_rule :: "'os nrpt_cmdlets \<Rightarrow> string \<Rightarrow> nrpt_rule \<Rightarrow> 'os hook" where
  "clear_stale_rule C pre r s =
     (case rule_owner (same_text C) pre (rule_text r) of
        None \<Rightarrow> (Ok (), s)
      | Some (pid, start) \<Rightarrow>
          (case owner_alive (probe_owner C pid) start of
             Err e \<Rightarrow> (Err e, s)
           | Ok None \<Rightarrow> (Ok (), s)
           | Ok (Some alive) \<Rightarrow> if alive then (Ok (), s) else remove_rule C r s))"

definition stale_rules_program :: "'os nrpt_cmdlets \<Rightarrow> environment \<Rightarrow> 'os hook" where
  "stale_rules_program C env =
     with_rules C (for_each (clear_stale_rule C (env_var env ''WG_KOTLIN_NRPT_COMMENT_PREFIX'')))"

fun nrpt_program :: "nrpt_script \<Rightarrow> 'os nrpt_cmdlets \<Rightarrow> environment \<Rightarrow> 'os hook" where
  "nrpt_program SET_NRPT_RULE_SCRIPT C env = set_rules_program C env"
| "nrpt_program CLEAR_NRPT_RULES_SCRIPT C env = clear_rules_program C env"
| "nrpt_program CLEAR_STALE_NRPT_RULES_SCRIPT C env = stale_rules_program C env"

subsection \<open>Specification\<close>

text \<open>
  What the code relies on: a \<^verbatim>\<open>powershell\<close> command that succeeded ran its program to the end; the cmdlets
  read, extend and shrink one table of rules with distinct names; and the comparison distinguishes texts without capital letters and
  without characters outside ASCII.
\<close>

definition powershell_runs :: "('ep, 'os) platform \<Rightarrow> (nrpt_script \<Rightarrow> string) \<Rightarrow> 'os nrpt_cmdlets \<Rightarrow> bool" where
  "powershell_runs X script C \<longleftrightarrow>
     (\<forall>label k env s printed s'. command_of X label ''powershell'' (powershell_args script k) env s = (Ok printed, s') \<longrightarrow>
        nrpt_program k C env s = (Ok (), s'))"

definition nrpt_ok :: "'os nrpt_cmdlets \<Rightarrow> ('os \<Rightarrow> nrpt_rule list) \<Rightarrow> bool" where
  "nrpt_ok C rules \<longleftrightarrow>
     (\<forall>s. distinct (map rule_name (rules s))) \<and>
     (\<forall>s rs s'. get_rules C s = (Ok rs, s') \<longrightarrow> rs = rules s \<and> rules s' = rules s) \<and>
     (\<forall>n ns c s s'. add_rule C n ns c s = (Ok (), s') \<longrightarrow>
        (\<exists>name. rules s' = rules s @ [\<lparr>rule_name = name, rule_namespace = n, rule_servers = ns, rule_text = c\<rparr>])) \<and>
     (\<forall>r s s'. remove_rule C r s = (Ok (), s') \<longrightarrow> rules s' = filter (\<lambda>x. rule_name x \<noteq> rule_name r) (rules s))"

definition plain :: "string \<Rightarrow> bool" where
  "plain s \<longleftrightarrow> list_all (\<lambda>c. code c < 128 \<and> \<not> (65 \<le> code c \<and> code c \<le> 90)) s"

definition same_text_ok :: "'os nrpt_cmdlets \<Rightarrow> bool" where
  "same_text_ok C \<longleftrightarrow> (\<forall>a b. plain a \<longrightarrow> plain b \<longrightarrow> same_text C a b = (a = b))"

definition rule_entry :: "nrpt_rule \<Rightarrow> string \<times> string list \<times> string" where
  "rule_entry r = (rule_namespace r, rule_servers r, rule_text r)"

text \<open>The rules whose owner is known to be gone.\<close>

definition stale :: "'os nrpt_cmdlets \<Rightarrow> nrpt_rule \<Rightarrow> bool" where
  "stale C r \<longleftrightarrow>
     (case rule_owner (same_text C) NRPT_COMMENT_PREFIX (rule_text r) of
        None \<Rightarrow> False
      | Some (pid, start) \<Rightarrow> owner_alive (probe_owner C pid) start = Ok (Some False))"

definition ticks_of :: "win_process \<Rightarrow> 64 word option" where
  "ticks_of W = (case creation_time W of Ok (high, low) \<Rightarrow> Some (filetime_ticks high low) | Err _ \<Rightarrow> None)"

text \<open>
  A machine for the examples: its state is the list of rules, and its \<^verbatim>\<open>powershell\<close> runs the programs.
\<close>

definition sample_rules :: "nrpt_rule list \<Rightarrow> nrpt_rule list" where
  "sample_rules s = (if distinct (map rule_name s) then s else [])"

definition sample_cmdlets :: "nrpt_rule list nrpt_cmdlets" where
  "sample_cmdlets =
     \<lparr>get_rules = (\<lambda>s. (Ok (sample_rules s), s)),
      add_rule = (\<lambda>n ns c s. (Ok (), sample_rules s @
        [\<lparr>rule_name = concat (map rule_name (sample_rules s)) @ ''x'', rule_namespace = n, rule_servers = ns, rule_text = c\<rparr>])),
      remove_rule = (\<lambda>r s. (Ok (), filter (\<lambda>x. rule_name x \<noteq> rule_name r) (sample_rules s))),
      probe_owner = (\<lambda>_. ArgumentException), same_text = (=)\<rparr>"

fun sample_script :: "nrpt_script \<Rightarrow> string" where
  "sample_script SET_NRPT_RULE_SCRIPT = ''set''"
| "sample_script CLEAR_NRPT_RULES_SCRIPT = ''clear''"
| "sample_script CLEAR_STALE_NRPT_RULES_SCRIPT = ''stale''"

definition sample_spawn :: "command \<Rightarrow> nrpt_rule list \<Rightarrow> (child_run, io_error) result \<times> nrpt_rule list" where
  "sample_spawn cmd s =
     (let k = (if last (arguments cmd) = ''set'' then SET_NRPT_RULE_SCRIPT
               else if last (arguments cmd) = ''clear'' then CLEAR_NRPT_RULES_SCRIPT else CLEAR_STALE_NRPT_RULES_SCRIPT)
      in case nrpt_program k sample_cmdlets (environment cmd) s of
           (r, s) \<Rightarrow> (Ok \<lparr>stdout_reads = [], stderr_reads = [], work_end = Completed (Exited (if r = Ok () then 0 else 1)),
                        kill_result = Ok (), reap_result = Ok ()\<rparr>, s))"

definition sample_windows :: "(unit, nrpt_rule list) platform" where
  "sample_windows =
     \<lparr>io_str = (\<lambda>_. ''io''), to_lowercase = (\<lambda>s. s),
      route_mgr = \<lparr>rm_new = (\<lambda>s. (Ok (), s)), rm_add = (\<lambda>_ s. (Ok (), s)), rm_delete = (\<lambda>_ s. (Ok (), s)), rm_find = (\<lambda>_ s. (Ok None, s))\<rparr>,
      endpoints = \<lparr>ep_lookup = (\<lambda>_ s. (Ok (), s)), ep_replace = (\<lambda>_ s. (Ok (), s)), ep_delete = (\<lambda>_ s. (Ok (), s))\<rparr>,
      processes = \<lparr>new_runtime = (\<lambda>s. (Ok (), s)), geteuid = (\<lambda>s. 0), spawn = sample_spawn\<rparr>\<rparr>"

definition sample_daemon :: win_process where
  "sample_daemon = \<lparr>win_pid = 4321, creation_time = Ok (1, 2)\<rparr>"

definition sample_rule :: nrpt_rule where
  "sample_rule = \<lparr>rule_name = ''a'', rule_namespace = ''.corp'', rule_servers = [''10.0.0.1''], rule_text = ''by hand''\<rparr>"

definition sample_comment :: string where
  "sample_comment = (case rule_comment sample_daemon ''utun7'' of Ok c \<Rightarrow> c | Err _ \<Rightarrow> [])"

section \<open>Lemmas\<close>

lemma nrpt_okD:
  assumes "nrpt_ok C rules"
  shows "distinct (map rule_name (rules s))"
    "get_rules C s = (Ok rs, s') \<Longrightarrow> rs = rules s \<and> rules s' = rules s"
    "add_rule C n ns c s = (Ok (), s') \<Longrightarrow>
       \<exists>name. rules s' = rules s @ [\<lparr>rule_name = name, rule_namespace = n, rule_servers = ns, rule_text = c\<rparr>]"
    "remove_rule C r s = (Ok (), s') \<Longrightarrow> rules s' = filter (\<lambda>x. rule_name x \<noteq> rule_name r) (rules s)"
  using assms unfolding nrpt_ok_def by blast+

lemma then_do_OkE:
  assumes "then_do f g s = (Ok (), s')"
  obtains s1 where "f s = (Ok (), s1)" "g s1 = (Ok (), s')"
  using assms by (cases "f s"; cases "fst (f s)") (auto simp: then_do_def)

text \<open>Removing by name a part of the table that a predicate selects.\<close>

lemma filter_names:
  assumes "distinct (map rule_name rs)"
  shows "filter (\<lambda>x. rule_name x \<notin> rule_name ` set (filter P rs)) rs = filter (\<lambda>x. \<not> P x) rs"
proof (rule filter_cong [OF refl])
  fix x
  assume "x \<in> set rs"
  moreover have "inj_on rule_name (set rs)" using assms by (simp add: distinct_map)
  ultimately show "(rule_name x \<notin> rule_name ` set (filter P rs)) = (\<not> P x)" by (auto dest: inj_onD)
qed

lemma for_each_remove:
  assumes "nrpt_ok C rules" and "for_each f xs s = (Ok (), s')"
    and "\<And>x s s'. f x s = (Ok (), s') \<Longrightarrow> (if P x then remove_rule C x s else (Ok (), s)) = (Ok (), s')"
  shows "rules s' = filter (\<lambda>x. rule_name x \<notin> rule_name ` set (filter P xs)) (rules s)"
  using assms(2)
proof (induction xs arbitrary: s)
  case (Cons x xs)
  then obtain s1 where s1: "f x s = (Ok (), s1)" "for_each f xs s1 = (Ok (), s')" by (auto elim: then_do_OkE)
  have "rules s1 = filter (\<lambda>y. P x \<longrightarrow> rule_name y \<noteq> rule_name x) (rules s)"
    using assms(3) [OF s1(1)] nrpt_okD(4) [OF assms(1), of x s s1] by (auto split: if_splits)
  then show ?case using Cons.IH [OF s1(2)] by (auto intro: filter_cong)
qed simp

lemma with_rules_OkE:
  assumes "nrpt_ok C rules" and "with_rules C f s = (Ok (), s')"
  obtains s1 where "f (rules s) s1 = (Ok (), s')" "rules s1 = rules s"
proof -
  obtain q s1 where q: "get_rules C s = (q, s1)" by fastforce
  then show thesis using assms(2) that nrpt_okD(2) [OF assms(1), of s _ s1] by (cases q) (auto simp: with_rules_def)
qed

lemma clear_program:
  assumes "nrpt_ok C rules" and "clear_rules_program C env s = (Ok (), s')"
  shows "rules s' = filter (\<lambda>r. \<not> same_text C (rule_text r) (env_var env ''WG_KOTLIN_NRPT_COMMENT'')) (rules s)"
proof -
  let ?P = "\<lambda>r. same_text C (rule_text r) (env_var env ''WG_KOTLIN_NRPT_COMMENT'')"
  obtain s1 where s1: "for_each (remove_rule C) (filter ?P (rules s)) s1 = (Ok (), s')" "rules s1 = rules s"
    using with_rules_OkE [OF assms(1) assms(2) [unfolded clear_rules_program_def]] by metis
  have "rules s' = filter (\<lambda>x. rule_name x \<notin> rule_name ` set (filter (\<lambda>_. True) (filter ?P (rules s)))) (rules s1)"
    by (rule for_each_remove [OF assms(1) s1(1)]) simp
  then show ?thesis using filter_names [OF nrpt_okD(1) [OF assms(1), of s], of ?P] s1(2) by simp
qed

lemma stale_program:
  assumes "nrpt_ok C rules" and "stale_rules_program C [(''WG_KOTLIN_NRPT_COMMENT_PREFIX'', NRPT_COMMENT_PREFIX)] s = (Ok (), s')"
  shows "rules s' = filter (\<lambda>r. \<not> stale C r) (rules s)"
proof -
  have pre: "env_var [(''WG_KOTLIN_NRPT_COMMENT_PREFIX'', NRPT_COMMENT_PREFIX)] ''WG_KOTLIN_NRPT_COMMENT_PREFIX'' = NRPT_COMMENT_PREFIX"
    by (simp add: env_var_def)
  obtain s1 where s1: "for_each (clear_stale_rule C NRPT_COMMENT_PREFIX) (rules s) s1 = (Ok (), s')" "rules s1 = rules s"
    using with_rules_OkE [OF assms(1) assms(2) [unfolded stale_rules_program_def pre]] by metis
  have "rules s' = filter (\<lambda>x. rule_name x \<notin> rule_name ` set (filter (stale C) (rules s))) (rules s1)"
    by (rule for_each_remove [OF assms(1) s1(1)])
       (auto simp: clear_stale_rule_def stale_def split: option.splits result.splits if_splits)
  then show ?thesis using filter_names [OF nrpt_okD(1) [OF assms(1), of s], of "stale C"] s1(2) by simp
qed

lemma set_program:
  assumes "nrpt_ok C rules" and "set_rules_program C env s = (Ok (), s')"
  shows "\<exists>new. rules s' = rules s @ new \<and>
    map rule_entry new = map (\<lambda>n. (n, env_lines env ''WG_KOTLIN_DNS_SERVERS'', env_var env ''WG_KOTLIN_NRPT_COMMENT''))
      (env_lines env ''WG_KOTLIN_DNS_NAMESPACES'')"
proof -
  have "\<exists>new. rules s' = rules s @ new \<and> map rule_entry new = map (\<lambda>n. (n, ips, c)) ns"
    if "for_each (\<lambda>n. add_rule C n ips c) ns s = (Ok (), s')" for ips c ns
    using that
  proof (induction ns arbitrary: s)
    case (Cons n ns)
    then obtain s1 where s1: "add_rule C n ips c s = (Ok (), s1)" "for_each (\<lambda>n. add_rule C n ips c) ns s1 = (Ok (), s')"
      by (auto elim: then_do_OkE)
    obtain name where "rules s1 = rules s @ [\<lparr>rule_name = name, rule_namespace = n, rule_servers = ips, rule_text = c\<rparr>]"
      using nrpt_okD(3) [OF assms(1) s1(1)] by blast
    moreover obtain new where "rules s' = rules s1 @ new" "map rule_entry new = map (\<lambda>n. (n, ips, c)) ns"
      using Cons.IH [OF s1(2)] by blast
    ultimately show ?case
      by (intro exI [of _ "\<lparr>rule_name = name, rule_namespace = n, rule_servers = ips, rule_text = c\<rparr> # new"])
         (simp add: rule_entry_def [of "\<lparr>rule_name = name, rule_namespace = n, rule_servers = ips, rule_text = c\<rparr>"])
  qed simp
  then show ?thesis using assms(2) unfolding set_rules_program_def by blast
qed

text \<open>The comment of a session's rules is taken apart into what it was made of.\<close>

lemma digit_not_colon: "is_ascii_digit c \<Longrightarrow> c \<noteq> CHR '':''"
  by (auto simp: is_ascii_digit_def code_def)

lemma plain_append [simp]: "plain (a @ b) \<longleftrightarrow> plain a \<and> plain b"
  by (simp add: plain_def)

lemma plain_digits: "list_all is_ascii_digit s \<Longrightarrow> plain s"
  by (auto simp: plain_def list_all_iff is_ascii_digit_def)

lemma supported_nameE:
  assumes "is_supported_interface_name os name"
  obtains ds where "name = ''utun'' @ ds" "digits ds"
  using assms
  by (auto simp: is_supported_interface_name_def validate_interface_name_def digits_def strip_prefix_eq_Some
      split: if_splits option.splits)

lemma comment_fields:
  assumes "rule_comment W name = Ok comment" and "is_supported_interface_name os name"
  obtains ticks where "ticks_of W = Some ticks" "plain comment"
    "owner_fields comment = Some (NRPT_COMMENT_PREFIX, dec_str (unat (win_pid W)), dec_str (unat ticks), name)"
proof -
  obtain ds where name: "name = ''utun'' @ ds" "digits ds" using supported_nameE [OF assms(2)] .
  obtain high low where t: "creation_time W = Ok (high, low)"
    using assms(1) by (cases "creation_time W") (auto simp: rule_comment_def)
  let ?p = "dec_str (unat (win_pid W))" and ?t = "dec_str (unat (filetime_ticks high low))"
  have c: "comment = ((''kmpvpn-daemon'' @ CHR '':'' # ?p) @ CHR '':'' # ?t) @ CHR '':'' # name"
    using assms(1) t by (simp add: rule_comment_def NRPT_COMMENT_PREFIX_def)
  have free: "CHR '':'' \<notin> set (dec_str n)" for n using dec_str_digits [of n] digit_not_colon by (auto simp: list_all_iff)
  have nc: "CHR '':'' \<notin> set name" using name digit_not_colon by (auto simp: digits_def list_all_iff)
  have "owner_fields comment = Some (NRPT_COMMENT_PREFIX, ?p, ?t, name)"
    unfolding c owner_fields_def 
    by (simp only: rsplit_once_last [OF free] rsplit_once_last [OF nc] option.case prod.case) (simp add: NRPT_COMMENT_PREFIX_def)
  moreover have "plain comment"
  proof -
    have "plain (''kmpvpn-daemon'' @ '':'') \<and> plain ''utun'' \<and> plain '':''" by (simp add: plain_def code_def)
    moreover have "comment = (''kmpvpn-daemon'' @ '':'') @ ?p @ '':'' @ ?t @ '':'' @ ''utun'' @ ds" using c name(1) by simp
    ultimately show ?thesis using plain_digits dec_str_digits name(2) by (simp only: plain_append digits_def)
  qed
  moreover have "ticks_of W = Some (filetime_ticks high low)" using t by (simp add: ticks_of_def)
  ultimately show thesis using that by blast
qed

text \<open>Different sessions have different comments.\<close>

lemma comments_differ:
  assumes "same_text_ok C" and "is_supported_interface_name os name" and "is_supported_interface_name os name'"
    and "rule_comment W name = Ok c" and "rule_comment W' name' = Ok c'" and "same_text C c' c"
  shows "win_pid W' = win_pid W \<and> ticks_of W' = ticks_of W \<and> name' = name"
proof -
  obtain t where t: "ticks_of W = Some t" "plain c" "owner_fields c = Some (NRPT_COMMENT_PREFIX, dec_str (unat (win_pid W)), dec_str (unat t), name)"
    using comment_fields [OF assms(4,2)] .
  obtain t' where t': "ticks_of W' = Some t'" "plain c'"
      "owner_fields c' = Some (NRPT_COMMENT_PREFIX, dec_str (unat (win_pid W')), dec_str (unat t'), name')"
    using comment_fields [OF assms(5,3)] .
  have "c' = c" using assms(1,6) t(2) t'(2) by (simp add: same_text_ok_def)
  then show ?thesis using t t' by (simp add: dec_str_inject word_unat_eq_iff)
qed

text \<open>Whose rule it is.\<close>

lemma owner_of_comment:
  assumes "same_text_ok C" and "is_supported_interface_name os name" and "rule_comment W name = Ok c" and "ticks_of W = Some ticks"
    and "0 < unat (win_pid W)"
  shows "rule_owner (same_text C) NRPT_COMMENT_PREFIX c =
    (if unat (win_pid W) \<le> 2147483647 \<and> unat ticks \<le> 9223372036854775807 then Some (unat (win_pid W), unat ticks) else None)"
proof -
  obtain t where t: "ticks_of W = Some t" "plain c" "owner_fields c = Some (NRPT_COMMENT_PREFIX, dec_str (unat (win_pid W)), dec_str (unat t), name)"
    using comment_fields [OF assms(3,2)] .
  obtain ds where name: "name = ''utun'' @ ds" "digits ds" using supported_nameE [OF assms(2)] .
  have "plain NRPT_COMMENT_PREFIX" "plain ''utun''" by (simp_all add: plain_def code_def NRPT_COMMENT_PREFIX_def)
  then have "same_text C NRPT_COMMENT_PREFIX NRPT_COMMENT_PREFIX" "same_text C ''utun'' ''utun''"
    using assms(1) unfolding same_text_ok_def by blast+
  moreover have "digits (dec_str n)" for n using dec_str_digits [of n] by (simp add: digits_def)
  moreover have "take 4 name = ''utun''" "drop 4 name = ds" using name(1) by simp_all
  ultimately show ?thesis
    using t assms(4,5) name(2) dec_str_no_leading_zero [OF assms(5)] by (simp add: rule_owner_def)
qed

text \<open>The commands, given that they succeeded.\<close>

lemma ignore_ok_OkE:
  assumes "ignore_ok f s = (Ok (), s')"
  obtains printed where "f s = (Ok printed, s')"
  using assms by (cases "f s"; cases "fst (f s)") (auto simp: ignore_ok_def)

lemma clear_command:
  assumes "powershell_runs X script C" and "nrpt_ok C rules" and "rule_comment W interface = Ok comment"
    and "clear_nrpt_rules X script W interface s = (Ok (), s')"
  shows "rules s' = filter (\<lambda>r. \<not> same_text C (rule_text r) comment) (rules s)"
proof -
  have "ignore_ok (command_of X ''clear-nrpt-rules'' ''powershell'' (powershell_args script CLEAR_NRPT_RULES_SCRIPT)
      [(''WG_KOTLIN_NRPT_COMMENT'', comment)]) s = (Ok (), s')"
    using assms(3,4) by (simp add: clear_nrpt_rules_def)
  then obtain printed where "command_of X ''clear-nrpt-rules'' ''powershell'' (powershell_args script CLEAR_NRPT_RULES_SCRIPT)
      [(''WG_KOTLIN_NRPT_COMMENT'', comment)] s = (Ok printed, s')"
    by (rule ignore_ok_OkE)
  then have "nrpt_program CLEAR_NRPT_RULES_SCRIPT C [(''WG_KOTLIN_NRPT_COMMENT'', comment)] s = (Ok (), s')"
    using assms(1) unfolding powershell_runs_def by blast
  then show ?thesis using clear_program [OF assms(2)] by (simp add: env_var_def)
qed

lemma env_lines_join:
  assumes "map_of env name = Some (join newline ws)" and "\<And>w. w \<in> set ws \<Longrightarrow> w \<noteq> [] \<and> CHR 0x0A \<notin> set w"
  shows "env_lines env name = ws"
proof (cases "ws = []")
  case True
  then show ?thesis using assms(1) by (simp add: env_lines_def env_var_def)
next
  case False
  have nl: "newline_char = CHR 0x0A" by (simp add: newline_char_def char_of_def bit_0)
  have "split_on newline_char (join newline ws) = ws"
    unfolding nl newline_def by (rule split_on_join [OF False]) (use assms(2) in blast)
  moreover have "filter (\<lambda>l. l \<noteq> []) ws = ws" using assms(2) by (simp add: filter_id_conv)
  ultimately show ?thesis using assms(1) by (simp add: env_lines_def env_var_def)
qed

lemma set_command:
  assumes "powershell_runs X script C" and "nrpt_ok C rules" and "rule_comment W interface = Ok comment"
    and "set_nrpt_rules X script W interface ips doms s = (Ok (), s')"
    and "\<And>w. w \<in> set ips \<union> set doms \<Longrightarrow> w \<noteq> [] \<and> CHR 0x0A \<notin> set w"
  shows "\<exists>new. rules s' = rules s @ new \<and> map rule_entry new = map (\<lambda>d. (d, ips, comment)) doms"
proof -
  let ?env = "[(''WG_KOTLIN_DNS_NAMESPACES'', join newline doms), (''WG_KOTLIN_DNS_SERVERS'', join newline ips),
      (''WG_KOTLIN_NRPT_COMMENT'', comment)]"
  have "ignore_ok (command_of X ''set-nrpt-rules'' ''powershell'' (powershell_args script SET_NRPT_RULE_SCRIPT) ?env) s = (Ok (), s')"
    using assms(3,4) by (simp add: set_nrpt_rules_def)
  then obtain printed where "command_of X ''set-nrpt-rules'' ''powershell'' (powershell_args script SET_NRPT_RULE_SCRIPT) ?env s = (Ok printed, s')"
    by (rule ignore_ok_OkE)
  then have "nrpt_program SET_NRPT_RULE_SCRIPT C ?env s = (Ok (), s')" using assms(1) unfolding powershell_runs_def by blast
  then have "set_rules_program C ?env s = (Ok (), s')" by simp
  moreover have "env_lines ?env ''WG_KOTLIN_DNS_NAMESPACES'' = doms" "env_lines ?env ''WG_KOTLIN_DNS_SERVERS'' = ips"
    using assms(5) by (intro env_lines_join; simp)+
  moreover have "env_var ?env ''WG_KOTLIN_NRPT_COMMENT'' = comment" by (simp add: env_var_def)
  ultimately show ?thesis using set_program [OF assms(2), of ?env s s'] by simp
qed

text \<open>An address is never displayed as an empty text.\<close>

lemma join_not_Nil: "1 < length ws \<Longrightarrow> sep \<noteq> [] \<Longrightarrow> join sep ws \<noteq> []"
  by (cases ws; cases "tl ws") (auto simp: join_Cons)

lemma length_segments: "length (segments bs) = length bs div 2"
  by (induction bs rule: segments.induct) auto

lemma ip_to_string_not_Nil: "ip_to_string ip \<noteq> []"
proof (cases ip)
  case (IpV4 w)
  then show ?thesis by (simp add: ipv4_str_def join_not_Nil)
next
  case (IpV6 w)
  have "fmt_segments (segments (nat_be 16 (unat w))) \<noteq> []"
    unfolding fmt_segments_def by (rule join_not_Nil) (simp_all add: length_segments)
  then show ?thesis using IpV6 by (auto simp: ipv6_str_def Let_def split: prod.splits)
qed

text \<open>The servers and domains of a valid configuration are not empty and on one line each.\<close>

lemma dns_lines:
  assumes "valid_config os config" and "ips_to_args (config_servers config) = Some ips"
    and "w \<in> set ips \<union> set (map (\<lambda>d. ''.'' @ d) (normalize_domains (config_domains config)))"
  shows "w \<noteq> [] \<and> CHR 0x0A \<notin> set w"
proof -
  have "set ips = {ip_to_string ip | ip. proto_of_ip ip \<in> set (config_servers config)}" using ips_to_args_valid [OF assms(1)] assms(2) by auto
  moreover have "ip_to_string ip \<noteq> [] \<and> CHR 0x0A \<notin> set (ip_to_string ip)" for ip
    using ip_to_string_ip_chars ip_chars_no_newline ip_to_string_not_Nil by blast
  ultimately show ?thesis
    using assms(3) normalize_domains_valid(2) [OF assms(1)] host_name_no_newline by auto
qed
lemma sample_nrpt_ok: "nrpt_ok sample_cmdlets sample_rules"
proof -
  have fresh: "concat (map rule_name rs) @ ''x'' \<noteq> rule_name r" if "r \<in> set rs" for r rs
  proof
    assume "concat (map rule_name rs) @ ''x'' = rule_name r"
    moreover have "length (rule_name r) \<le> length (concat (map rule_name rs))"
      using that by (induction rs) auto
    ultimately show False by (metis add_le_same_cancel1 length_append list.size(3) list.size(4) not_one_le_zero plus_1_eq_Suc add_0_right)
  qed
  have d: "distinct (map rule_name (sample_rules s))" for s by (simp add: sample_rules_def)
  have "sample_rules (filter P (sample_rules s)) = filter P (sample_rules s)" for P s
    using d [of s] by (simp add: sample_rules_def [of "filter P (sample_rules s)"] distinct_map_filter)
  moreover have "sample_rules (sample_rules s @ [r]) = sample_rules s @ [r]"
    if "rule_name r = concat (map rule_name (sample_rules s)) @ ''x''" for s r
    using d [of s] fresh [of _ "sample_rules s"] that by (auto simp: sample_rules_def [of "sample_rules s @ [r]"])
  ultimately show ?thesis using d by (auto simp: nrpt_ok_def sample_cmdlets_def)
qed

lemma sample_same_text: "same_text_ok sample_cmdlets"
  by (simp add: same_text_ok_def sample_cmdlets_def)

lemma sample_command_runs:
  "command_of sample_windows label ''powershell'' (powershell_args sample_script k) env s =
     (case nrpt_program k sample_cmdlets env s of
        (Ok _, s') \<Rightarrow> (Ok [], s')
      | (Err _, s') \<Rightarrow> (fst (command_of sample_windows label ''powershell'' (powershell_args sample_script k) env s), s'))"
  "nrpt_program k sample_cmdlets env s = (Err e, s'') \<Longrightarrow>
     \<not> is_ok (fst (command_of sample_windows label ''powershell'' (powershell_args sample_script k) env s))"
  by (cases "nrpt_program k sample_cmdlets env s"; cases "fst (nrpt_program k sample_cmdlets env s)"; cases k;
      simp add: run_command_def command_output_def work_result_def Let_def sample_windows_def sample_spawn_def powershell_args_def
        utf8_lossy.simps)+

lemma sample_powershell_runs: "powershell_runs sample_windows sample_script sample_cmdlets"
  unfolding powershell_runs_def
proof (intro allI impI)
  fix label k env s printed s'
  assume run: "command_of sample_windows label ''powershell'' (powershell_args sample_script k) env s = (Ok printed, s')"
  obtain q s1 where q: "nrpt_program k sample_cmdlets env s = (q, s1)" by fastforce
  show "nrpt_program k sample_cmdlets env s = (Ok (), s')"
  proof (cases q)
    case (Ok u)
    then show ?thesis using run q sample_command_runs(1) [of label k env s] by simp
  next
    case (Err e)
    then show ?thesis using run q sample_command_runs(2) [of k env s e s1 label] by simp
  qed
qed

lemma sample_program_ok: "fst (nrpt_program k sample_cmdlets env s) = Ok ()"
proof -
  have each: "(\<And>x s. fst (f x s) = Ok ()) \<Longrightarrow> fst (for_each f xs s) = Ok ()" for f :: "'a \<Rightarrow> nrpt_rule list hook" and xs s
    by (induction xs arbitrary: s) (simp_all add: then_do_all_ok)
  have "fst (clear_stale_rule sample_cmdlets pre r s) = Ok ()" for pre r s
    by (simp add: clear_stale_rule_def sample_cmdlets_def split: option.split)
  then show ?thesis
    by (cases k)
       (simp_all add: set_rules_program_def clear_rules_program_def stale_rules_program_def with_rules_def each sample_cmdlets_def)
qed

lemma sample_command_ok: "fst (command_of sample_windows label ''powershell'' (powershell_args sample_script k) env s) = Ok []"
  using sample_command_runs(1) [of label k env s] sample_program_ok [of k env s]
  by (cases "nrpt_program k sample_cmdlets env s") simp

lemma sample_comment: "rule_comment sample_daemon ''utun7'' = Ok sample_comment"
  by (simp add: sample_comment_def rule_comment_def sample_daemon_def)

lemma sample_name: "is_supported_interface_name Windows ''utun7''"
  by (simp add: is_supported_interface_name_def validate_interface_name_def is_ascii_digit_def code_def MAX_INTERFACE_NAME_LENGTH_def)

lemma sample_rule_text: "rule_text sample_rule \<noteq> sample_comment"
  by (simp add: sample_rule_def sample_comment_def rule_comment_def sample_daemon_def NRPT_COMMENT_PREFIX_def)

section \<open>Properties\<close>

text \<open>
  C18: A session's rules are its own. When the resolver settings of a session on Windows succeed, the system has exactly
  one rule with its comment for each of its domains, naming all of its servers (none if it has no servers or no
  domains), and every other rule is as before. Clearing them, when it succeeds, leaves exactly the rules of others.
  No other session, of this or another daemon process, has the same comment, whatever the comparison makes of capital letters.
\<close>

theorem session_rules_own:
  assumes "powershell_runs X script C" and "nrpt_ok C rules" and "same_text_ok C"
    and "valid_config os config" and "is_supported_interface_name os interface"
    and "ips_to_args (config_servers config) = Some ips" and "doms = map (\<lambda>d. ''.'' @ d) (normalize_domains (config_domains config))"
    and "rule_comment W interface = Ok comment" and "windows_dns X script W interface ips doms s = (Ok (), s1)"
  shows "filter (\<lambda>r. \<not> same_text C (rule_text r) comment) (rules s1) = filter (\<lambda>r. \<not> same_text C (rule_text r) comment) (rules s) \<and>
    map rule_entry (filter (\<lambda>r. same_text C (rule_text r) comment) (rules s1)) =
      (if ips = [] then [] else map (\<lambda>d. (d, ips, comment)) doms) \<and>
    (\<forall>s2. clear_nrpt_rules X script W interface s1 = (Ok (), s2) \<longrightarrow>
       rules s2 = filter (\<lambda>r. \<not> same_text C (rule_text r) comment) (rules s)) \<and>
    (\<forall>W' name c. is_supported_interface_name os name \<longrightarrow> rule_comment W' name = Ok c \<longrightarrow> same_text C c comment \<longrightarrow>
       win_pid W' = win_pid W \<and> ticks_of W' = ticks_of W \<and> name = interface)"
proof -
  let ?mine = "\<lambda>r. same_text C (rule_text r) comment"
  obtain s0 where s0: "clear_nrpt_rules X script W interface s = (Ok (), s0)"
      "(if doms \<noteq> [] \<and> ips \<noteq> [] then set_nrpt_rules X script W interface ips doms else (\<lambda>s. (Ok (), s))) s0 = (Ok (), s1)"
    using assms(9) unfolding windows_dns_def by (rule then_do_OkE)
  have cleared: "rules s0 = filter (\<lambda>r. \<not> ?mine r) (rules s)" by (rule clear_command [OF assms(1,2,8) s0(1)])
  have "plain comment" using comment_fields [OF assms(8,5)] by blast
  then have self: "same_text C comment comment" using assms(3) by (simp add: same_text_ok_def)
  obtain new where new: "rules s1 = rules s0 @ new" "map rule_entry new = (if ips = [] then [] else map (\<lambda>d. (d, ips, comment)) doms)"
  proof (cases "doms \<noteq> [] \<and> ips \<noteq> []")
    case True
    then have "set_nrpt_rules X script W interface ips doms s0 = (Ok (), s1)" using s0(2) by simp
    from set_command [OF assms(1,2,8) this dns_lines [OF assms(4,6)]] show thesis using that True assms(7) by auto
  next
    case False
    then show thesis using that [of "[]"] s0(2) by auto
  qed
  have "?mine r" if "r \<in> set new" for r
  proof -
    have "rule_entry r \<in> set (map rule_entry new)" using that by simp
    then show ?thesis using self new(2) by (auto simp: rule_entry_def split: if_splits)
  qed
  then have "filter ?mine (rules s1) = new" "filter (\<lambda>r. \<not> ?mine r) (rules s1) = rules s0"
    using new(1) cleared by (simp_all add: filter_id_conv filter_empty_conv)
  then show ?thesis
    using new(2) cleared clear_command [OF assms(1,2,8), of s1] comments_differ [OF assms(3,5) _ assms(8)] by auto
qed

theorem session_rules_own_witness:
  "\<exists>ips s1. ips_to_args (config_servers sample_config) = Some ips \<and>
     windows_dns sample_windows sample_script sample_daemon ''utun7'' ips
       (map (\<lambda>d. ''.'' @ d) (normalize_domains (config_domains sample_config))) [sample_rule] = (Ok (), s1) \<and>
     filter (\<lambda>r. rule_text r \<noteq> sample_comment) (sample_rules s1) = [sample_rule] \<and>
     map rule_entry (filter (\<lambda>r. rule_text r = sample_comment) (sample_rules s1)) =
       (if ips = [] then [] else map (\<lambda>d. (d, ips, sample_comment)) (map (\<lambda>d. ''.'' @ d) (normalize_domains (config_domains sample_config))))"
proof -
  let ?doms = "map (\<lambda>d. ''.'' @ d) (normalize_domains (config_domains sample_config))"
  obtain ips where ips: "ips_to_args (config_servers sample_config) = Some ips" using ips_to_args_valid [OF sample_config_valid] by blast
  have "fst (clear_nrpt_rules sample_windows sample_script sample_daemon ''utun7'' s) = Ok ()"
    "fst (set_nrpt_rules sample_windows sample_script sample_daemon ''utun7'' ips doms s) = Ok ()" for doms s
    by (simp_all add: clear_nrpt_rules_def set_nrpt_rules_def sample_comment fst_ignore_ok sample_command_ok)
  then have "fst (windows_dns sample_windows sample_script sample_daemon ''utun7'' ips ?doms [sample_rule]) = Ok ()"
    unfolding windows_dns_def by (intro then_do_all_ok) simp_all
  then obtain s1 where s1: "windows_dns sample_windows sample_script sample_daemon ''utun7'' ips ?doms [sample_rule] = (Ok (), s1)"
    by (metis prod.collapse)
  have "same_text sample_cmdlets = (=)" by (simp add: sample_cmdlets_def)
  moreover have "filter (\<lambda>r. rule_text r \<noteq> sample_comment) (sample_rules [sample_rule]) = [sample_rule]"
    using sample_rule_text by (simp add: sample_rules_def)
  ultimately show ?thesis
    using session_rules_own [OF sample_powershell_runs sample_nrpt_ok sample_same_text sample_config_valid sample_name ips refl sample_comment s1]
      ips s1 by auto
qed



end
