(* ===== verification/Wintun.thy ===== *)
theory Wintun
  imports Std_Text
begin

text \<open>
  The Wintun library on Windows, wintun.rs: how the embedded DLL is put into a private directory, kept
  locked while sessions use it, and removed. The file system calls are a parameter, \<open>wintun_os\<close>, and so are the DLL's bytes, which
  the build embeds. Errors are the text they display, which is the context where the code adds one.
\<close>

section \<open>Definitions\<close>

type_synonym ('os, 'a) win_call = "'os \<Rightarrow> ('a, string) result \<times> 'os"

record ('h, 'os) wintun_os =
  dll_bytes :: bytes
  is_unicode :: "string \<Rightarrow> bool"
  program_files :: "('os, string) win_call"
  new_guid :: "('os, string) win_call"
  make_descriptor :: "string \<Rightarrow> ('os, unit) win_call"
  free_descriptor :: "'os \<Rightarrow> 'os"
  create_directory :: "string \<Rightarrow> string \<Rightarrow> ('os, unit) win_call"
  open_directory :: "string \<Rightarrow> ('os, 'h) win_call"
  file_attributes :: "'h \<Rightarrow> ('os, 32 word) win_call"
  volume_features :: "'h \<Rightarrow> ('os, 32 word) win_call"
  create_new :: "string \<Rightarrow> string \<Rightarrow> ('os, 'h) win_call"
  write_all_bytes :: "'h \<Rightarrow> bytes \<Rightarrow> ('os, unit) win_call"
  sync_all :: "'h \<Rightarrow> ('os, unit) win_call"
  open_shared_read :: "string \<Rightarrow> ('os, 'h) win_call"
  close_handle :: "'h \<Rightarrow> 'os \<Rightarrow> 'os"
  remove_file :: "string \<Rightarrow> ('os, unit) win_call"
  remove_dir :: "string \<Rightarrow> ('os, unit) win_call"

record 'h private_dll =
  dll_path :: string
  dll_file :: "'h option"
  dll_directory :: "'h option"

definition FILE_ATTRIBUTE_REPARSE_POINT :: "32 word" where "FILE_ATTRIBUTE_REPARSE_POINT = 0x400"
definition FILE_PERSISTENT_ACLS :: "32 word" where "FILE_PERSISTENT_ACLS = 0x8"

text \<open>Owner and group Administrators, full access for SYSTEM and Administrators only, nothing inherited from above.\<close>

definition wintun_sddl :: string where
  "wintun_sddl = ''O:BAG:BAD:P(A;OICI;FA;;;SY)(A;OICI;FA;;;BA)''"

definition backslash :: char where "backslash = char_of (92 :: nat)"

text \<open>\<^verbatim>\<open>Path::join\<close> with a plain name, and \<^verbatim>\<open>Path::parent\<close> of what it gives.\<close>

definition join_path :: "string \<Rightarrow> string \<Rightarrow> string" where
  "join_path d name = (if d \<noteq> [] \<and> last d = backslash then d @ name else d @ backslash # name)"

definition parent_path :: "string \<Rightarrow> string option" where
  "parent_path p = map_option fst (rsplit_once backslash p)"

definition and_call :: "('os, 'a) win_call \<Rightarrow> ('a \<Rightarrow> ('os, 'b) win_call) \<Rightarrow> ('os, 'b) win_call" where
  "and_call c f s = (case c s of (Err e, s) \<Rightarrow> (Err e, s) | (Ok x, s) \<Rightarrow> f x s)"

definition with_context :: "string \<Rightarrow> ('os, 'a) win_call \<Rightarrow> ('os, 'a) win_call" where
  "with_context m c s = (case c s of (r, s) \<Rightarrow> (map_err (\<lambda>_. m) r, s))"

definition ensure :: "bool \<Rightarrow> string \<Rightarrow> ('os, unit) win_call" where
  "ensure b m s = (if b then Ok () else Err m, s)"

text \<open>A handle that is closed if the rest fails, as when a local variable goes out of scope.\<close>

definition or_close :: "('h, 'os) wintun_os \<Rightarrow> 'h \<Rightarrow> ('os, 'a) win_call \<Rightarrow> ('os, 'a) win_call" where
  "or_close W h c s = (case c s of (Ok x, s) \<Rightarrow> (Ok x, s) | (Err e, s) \<Rightarrow> (Err e, close_handle W h s))"

definition lock_directory :: "('h, 'os) wintun_os \<Rightarrow> string \<Rightarrow> ('os, 'h) win_call" where
  "lock_directory W directory =
     and_call (with_context ''lock Wintun directory against replacement'' (open_directory W directory)) (\<lambda>h.
       or_close W h (
         and_call (file_attributes W h) (\<lambda>attributes.
         and_call (ensure (and attributes FILE_ATTRIBUTE_REPARSE_POINT = 0) ''Wintun directory is a reparse point'') (\<lambda>_.
         and_call (volume_features W h) (\<lambda>features.
         and_call (ensure (and features FILE_PERSISTENT_ACLS \<noteq> 0) ''Wintun directory requires filesystem ACL support'') (\<lambda>_ s.
           (Ok h, s)))))))"

text \<open>The new file is written, flushed and closed.\<close>

definition write_dll :: "('h, 'os) wintun_os \<Rightarrow> string \<Rightarrow> ('os, unit) win_call" where
  "write_dll W path =
     and_call (with_context ''create Wintun DLL exclusively'' (create_new W path wintun_sddl)) (\<lambda>h.
       and_call (or_close W h (
         and_call (with_context ''extract embedded Wintun DLL'' (write_all_bytes W h (dll_bytes W))) (\<lambda>_.
         with_context ''flush Wintun DLL'' (sync_all W h)))) (\<lambda>_ s.
       (Ok (), close_handle W h s)))"

definition close_opt :: "('h, 'os) wintun_os \<Rightarrow> 'h option \<Rightarrow> 'os \<Rightarrow> 'os" where
  "close_opt W h s = (case h of Some h \<Rightarrow> close_handle W h s | None \<Rightarrow> s)"

definition drop_dll :: "('h, 'os) wintun_os \<Rightarrow> 'h private_dll \<Rightarrow> 'os \<Rightarrow> 'os" where
  "drop_dll W dll s =
     (let s = close_opt W (dll_file dll) s;
          s = close_opt W (dll_directory dll) s;
          s = snd (remove_file W (dll_path dll) s)
      in (case parent_path (dll_path dll) of Some d \<Rightarrow> snd (remove_dir W d s) | None \<Rightarrow> s))"

text \<open>The closure of \<open>extract_at\<close>: from the new directory on, a failure drops what there is.\<close>

definition extract_into :: "('h, 'os) wintun_os \<Rightarrow> string \<Rightarrow> ('os, 'h private_dll) win_call" where
  "extract_into W directory s =
     (case with_context ''create private Wintun directory'' (create_directory W directory wintun_sddl) s of
        (Err e, s) \<Rightarrow> (Err e, s)
      | (Ok _, s) \<Rightarrow>
          let dll = \<lparr>dll_path = join_path directory ''wintun.dll'', dll_file = None, dll_directory = None\<rparr>
          in (case and_call (ensure (is_unicode W (dll_path dll)) ''Wintun DLL path is not Unicode'') (\<lambda>_. lock_directory W directory) s of
                (Err e, s) \<Rightarrow> (Err e, drop_dll W dll s)
              | (Ok h, s) \<Rightarrow>
                  let dll = dll\<lparr>dll_directory := Some h\<rparr>
                  in (case and_call (write_dll W (dll_path dll))
                             (\<lambda>_. with_context ''lock Wintun DLL against modification'' (open_shared_read W (dll_path dll))) s of
                        (Err e, s) \<Rightarrow> (Err e, drop_dll W dll s)
                      | (Ok f, s) \<Rightarrow> (Ok (dll\<lparr>dll_file := Some f\<rparr>), s))))"

definition extract_at :: "('h, 'os) wintun_os \<Rightarrow> string \<Rightarrow> ('os, 'h private_dll) win_call" where
  "extract_at W directory =
     and_call (make_descriptor W wintun_sddl) (\<lambda>_ s. case extract_into W directory s of (r, s) \<Rightarrow> (r, free_descriptor W s))"

definition prepare :: "('h, 'os) wintun_os \<Rightarrow> ('os, 'h private_dll) win_call" where
  "prepare W =
     and_call (program_files W) (\<lambda>root.
     and_call (new_guid W) (\<lambda>guid.
     extract_at W (join_path root (''wg-kotlin-wintun-'' @ guid))))"

text \<open>\<^verbatim>\<open>set_wintun_dll\<close> of session.rs: the cell is filled once.\<close>

definition set_wintun_dll :: "'dll \<Rightarrow> 'dll option \<Rightarrow> (unit, string) result \<times> 'dll option" where
  "set_wintun_dll dll cell =
     (case cell of None \<Rightarrow> (Ok (), Some dll) | Some _ \<Rightarrow> (Err ''Wintun DLL already initialized'', cell))"

subsection \<open>Specification\<close>

text \<open>What lies at a path: a directory, or a file with its contents, and the access description it was created with.\<close>

datatype fs_entry = DirEntry string | FileEntry string bytes

text \<open>A call that changes nothing outside the given paths.\<close>

definition only :: "('os \<Rightarrow> string \<Rightarrow> 'e option) \<Rightarrow> string set \<Rightarrow> ('os, 'a) win_call \<Rightarrow> bool" where
  "only fs A c \<longleftrightarrow> (\<forall>s p. p \<notin> A \<longrightarrow> fs (snd (c s)) p = fs s p)"

text \<open>
  What the code relies on of the file system, with \<open>fs\<close> for its contents and \<open>target\<close> for the file behind a handle. Creating
  succeeds only where there was nothing, and fails without effect; writing reaches the file of its handle only; removing removes its
  path or nothing.
\<close>

definition others_keep :: "('h, 'os) wintun_os \<Rightarrow> ('os \<Rightarrow> string \<Rightarrow> fs_entry option) \<Rightarrow> bool" where
  "others_keep W fs \<longleftrightarrow>
     only fs {} (program_files W) \<and> only fs {} (new_guid W) \<and> (\<forall>d. only fs {} (make_descriptor W d)) \<and>
     (\<forall>p. only fs {} (open_directory W p)) \<and> (\<forall>h. only fs {} (file_attributes W h)) \<and> (\<forall>h. only fs {} (volume_features W h)) \<and>
     (\<forall>h. only fs {} (sync_all W h)) \<and> (\<forall>p. only fs {} (open_shared_read W p)) \<and>
     (\<forall>s. fs (free_descriptor W s) = fs s) \<and> (\<forall>h s. fs (close_handle W h s) = fs s)"

definition create_directory_ok :: "('h, 'os) wintun_os \<Rightarrow> ('os \<Rightarrow> string \<Rightarrow> fs_entry option) \<Rightarrow> bool" where
  "create_directory_ok W fs \<longleftrightarrow>
     (\<forall>p d s q s'. create_directory W p d s = (q, s') \<longrightarrow>
        (if is_ok q then fs s p = None \<and> fs s' = (fs s)(p \<mapsto> DirEntry d) else fs s' = fs s))"

definition create_new_ok :: "('h, 'os) wintun_os \<Rightarrow> ('os \<Rightarrow> string \<Rightarrow> fs_entry option) \<Rightarrow> ('h \<Rightarrow> string) \<Rightarrow> bool" where
  "create_new_ok W fs target \<longleftrightarrow>
     (\<forall>p d s q s'. create_new W p d s = (q, s') \<longrightarrow>
        (case q of Ok h \<Rightarrow> target h = p \<and> fs s p = None \<and> fs s' = (fs s)(p \<mapsto> FileEntry d []) | Err _ \<Rightarrow> fs s' = fs s))"

definition write_ok :: "('h, 'os) wintun_os \<Rightarrow> ('os \<Rightarrow> string \<Rightarrow> fs_entry option) \<Rightarrow> ('h \<Rightarrow> string) \<Rightarrow> bool" where
  "write_ok W fs target \<longleftrightarrow>
     (\<forall>h bs. only fs {target h} (write_all_bytes W h bs)) \<and>
     (\<forall>h bs s s' d old. write_all_bytes W h bs s = (Ok (), s') \<longrightarrow> fs s (target h) = Some (FileEntry d old) \<longrightarrow>
        fs s' (target h) = Some (FileEntry d (old @ bs)))"

definition remove_ok :: "('os \<Rightarrow> string \<Rightarrow> fs_entry option) \<Rightarrow> (string \<Rightarrow> ('os, unit) win_call) \<Rightarrow> bool" where
  "remove_ok fs remove \<longleftrightarrow>
     (\<forall>p. only fs {p} (remove p)) \<and> (\<forall>p s. fst (remove p s) = Ok () \<or> fs s p = None \<longrightarrow> fs (snd (remove p s)) p = None)"

definition wintun_ok :: "('h, 'os) wintun_os \<Rightarrow> ('os \<Rightarrow> string \<Rightarrow> fs_entry option) \<Rightarrow> ('h \<Rightarrow> string) \<Rightarrow> bool" where
  "wintun_ok W fs target \<longleftrightarrow>
     others_keep W fs \<and> create_directory_ok W fs \<and> create_new_ok W fs target \<and> write_ok W fs target \<and>
     remove_ok fs (remove_file W) \<and> remove_ok fs (remove_dir W)"

text \<open>The text of a GUID is one name.\<close>

definition plain_guids :: "('h, 'os) wintun_os \<Rightarrow> bool" where
  "plain_guids W \<longleftrightarrow> (\<forall>s g s'. new_guid W s = (Ok g, s') \<longrightarrow> backslash \<notin> set g)"

text \<open>A file system that lets the daemon remove what is there.\<close>

definition removable :: "('h, 'os) wintun_os \<Rightarrow> ('os \<Rightarrow> string \<Rightarrow> fs_entry option) \<Rightarrow> bool" where
  "removable W fs \<longleftrightarrow>
     (\<forall>p s. fs s p \<noteq> None \<longrightarrow> fst (remove_file W p s) = Ok ()) \<and> (\<forall>p s. fs s p \<noteq> None \<longrightarrow> fst (remove_dir W p s) = Ok ())"

text \<open>The contents after unpacking into a directory.\<close>

definition unpacked :: "('h, 'os) wintun_os \<Rightarrow> string \<Rightarrow> (string \<Rightarrow> fs_entry option) \<Rightarrow> string \<Rightarrow> fs_entry option" where
  "unpacked W d before =
     before(d \<mapsto> DirEntry wintun_sddl, join_path d ''wintun.dll'' \<mapsto> FileEntry wintun_sddl (dll_bytes W))"

text \<open>A file system for the examples: its state is its contents, and a handle is the path it was opened for.\<close>

definition sample_wintun :: "(string, string \<Rightarrow> fs_entry option) wintun_os" where
  "sample_wintun =
     \<lparr>dll_bytes = [77, 90], is_unicode = (\<lambda>_. True), program_files = (\<lambda>s. (Ok ''C:'', s)), new_guid = (\<lambda>s. (Ok ''1'', s)),
      make_descriptor = (\<lambda>_ s. (Ok (), s)), free_descriptor = (\<lambda>s. s),
      create_directory = (\<lambda>p d s. if s p = None then (Ok (), s(p \<mapsto> DirEntry d)) else (Err ''exists'', s)),
      open_directory = (\<lambda>p s. (Ok p, s)), file_attributes = (\<lambda>_ s. (Ok 0x10, s)), volume_features = (\<lambda>_ s. (Ok 0xff, s)),
      create_new = (\<lambda>p d s. if s p = None then (Ok p, s(p \<mapsto> FileEntry d [])) else (Err ''exists'', s)),
      write_all_bytes = (\<lambda>h bs s. case s h of Some (FileEntry d old) \<Rightarrow> (Ok (), s(h \<mapsto> FileEntry d (old @ bs))) | _ \<Rightarrow> (Err ''no file'', s)),
      sync_all = (\<lambda>_ s. (Ok (), s)), open_shared_read = (\<lambda>p s. (Ok p, s)), close_handle = (\<lambda>_ s. s),
      remove_file = (\<lambda>p s. (Ok (), s(p := None))), remove_dir = (\<lambda>p s. (Ok (), s(p := None)))\<rparr>"

section \<open>Lemmas\<close>

named_theorems only_intros

lemma wintun_ok_creates:
  assumes "wintun_ok W fs target"
  shows "create_directory W p d s = (Ok x, s') \<Longrightarrow> fs s p = None \<and> fs s' = (fs s)(p \<mapsto> DirEntry d)"
    "create_directory W p d s = (Err e, s') \<Longrightarrow> fs s' = fs s"
    "create_new W p d s = (Ok h, s') \<Longrightarrow> target h = p \<and> fs s p = None \<and> fs s' = (fs s)(p \<mapsto> FileEntry d [])"
    "create_new W p d s = (Err e, s') \<Longrightarrow> fs s' = fs s"
  using assms unfolding wintun_ok_def create_directory_ok_def create_new_ok_def by fastforce+

lemma wintun_ok_writes:
  assumes "wintun_ok W fs target" and "write_all_bytes W h bs s = (Ok (), s')" and "fs s (target h) = Some (FileEntry d old)"
  shows "fs s' (target h) = Some (FileEntry d (old @ bs))"
  using assms unfolding wintun_ok_def write_ok_def by blast

lemma wintun_ok_closes:
  assumes "wintun_ok W fs target"
  shows "fs (close_handle W h s) = fs s" "fs (free_descriptor W s) = fs s"
  using assms by (simp_all add: wintun_ok_def others_keep_def)

lemma wintun_ok_only:
  assumes "wintun_ok W fs target"
  shows "only fs {} (program_files W)" "only fs {} (new_guid W)" "only fs {} (make_descriptor W d)" "only fs {} (open_directory W p)"
    "only fs {} (file_attributes W h)" "only fs {} (volume_features W h)" "only fs {} (sync_all W h)" "only fs {} (open_shared_read W p)"
    "only fs {target h} (write_all_bytes W h bs)"
  using assms by (simp_all add: wintun_ok_def others_keep_def write_ok_def)

lemma onlyD: "only fs A c \<Longrightarrow> c s = (q, s') \<Longrightarrow> p \<notin> A \<Longrightarrow> fs s' p = fs s p"
  unfolding only_def by (metis snd_conv)

lemma only_emptyD: "only fs {} c \<Longrightarrow> c s = (q, s') \<Longrightarrow> fs s' = fs s"
  using onlyD [of fs "{}" c s q s'] by auto

lemma and_call_OkE:
  assumes "and_call c f s = (Ok y, s')"
  obtains x s1 where "c s = (Ok x, s1)" "f x s1 = (Ok y, s')"
  using assms by (cases "c s"; cases "fst (c s)") (auto simp: and_call_def)

lemma with_context_Ok: "with_context m c s = (Ok x, s') \<longleftrightarrow> c s = (Ok x, s')"
  by (cases "c s"; cases "fst (c s)") (auto simp: with_context_def)

lemma or_close_Ok: "or_close W h c s = (Ok x, s') \<longleftrightarrow> c s = (Ok x, s')"
  by (cases "c s"; cases "fst (c s)") (auto simp: or_close_def)

lemma only_and_call [only_intros]:
  assumes "only fs A c" and "\<And>x. only fs A (f x)"
  shows "only fs A (and_call c f)"
  unfolding only_def
proof (intro allI impI)
  fix s p
  assume "p \<notin> A"
  obtain q s1 where q: "c s = (q, s1)" by fastforce
  show "fs (snd (and_call c f s)) p = fs s p"
    using onlyD [OF assms(1) q \<open>p \<notin> A\<close>] assms(2) \<open>p \<notin> A\<close> q by (cases q) (simp_all add: and_call_def only_def)
qed

lemma only_with_context [only_intros]: "only fs A c \<Longrightarrow> only fs A (with_context m c)"
  by (auto simp: only_def with_context_def split: prod.splits) (metis snd_conv)

lemma only_ensure [only_intros]: "only fs A (ensure b m)"
  by (simp add: only_def ensure_def)

lemma only_return [only_intros]: "only fs A (\<lambda>s. (r, s))"
  by (simp add: only_def)

lemma only_mono: "only fs {} c \<Longrightarrow> only fs A c"
  by (simp add: only_def)

lemma only_or_close:
  assumes "wintun_ok W fs target" and "only fs A c"
  shows "only fs A (or_close W h c)"
  unfolding only_def
proof (intro allI impI)
  fix s p
  assume "p \<notin> A"
  obtain q s1 where q: "c s = (q, s1)" by fastforce
  moreover have "fs (close_handle W h s1) = fs s1" by (rule wintun_ok_closes(1) [OF assms(1)])
  ultimately show "fs (snd (or_close W h c s)) p = fs s p"
    using onlyD [OF assms(2) q \<open>p \<notin> A\<close>] by (cases q) (simp_all add: or_close_def)
qed

lemma lock_directory_keeps:
  assumes "wintun_ok W fs target"
  shows "only fs {} (lock_directory W directory)"
  unfolding lock_directory_def
  by (intro only_intros only_or_close [OF assms] wintun_ok_only [OF assms])

lemma write_dll_only:
  assumes W: "wintun_ok W fs target"
  shows "only fs {path} (write_dll W path)"
  unfolding only_def
proof (intro allI impI)
  fix s p
  assume p: "p \<notin> {path}"
  obtain q s1 where q: "create_new W path wintun_sddl s = (q, s1)" by fastforce
  have same: "fs s1 p = fs s p" using wintun_ok_creates(3,4) [OF W] q p by (cases q) auto
  show "fs (snd (write_dll W path s)) p = fs s p"
  proof (cases q)
    case (Err e)
    then show ?thesis using q same by (simp add: write_dll_def and_call_def with_context_def)
  next
    case (Ok h)
    let ?rest = "and_call (or_close W h (
         and_call (with_context ''extract embedded Wintun DLL'' (write_all_bytes W h (dll_bytes W))) (\<lambda>_.
         with_context ''flush Wintun DLL'' (sync_all W h)))) (\<lambda>_ s. (Ok (), close_handle W h s))"
    have "only fs {path} (write_all_bytes W h (dll_bytes W))" "only fs {path} (sync_all W h)"
      "only fs {path} (\<lambda>s. (Ok (), close_handle W h s) :: (unit, string) result \<times> _)"
      using wintun_ok_creates(3) [OF W, of path wintun_sddl s h s1] q Ok wintun_ok_only(9) [OF W, of h "dll_bytes W"]
        wintun_ok_only(7) [OF W, of h] wintun_ok_closes(1) [OF W, of h]
      by (simp_all add: only_def)
    then have "only fs {path} ?rest" by (intro only_intros only_or_close [OF W])
    then have "fs (snd (?rest s1)) p = fs s1 p" using p by (simp add: only_def)
    then show ?thesis using q Ok same by (simp add: write_dll_def and_call_def [of "with_context _ _"] with_context_def)
  qed
qed

lemma write_dll_Ok:
  assumes W: "wintun_ok W fs target" and "write_dll W path s = (Ok (), s')"
  shows "fs s path = None \<and> fs s' path = Some (FileEntry wintun_sddl (dll_bytes W))"
proof -
  obtain h s1 where c: "with_context ''create Wintun DLL exclusively'' (create_new W path wintun_sddl) s = (Ok h, s1)" and rest:
      "and_call (or_close W h (
         and_call (with_context ''extract embedded Wintun DLL'' (write_all_bytes W h (dll_bytes W))) (\<lambda>_.
         with_context ''flush Wintun DLL'' (sync_all W h)))) (\<lambda>_ s. (Ok (), close_handle W h s)) s1 = (Ok (), s')"
    using assms(2) unfolding write_dll_def by (rule and_call_OkE)
  have created: "target h = path \<and> fs s path = None \<and> fs s1 = (fs s)(path \<mapsto> FileEntry wintun_sddl [])"
    using wintun_ok_creates(3) [OF W] c by (simp add: with_context_Ok)
  obtain s2 s3 where s: "write_all_bytes W h (dll_bytes W) s1 = (Ok (), s2)" "sync_all W h s2 = (Ok (), s3)" "s' = close_handle W h s3"
    using rest by (auto elim!: and_call_OkE simp: with_context_Ok or_close_Ok)
  have "fs s2 path = Some (FileEntry wintun_sddl ([] @ dll_bytes W))"
    using wintun_ok_writes [OF W s(1), of wintun_sddl "[]"] created by simp
  moreover have "fs s3 = fs s2" by (rule only_emptyD [OF wintun_ok_only(7) [OF W] s(2)])
  moreover have "fs s' = fs s3" using wintun_ok_closes(1) [OF W] s(3) by simp
  ultimately show ?thesis using created by simp
qed

lemma parent_join:
  assumes "directory \<noteq> []" and "last directory \<noteq> backslash" and "backslash \<notin> set name"
  shows "parent_path (join_path directory name) = Some directory"
  using assms by (simp add: parent_path_def join_path_def rsplit_once_last)

lemma drop_dll_ok:
  assumes W: "wintun_ok W fs target" and "parent_path (dll_path dll) = Some d"
  shows "(\<forall>p. p \<noteq> dll_path dll \<longrightarrow> p \<noteq> d \<longrightarrow> fs (drop_dll W dll s) p = fs s p) \<and>
    (removable W fs \<longrightarrow> fs (drop_dll W dll s) (dll_path dll) = None \<and> fs (drop_dll W dll s) d = None)"
proof -
  define s1 where "s1 = close_opt W (dll_directory dll) (close_opt W (dll_file dll) s)"
  define s2 where "s2 = snd (remove_file W (dll_path dll) s1)"
  define s3 where "s3 = snd (remove_dir W d s2)"
  have s: "drop_dll W dll s = s3" using assms(2) by (simp add: drop_dll_def Let_def s1_def s2_def s3_def)
  have f1: "fs s1 = fs s" using wintun_ok_closes(1) [OF W] by (auto simp: s1_def close_opt_def split: option.split)
  have f2: "p \<noteq> dll_path dll \<Longrightarrow> fs s2 p = fs s1 p" and f3: "p \<noteq> d \<Longrightarrow> fs s3 p = fs s2 p" for p
    using W by (simp_all add: s2_def s3_def wintun_ok_def remove_ok_def only_def)
  have "fs s2 (dll_path dll) = None \<and> fs s3 d = None" if r: "removable W fs"
  proof
    show "fs s2 (dll_path dll) = None"
      using W r unfolding s2_def wintun_ok_def remove_ok_def removable_def by blast
    show "fs s3 d = None"
      using W r unfolding s3_def wintun_ok_def remove_ok_def removable_def by blast
  qed
  then show ?thesis unfolding s using f1 f2 f3 by metis
qed

text \<open>Unpacking into a directory.\<close>

lemma extract_into_ok:
  assumes W: "wintun_ok W fs target" and d: "d \<noteq> []" "last d \<noteq> backslash" and run: "extract_into W d s = (r, s')"
  shows "case r of
      Ok dll \<Rightarrow> fs s d = None \<and> fs s' = unpacked W d (fs s) \<and> dll_path dll = join_path d ''wintun.dll'' \<and>
        dll_file dll \<noteq> None \<and> dll_directory dll \<noteq> None
    | Err _ \<Rightarrow> (fs s d \<noteq> None \<longrightarrow> fs s' = fs s) \<and> (\<forall>p. p \<noteq> d \<longrightarrow> p \<noteq> join_path d ''wintun.dll'' \<longrightarrow> fs s' p = fs s p) \<and>
        (removable W fs \<longrightarrow> fs s' = fs s \<or> fs s' = (fs s)(join_path d ''wintun.dll'' := None))"
proof -
  let ?f = "join_path d ''wintun.dll''"
  have bs: "backslash \<notin> set ''wintun.dll''" by (simp add: backslash_def char_of_def bit_0)
  obtain q s1 where q: "create_directory W d wintun_sddl s = (q, s1)" by fastforce
  show ?thesis
  proof (cases q)
    case (Err e)
    then have "r = Err ''create private Wintun directory''" "s' = s1" using run q by (simp_all add: extract_into_def with_context_def)
    then show ?thesis using wintun_ok_creates(2) [OF W, of d wintun_sddl s e s1] q Err by simp
  next
    case (Ok u)
    have made: "fs s d = None" "fs s1 = (fs s)(d \<mapsto> DirEntry wintun_sddl)" using wintun_ok_creates(1) [OF W] q Ok by blast+
    let ?dll = "\<lparr>dll_path = ?f, dll_file = None, dll_directory = None\<rparr>"
    have fail: ?thesis if f: "r = Err e" "s' = drop_dll W dll s2" "dll_path dll = ?f" "\<And>p. p \<noteq> ?f \<Longrightarrow> fs s2 p = fs s1 p" for e dll s2
    proof -
      have "parent_path (dll_path dll) = Some d" unfolding f(3) by (rule parent_join [OF d bs])
      from drop_dll_ok [OF W this, of s2, folded f(2), unfolded f(3)]
      have o: "\<And>p. p \<noteq> ?f \<Longrightarrow> p \<noteq> d \<Longrightarrow> fs s' p = fs s p" and g: "removable W fs \<Longrightarrow> fs s' ?f = None \<and> fs s' d = None"
        using f(4) made(2) by auto
      have "fs s' = (fs s)(?f := None)" if "removable W fs" using o g [OF that] made(1) by fastforce
      then show ?thesis using f(1) made(1) o by simp
    qed
    obtain l s2 where l: "and_call (ensure (is_unicode W ?f) ''Wintun DLL path is not Unicode'') (\<lambda>_. lock_directory W d) s1 = (l, s2)"
      by fastforce
    have s2: "fs s2 = fs s1"
      by (rule only_emptyD [OF only_and_call [OF only_ensure lock_directory_keeps [OF W]] l])
    show ?thesis
    proof (cases l)
      case (Err e)
      then have "r = Err e" "s' = drop_dll W ?dll s2" using run q \<open>q = Ok u\<close> l by (simp_all add: extract_into_def with_context_def Let_def)
      then show ?thesis by (rule fail) (simp_all add: s2)
    next
      case (Ok h)
      let ?rest = "and_call (write_dll W ?f) (\<lambda>_. with_context ''lock Wintun DLL against modification'' (open_shared_read W ?f))"
      obtain w s3 where w: "?rest s2 = (w, s3)" by fastforce
      have "only fs {?f} ?rest"
        by (intro only_intros write_dll_only [OF W] only_mono [OF wintun_ok_only(8) [OF W]])
      then have s3: "fs s3 p = fs s1 p" if "p \<noteq> ?f" for p using onlyD [of fs "{?f}" ?rest s2 w s3 p] w that s2 by simp
      show ?thesis
      proof (cases w)
        case (Err e)
        then have "r = Err e" "s' = drop_dll W (?dll\<lparr>dll_directory := Some h\<rparr>) s3"
          using run q \<open>q = Ok u\<close> l Ok w by (simp_all add: extract_into_def with_context_def [of "''create private Wintun directory''"] Let_def)
        then show ?thesis by (rule fail) (simp_all add: s3)
      next
        case (Ok f)
        then have r: "r = Ok (?dll\<lparr>dll_directory := Some h, dll_file := Some f\<rparr>)" "s' = s3"
          using run q \<open>q = Ok u\<close> l \<open>l = Ok h\<close> w by (simp_all add: extract_into_def with_context_def [of "''create private Wintun directory''"] Let_def)
        obtain v s4 where v: "write_dll W ?f s2 = (Ok v, s4)" "with_context ''lock Wintun DLL against modification'' (open_shared_read W ?f) s4 = (Ok f, s3)"
          using w Ok by (auto elim: and_call_OkE)
        have "fs s3 = fs s4" by (rule only_emptyD [OF only_with_context [OF wintun_ok_only(8) [OF W]] v(2)])
        moreover have "fs s4 ?f = Some (FileEntry wintun_sddl (dll_bytes W))" using write_dll_Ok [OF W] v(1) by simp
        ultimately have "fs s3 = unpacked W d (fs s)" using s3 made(2) by (auto simp: unpacked_def)
        then show ?thesis using r made(1) by simp
      qed
    qed
  qed
qed

lemma extract_at_ok:
  assumes W: "wintun_ok W fs target" and d: "d \<noteq> []" "last d \<noteq> backslash" and run: "extract_at W d s = (r, s')"
  shows "case r of
      Ok dll \<Rightarrow> fs s d = None \<and> fs s' = unpacked W d (fs s) \<and> dll_path dll = join_path d ''wintun.dll'' \<and>
        dll_file dll \<noteq> None \<and> dll_directory dll \<noteq> None
    | Err _ \<Rightarrow> (fs s d \<noteq> None \<longrightarrow> fs s' = fs s) \<and> (\<forall>p. p \<noteq> d \<longrightarrow> p \<noteq> join_path d ''wintun.dll'' \<longrightarrow> fs s' p = fs s p) \<and>
        (removable W fs \<longrightarrow> fs s' = fs s \<or> fs s' = (fs s)(join_path d ''wintun.dll'' := None))"
proof -
  obtain q s1 where q: "make_descriptor W wintun_sddl s = (q, s1)" by fastforce
  have s1: "fs s1 = fs s" by (rule only_emptyD [OF wintun_ok_only(3) [OF W] q])
  obtain r2 s2 where r2: "extract_into W d s1 = (r2, s2)" by fastforce
  show ?thesis
  proof (cases q)
    case (Err e)
    then show ?thesis using run q s1 by (auto simp: extract_at_def and_call_def)
  next
    case (Ok u)
    then have eq: "r = r2" "fs s' = fs s2" using run q r2 wintun_ok_closes(2) [OF W] by (auto simp: extract_at_def and_call_def)
    show ?thesis unfolding eq by (rule extract_into_ok [OF W d r2, unfolded s1])
  qed
qed

lemma sample_wintun_ok: "wintun_ok sample_wintun (\<lambda>s. s) id"
proof -
  have "others_keep sample_wintun (\<lambda>s. s)" by (simp add: others_keep_def only_def sample_wintun_def)
  moreover have "create_directory_ok sample_wintun (\<lambda>s. s)" "create_new_ok sample_wintun (\<lambda>s. s) id"
    by (auto simp: create_directory_ok_def create_new_ok_def sample_wintun_def)
  moreover have "write_ok sample_wintun (\<lambda>s. s) id"
    by (auto simp: write_ok_def only_def sample_wintun_def split: option.split fs_entry.split)
  moreover have "remove_ok (\<lambda>s. s) (remove_file sample_wintun)" "remove_ok (\<lambda>s. s) (remove_dir sample_wintun)"
    by (simp_all add: remove_ok_def only_def sample_wintun_def)
  ultimately show ?thesis by (simp add: wintun_ok_def)
qed

lemma sample_lock: "lock_directory sample_wintun d s = (Ok d, s)"
  by (simp add: lock_directory_def and_call_def with_context_def ensure_def or_close_def sample_wintun_def
      FILE_ATTRIBUTE_REPARSE_POINT_def FILE_PERSISTENT_ACLS_def)

lemma sample_write: "s path = None \<Longrightarrow> write_dll sample_wintun path s = (Ok (), s(path \<mapsto> FileEntry wintun_sddl [77, 90]))"
  by (simp add: write_dll_def and_call_def with_context_def or_close_def sample_wintun_def)

lemma sample_prepare: "\<exists>dll s'. prepare sample_wintun Map.empty = (Ok dll, s')"
proof -
  let ?d = "join_path ''C:'' (''wg-kotlin-wintun-'' @ ''1'')" and ?W = sample_wintun
  have ops: "is_unicode ?W p" "program_files ?W s = (Ok ''C:'', s)" "new_guid ?W s = (Ok ''1'', s)" "make_descriptor ?W sd s = (Ok (), s)"
    "open_shared_read ?W p s = (Ok p, s)" "create_directory ?W p sd Map.empty = (Ok (), [p \<mapsto> DirEntry sd])" for p s sd
    by (simp_all add: sample_wintun_def)
  have "join_path ?d ''wintun.dll'' \<noteq> ?d" by (simp add: join_path_def)
  then have "write_dll ?W (join_path ?d ''wintun.dll'') [?d \<mapsto> DirEntry wintun_sddl] =
      (Ok (), [?d \<mapsto> DirEntry wintun_sddl, join_path ?d ''wintun.dll'' \<mapsto> FileEntry wintun_sddl [77, 90]])"
    by (intro sample_write) simp
  then show ?thesis
    by (simp add: prepare_def extract_at_def extract_into_def and_call_def with_context_def ensure_def ops sample_lock)
qed

section \<open>Properties\<close>

text \<open>
  C20: The library is unpacked into a place of its own or not at all. When preparing it succeeds, the directory did not
  exist before, it and the file are accessible to SYSTEM and Administrators only, the file holds exactly the embedded bytes,
  nothing else changed, and both are held open; dropping it touches only these two and removes them where the system
  allows. When it fails, no path but these two changed; if the directory existed, as a directory, a link or a file of someone
  else, nothing changed at all; and where the system allows removing, nothing of it is left.
\<close>

theorem wintun_private:
  assumes "wintun_ok W fs target" and "plain_guids W" and "prepare W s = (r, s')"
  shows "case r of
      Ok dll \<Rightarrow> \<exists>d. fs s d = None \<and> dll_path dll = join_path d ''wintun.dll'' \<and> fs s' = unpacked W d (fs s) \<and>
        dll_file dll \<noteq> None \<and> dll_directory dll \<noteq> None \<and>
        (\<forall>t. (\<forall>p. p \<noteq> d \<longrightarrow> p \<noteq> dll_path dll \<longrightarrow> fs (drop_dll W dll t) p = fs t p) \<and>
           (removable W fs \<longrightarrow> fs (drop_dll W dll t) = (fs t)(d := None, dll_path dll := None)))
    | Err _ \<Rightarrow> \<exists>d. (fs s d \<noteq> None \<longrightarrow> fs s' = fs s) \<and> (\<forall>p. p \<noteq> d \<longrightarrow> p \<noteq> join_path d ''wintun.dll'' \<longrightarrow> fs s' p = fs s p) \<and>
        (removable W fs \<longrightarrow> fs s' = fs s \<or> fs s' = (fs s)(join_path d ''wintun.dll'' := None))"
proof -
  note W = assms(1)
  obtain root s1 where root: "program_files W s = (root, s1)" by fastforce
  obtain guid s2 where guid: "new_guid W s1 = (guid, s2)" by fastforce
  have same: "fs s1 = fs s" "fs s2 = fs s"
    using only_emptyD [OF wintun_ok_only(1) [OF W] root] only_emptyD [OF wintun_ok_only(2) [OF W] guid] by simp_all
  show ?thesis
  proof (cases "is_ok root \<and> is_ok guid")
    case False
    then have "\<exists>e. r = Err e" "fs s' = fs s"
      using assms(3) root guid same by (cases root; cases guid; auto simp: prepare_def and_call_def)+
    then show ?thesis by auto
  next
    case True
    then obtain rt g where ok: "root = Ok rt" "guid = Ok g" by (auto simp: is_ok_iff)
    let ?d = "join_path rt (''wg-kotlin-wintun-'' @ g)"
    have run: "extract_at W ?d s2 = (r, s')" using assms(3) root guid ok by (simp add: prepare_def and_call_def)
    have "backslash \<notin> set g" using assms(2) guid ok(2) unfolding plain_guids_def by blast
    moreover have "backslash \<notin> set ''wg-kotlin-wintun-''" by (simp add: backslash_def char_of_def bit_0)
    ultimately have "backslash \<notin> set (''wg-kotlin-wintun-'' @ g)" by simp
    moreover have "last ?d = last (''wg-kotlin-wintun-'' @ g)" by (simp add: join_path_def)
    ultimately have d: "?d \<noteq> []" "last ?d \<noteq> backslash"
      by (simp_all add: join_path_def) (metis last_in_set append_is_Nil_conv list.discI append_Cons set_append)
    note * = extract_at_ok [OF W d run, unfolded same]
    have bs: "backslash \<notin> set ''wintun.dll''" by (simp add: backslash_def char_of_def bit_0)
    show ?thesis
    proof (cases r)
      case (Err e)
      then show ?thesis using * by auto
    next
      case (Ok dll)
      then have path: "dll_path dll = join_path ?d ''wintun.dll''" using * by simp
      have "parent_path (dll_path dll) = Some ?d" unfolding path by (rule parent_join [OF d bs])
      note drop = drop_dll_ok [OF W this]
      have "fs (drop_dll W dll t) = (fs t)(?d := None, dll_path dll := None)" if "removable W fs" for t
        using drop [of t] that by auto
      then show ?thesis using * Ok drop by (auto intro!: exI [of _ ?d])
    qed
  qed
qed

theorem wintun_private_witness:
  "\<exists>dll s'. prepare sample_wintun Map.empty = (Ok dll, s') \<and> s' \<noteq> Map.empty \<and> drop_dll sample_wintun dll s' = Map.empty"
proof -
  obtain dll s' where run: "prepare sample_wintun Map.empty = (Ok dll, s')" using sample_prepare by blast
  have guid: "plain_guids sample_wintun"
    by (simp add: plain_guids_def sample_wintun_def backslash_def char_of_def bit_0)
  have "removable sample_wintun (\<lambda>s. s)" by (simp add: removable_def sample_wintun_def)
  then obtain d where d: "s' = unpacked sample_wintun d Map.empty" "dll_path dll = join_path d ''wintun.dll''"
      "drop_dll sample_wintun dll s' = s'(d := None, dll_path dll := None)"
    using wintun_private [OF sample_wintun_ok guid run] by auto
  have "s' d \<noteq> None \<or> s' (join_path d ''wintun.dll'') \<noteq> None" unfolding d(1) by (simp add: unpacked_def)
  then have "s' \<noteq> Map.empty" by auto
  moreover have "drop_dll sample_wintun dll s' = Map.empty" unfolding d(3) unfolding d(1,2) by (auto simp: unpacked_def)
  ultimately show ?thesis using run by blast
qed

end
