(* ===== verification/Fixture.thy ===== *)
theory Fixture
  imports Daemon Connection
begin

text \<open>
  The unprivileged daemon that the client library is tested against, examples/ipc_test_daemon.rs. It uses the owner check,
  the listener, the framing and the service of the daemon, and answers connections itself in all modes but the normal one.
  The streams are those of \<open>Ipc\<close>; the events of its loop are inputs, as in \<open>Daemon\<close>.
\<close>

section \<open>Definitions\<close>

datatype fixture_step = Reply server_payload | StopFixture | NextMessage

definition fixture_step :: "string \<Rightarrow> client_message \<Rightarrow> fixture_step" where
  "fixture_step md message =
     (case client_payload message of
        Some (Config config) \<Rightarrow> Reply (Started (interface_name config))
      | Some (OutgoingPacket packet) \<Rightarrow> Reply (IncomingPacket packet)
      | Some (ShutdownRequest b) \<Rightarrow> if b \<and> md \<noteq> ''stubborn'' then StopFixture else NextMessage
      | None \<Rightarrow> NextMessage)"

text \<open>The loop over the client's messages: whether it requests the shutdown, and what it has written.\<close>

function answer_messages ::
    "(server_message \<Rightarrow> bytes) \<Rightarrow> (bytes \<Rightarrow> (client_message, string) result) \<Rightarrow> string \<Rightarrow> in_stream \<Rightarrow> out_stream \<Rightarrow>
       bool \<times> out_stream" where
  "answer_messages encode decode md input sink =
     (case read_frame decode input of
        (Ok (Some message), i) \<Rightarrow>
          (case fixture_step md message of
             StopFixture \<Rightarrow> (True, sink)
           | NextMessage \<Rightarrow> answer_messages encode decode md i sink
           | Reply payload \<Rightarrow>
               (case write_frame encode \<lparr>server_payload = Some payload\<rparr> sink of
                  (Err _, s) \<Rightarrow> (False, s)
                | (Ok _, s) \<Rightarrow> answer_messages encode decode md i s))
      | _ \<Rightarrow> (False, sink))"
  by pat_completeness auto

termination answer_messages
  by (relation "measure (\<lambda>(_, _, _, i, _). length (pending i))") (auto dest: read_frame_shrinks [OF sym])

declare answer_messages.simps [simp del]

text \<open>
  The task of one connection; \<^term>\<open>None\<close> if it waits for ever. In the normal mode it is the one of the daemon.
\<close>

definition fixture_task ::
    "status_text \<Rightarrow> (server_message \<Rightarrow> bytes) \<Rightarrow> (bytes \<Rightarrow> (client_message, string) result) \<Rightarrow> 32 word \<Rightarrow> connection_env \<Rightarrow>
       string \<Rightarrow> in_stream \<Rightarrow> out_stream \<Rightarrow> (bool \<times> out_stream) option" where
  "fixture_task T encode decode own_pid env md input sink =
     (if md = ''normal''
      then (let c = serve_connection T encode decode own_pid env input sink in Some (requests_shutdown c, wire c))
      else if md = ''no-ready'' then None
      else Some (case write_frame encode (ready_message (own_pid + of_bool (md = ''wrong-pid''))) sink of
                   (Err _, s) \<Rightarrow> (False, s)
                 | (Ok _, s) \<Rightarrow> answer_messages encode decode md input s))"

text \<open>A client that must not be served: the result of connecting, and of reading unless two seconds pass before.\<close>

definition foreign_client ::
    "(io_error \<Rightarrow> string) \<Rightarrow> (in_stream, io_error) result \<Rightarrow> (bytes \<Rightarrow> (server_message, string) result) \<Rightarrow> bool \<Rightarrow> (unit, string) result" where
  "foreign_client show connected decode in_time =
     and_then (map_err show connected) (\<lambda>input.
       case (in_time, fst (read_frame decode input)) of
         (True, Ok None) \<Rightarrow> Ok ()
       | (True, Err _) \<Rightarrow> Ok ()
       | _ \<Rightarrow> Err ''foreign process was accepted or not promptly rejected'')"

datatype 'st fixture_event = StopChanged | OwnerTick | FixtureAccepted 'st "32 word" | FixtureAcceptFailed io_error

text \<open>The loop, with the connections that were handed to a task; \<^term>\<open>None\<close> while it runs.\<close>

fun fixture_loop ::
    "('o \<Rightarrow> 'os \<Rightarrow> bool) \<Rightarrow> ('o \<Rightarrow> 32 word \<Rightarrow> 'os \<Rightarrow> bool) \<Rightarrow> 'o \<Rightarrow> ('st fixture_event \<times> 'os) list \<Rightarrow>
       (unit, io_error) result option \<times> ('st \<times> 32 word) list" where
  "fixture_loop is_alive authorizes owner [] = (None, [])"
| "fixture_loop is_alive authorizes owner ((e, s) # es) =
     (case e of
        StopChanged \<Rightarrow> (Some (Ok ()), [])
      | OwnerTick \<Rightarrow> if \<not> is_alive owner s then (Some (Ok ()), []) else fixture_loop is_alive authorizes owner es
      | FixtureAcceptFailed err \<Rightarrow> (Some (Err err), [])
      | FixtureAccepted stream peer \<Rightarrow>
          if \<not> authorizes owner peer s then fixture_loop is_alive authorizes owner es
          else (case fixture_loop is_alive authorizes owner es of (r, conns) \<Rightarrow> (r, (stream, peer) # conns)))"

text \<open>The main function; the owner, the listener and the log are opened in this order.\<close>

definition fixture_main ::
    "(io_error \<Rightarrow> string) \<Rightarrow> string \<Rightarrow> (unit, string) result \<Rightarrow> ('o, string) result \<Rightarrow> ('o \<Rightarrow> ('l, string) result) \<Rightarrow> ('g, string) result \<Rightarrow>
       ('o \<Rightarrow> (unit, io_error) result option) \<Rightarrow> (unit, string) result option" where
  "fixture_main show md foreign owner bind logger looped =
     (if md = ''foreign-client'' then Some foreign
      else (case and_then owner (\<lambda>o'. and_then (bind o') (\<lambda>_. and_then logger (\<lambda>_. Ok o'))) of
              Err e \<Rightarrow> Some (Err e)
            | Ok o' \<Rightarrow> map_option (map_err show) (looped o')))"

subsection \<open>Specification\<close>

text \<open>The replies to a sequence of messages, up to the first that stops the fixture, and whether there is one.\<close>

fun replies :: "string \<Rightarrow> client_message list \<Rightarrow> server_message list" where
  "replies md [] = []"
| "replies md (m # ms) =
     (case fixture_step md m of
        Reply p \<Rightarrow> \<lparr>server_payload = Some p\<rparr> # replies md ms
      | NextMessage \<Rightarrow> replies md ms
      | StopFixture \<Rightarrow> [])"

text \<open>The events of the fixture as events of the daemon.\<close>

fun daemon_event :: "'st fixture_event \<Rightarrow> 'st loop_event" where
  "daemon_event StopChanged = ShutdownChanged"
| "daemon_event OwnerTick = MonitorTick"
| "daemon_event (FixtureAccepted stream peer) = Accepted stream peer"
| "daemon_event (FixtureAcceptFailed err) = AcceptFailed err"

section \<open>Lemmas\<close>

text \<open>The fixture stands for the daemon: its loop ends and serves exactly as the daemon's accept loop does on the same events.\<close>

lemma fixture_loop_daemon:
  "accept_loop is_alive authorizes owner (map (apfst daemon_event) es) d = (r, d') \<Longrightarrow>
     fixture_loop is_alive authorizes owner es = (r, drop (length (served d)) (served d')) \<and> prefix (served d) (served d')"
proof (induction es arbitrary: d)
  case (Cons x es)
  obtain e s where x: "x = (e, s)" by fastforce
  show ?case
  proof (cases e)
    case (FixtureAccepted stream peer)
    show ?thesis
    proof (cases "authorizes owner peer s")
      case True
      let ?d = "d\<lparr>log := log d @ [accepted_peer peer], served := served d @ [(stream, peer)],
        connections := connections d @ [(stream, peer)]\<rparr>"
      have "accept_loop is_alive authorizes owner (map (apfst daemon_event) es) ?d = (r, d')"
        using Cons.prems x FixtureAccepted True by simp
      from Cons.IH [OF this] show ?thesis using x FixtureAccepted True by (auto simp: prefix_def)
    next
      case False
      with Cons.prems x FixtureAccepted Cons.IH show ?thesis by fastforce
    qed
  qed (use Cons.prems x Cons.IH in \<open>auto split: if_splits\<close>)
qed simp

text \<open>
  A client that sends messages and ends gets the reply to each of them in order, up to the one that stops the
  fixture, where the fixture can write; only such a message requests the shutdown.
\<close>

lemma answer_messages_exact:
  assumes "\<forall>m \<in> set ms. fits (client_encode m) \<and> decode (client_encode m) = Ok m"
    and "\<forall>m \<in> set (replies md ms). fits (encode m)"
    and "pending input = concat (map (\<lambda>m. frame (client_encode m)) ms)" and "in_stream.ending input = Eof"
    and "fail_after sink = None" and "flush_result sink = Ok ()"
  shows "answer_messages encode decode md input sink =
    (list_ex (\<lambda>m. fixture_step md m = StopFixture) ms,
     sink\<lparr>written := written sink @ concat (map (\<lambda>m. frame (encode m)) (replies md ms))\<rparr>)"
  using assms
proof (induction ms arbitrary: input sink)
  case Nil
  then show ?case by (subst answer_messages.simps) (simp add: read_frame_def read_payload_eof)
next
  case (Cons m ms)
  let ?i = "input\<lparr>pending := concat (map (\<lambda>m. frame (client_encode m)) ms)\<rparr>"
  have "read_payload input = (Ok (Some (client_encode m)), ?i)"
    using Cons.prems by (intro ipc_framing.get_put) simp_all
  then have read: "read_frame decode input = (Ok (Some m), ?i)" using Cons.prems by (simp add: read_frame_def)
  show ?case
  proof (cases "fixture_step md m")
    case (Reply p)
    let ?m = "\<lparr>server_payload = Some p\<rparr>"
    let ?o = "sink\<lparr>written := written sink @ frame (encode ?m)\<rparr>"
    have "write_frame encode ?m sink = (Ok (), ?o)"
      using Cons.prems Reply by (simp add: write_frame_ok)
    moreover have "answer_messages encode decode md ?i ?o =
        (list_ex (\<lambda>m. fixture_step md m = StopFixture) ms,
         ?o\<lparr>written := written ?o @ concat (map (\<lambda>m. frame (encode m)) (replies md ms))\<rparr>)"
      using Cons.prems Reply by (intro Cons.IH) simp_all
    ultimately show ?thesis using Reply by (subst answer_messages.simps) (simp add: read)
  next
    case StopFixture
    then show ?thesis by (subst answer_messages.simps) (simp add: read)
  next
    case NextMessage
    have "answer_messages encode decode md ?i sink =
        (list_ex (\<lambda>m. fixture_step md m = StopFixture) ms,
         sink\<lparr>written := written sink @ concat (map (\<lambda>m. frame (encode m)) (replies md ms))\<rparr>)"
      using Cons.prems NextMessage by (intro Cons.IH) simp_all
    then show ?thesis using NextMessage by (subst answer_messages.simps) (simp add: read)
  qed
qed

text \<open>A stubborn fixture never requests the shutdown, whatever it reads.\<close>

lemma stubborn_stays: "\<not> fst (answer_messages encode decode ''stubborn'' input sink)"
proof (induction encode decode "''stubborn''" input sink rule: answer_messages.induct)
  case (1 encode decode input sink)
  have "fixture_step ''stubborn'' m \<noteq> StopFixture" for m
    by (simp add: fixture_step_def split: option.split client_payload.split)
  with 1 show ?case
    by (subst answer_messages.simps) (auto split: prod.splits result.splits option.splits fixture_step.splits)
qed

end
