(* ===== verification/Packets.thy ===== *)
theory Packets
  imports Connection
begin

text \<open>
  Packets from one end to the other: the stream of a client through \<open>Ipc\<close>, \<open>Connection\<close> and the session loop of \<open>Server\<close>
  to the device, and the device's packets through the reader and the connection back to the client. The channels between them
  are first in, first out: what the one side takes out is a beginning of what the other has put in.
\<close>

section \<open>Definitions\<close>

subsection \<open>Specification\<close>

text \<open>The packets in messages, and among the results of reading the device.\<close>

definition client_packet :: "client_message \<Rightarrow> byte list option" where
  "client_packet m = (case client_payload m of Some (OutgoingPacket q) \<Rightarrow> Some q | _ \<Rightarrow> None)"

definition server_packet :: "server_message \<Rightarrow> byte list option" where
  "server_packet m = (case server_payload m of Some (IncomingPacket q) \<Rightarrow> Some q | _ \<Rightarrow> None)"

definition ok_value :: "('a, 'e) result \<Rightarrow> 'a option" where
  "ok_value r = (case r of Ok x \<Rightarrow> Some x | Err _ \<Rightarrow> None)"

definition client_packets :: "client_message list \<Rightarrow> byte list list" where
  "client_packets ms = filter forwardable (List.map_filter client_packet ms)"

definition server_packets :: "server_message list \<Rightarrow> byte list list" where
  "server_packets ms = List.map_filter server_packet ms"

definition device_packets :: "((byte list, io_error) result \<times> bool) list \<Rightarrow> byte list list" where
  "device_packets reads = filter forwardable (List.map_filter (\<lambda>(r, _). ok_value r) reads)"

text \<open>What the session loop takes from its channel.\<close>

definition taken :: "poll list \<Rightarrow> (client_message, status) result list" where
  "taken polls = List.map_filter (\<lambda>p. case incoming_ready p of Some (Some m) \<Rightarrow> Some m | _ \<Rightarrow> None) polls"

text \<open>The device records what is written to it, and nothing where it reports a failure.\<close>

definition records :: "('dev, 'intr, 'os) device_ops \<Rightarrow> ('dev, 'intr, 'os) tun_session \<Rightarrow> ('os \<Rightarrow> byte list list) \<Rightarrow> bool" where
  "records D t sent \<longleftrightarrow>
     (\<forall>q s. sent (snd (write_packet D t q s)) = sent s @ (if is_ok (fst (write_packet D t q s)) then [q] else []))"

section \<open>Lemmas\<close>

lemma map_filter_Cons: "List.map_filter f (x # xs) = (case f x of None \<Rightarrow> [] | Some y \<Rightarrow> [y]) @ List.map_filter f xs"
  by (simp add: List.map_filter_def split: option.split)

lemma map_filter_Nil: "List.map_filter f [] = []"
  by (simp add: List.map_filter_def)

lemma map_filter_append: "List.map_filter f (xs @ ys) = List.map_filter f xs @ List.map_filter f ys"
  by (simp add: List.map_filter_def)

lemmas map_filter_rules = map_filter_Cons map_filter_Nil map_filter_append

lemma prefix_map_filter: "prefix xs ys \<Longrightarrow> prefix (List.map_filter f xs) (List.map_filter f ys)"
  by (auto simp: prefix_def map_filter_append)

lemma prefix_filter: "prefix xs ys \<Longrightarrow> prefix (filter P xs) (filter P ys)"
  by (auto simp: prefix_def)

subsection \<open>From the client to the device\<close>

text \<open>Whatever the client sends and whenever the connection stops, the session gets a beginning of its messages.\<close>

lemma read_side_prefix: "prefix (List.map_filter ok_value (fst (read_side decode rs input))) (fst (read_messages decode input))"
proof (induction rs arbitrary: input)
  case (Cons x rs)
  obtain stop receiving where x: "x = (stop, receiving)" by fastforce
  obtain r i where r: "read_frame decode input = (r, i)" by fastforce
  show ?case
  proof (cases "\<not> stop \<and> (\<exists>m. r = Ok (Some m)) \<and> receiving")
    case True
    then obtain m where m: "r = Ok (Some m)" by blast
    have "fst (read_messages decode input) = m # fst (read_messages decode i)"
      by (subst read_messages.simps) (simp add: r m case_prod_beta)
    then show ?thesis using Cons [of i] True x r m by (simp add: case_prod_beta map_filter_rules ok_value_def)
  next
    case False
    then have "List.map_filter ok_value (fst (read_side decode (x # rs) input)) = []"
      using x r by (auto simp: map_filter_rules ok_value_def split: result.splits option.splits)
    then show ?thesis by simp
  qed
qed (simp add: map_filter_rules)

lemma to_session_prefix:
  "prefix (List.map_filter ok_value (tl (to_session (serve_connection T encode decode p env input sink)))) (tl (fst (read_messages decode input)))"
proof -
  let ?c = "serve_connection T encode decode p env input sink"
  obtain w s where w: "timed_write encode (ready_wait env) (ready_message p) sink = (w, s)" by fastforce
  obtain r i where r: "read_frame decode input = (r, i)" by fastforce
  have "to_session ?c = [] \<or> (\<exists>m. r = Ok (Some m) \<and> to_session ?c = Ok m # fst (read_side decode (rounds env) i))"
    by (cases w; cases "first_wait env")
       (auto simp: serve_connection_def ends_def w r case_prod_beta split: result.split option.split)
  then consider "to_session ?c = []"
    | m where "read_frame decode input = (Ok (Some m), i)" "to_session ?c = Ok m # fst (read_side decode (rounds env) i)"
    using r by blast
  then show ?thesis
  proof cases
    case (2 m)
    have "fst (read_messages decode input) = m # fst (read_messages decode i)"
      by (subst read_messages.simps) (simp add: 2(1) case_prod_beta)
    then show ?thesis using 2(2) read_side_prefix [of decode "rounds env" i] by simp
  qed (simp add: map_filter_rules)
qed

text \<open>The session loop writes the packets of what it takes, in order; while it runs it has written all of them.\<close>

lemma write_loop_writes:
  assumes "records D t sent" and "write_loop D io t polls s = (r, s')"
  shows "\<exists>qs. sent s' = sent s @ qs \<and> prefix qs (client_packets (List.map_filter ok_value (taken polls))) \<and>
    (r = None \<longrightarrow> qs = client_packets (List.map_filter ok_value (taken polls)))"
  using assms(2)
proof (induction polls arbitrary: s)
  case Nil
  then show ?case by (simp add: taken_def map_filter_rules client_packets_def)
next
  case (Cons p polls)
  let ?rest = "client_packets (List.map_filter ok_value (taken polls))"
  show ?case
  proof (cases "select p")
    case (LoopEnd e)
    then show ?thesis using Cons.prems by auto
  next
    case Waiting
    then have "incoming_ready p = None" by (auto simp: select_def split: if_splits option.splits result.splits)
    then show ?thesis using Cons Waiting by (simp add: taken_def map_filter_rules)
  next
    case (NextMessage m)
    then have "incoming_ready p = Some (Some (Ok m))" by (auto simp: select_def split: if_splits option.splits result.splits)
    then have all: "client_packets (List.map_filter ok_value (taken (p # polls))) = client_packets [m] @ ?rest"
      by (simp add: taken_def map_filter_rules ok_value_def client_packets_def split: option.split)
    obtain st s1 where st: "on_message D io t m s = (st, s1)" by fastforce
    have one: "if st = None then sent s1 = sent s @ client_packets [m] else sent s1 = sent s"
      using st assms(1) [unfolded records_def]
      by (cases "client_payload m"; cases "the (client_payload m)")
         (auto simp: on_message_def client_packets_def client_packet_def map_filter_rules forwardable_def server_limits
           split: if_splits prod.splits result.splits, metis is_ok_simps(1) append_Nil2 fst_conv snd_conv, metis is_ok_simps(2) append_Nil2 fst_conv snd_conv)
    show ?thesis
    proof (cases st)
      case None
      then have "write_loop D io t polls s1 = (r, s')" using Cons.prems NextMessage st by simp
      from Cons.IH [OF this] one None show ?thesis unfolding all by (auto simp: prefix_def)
    next
      case (Some e)
      then have "s' = s1" "r = Some (Err e)" using Cons.prems NextMessage st by simp_all
      then show ?thesis using one Some by simp
    qed
  qed
qed

subsection \<open>From the device to the client\<close>

lemma read_task_prefix: "prefix (server_packets (fst (read_task os io T reads))) (device_packets reads)"
proof (induction reads)
  case (Cons x reads)
  obtain r delivered where x: "x = (r, delivered)" by fastforce
  show ?case
  proof (cases r)
    case (Ok q)
    then show ?thesis
      using Cons x
      by (cases "forwardable q"; cases delivered)
         (auto simp: on_read_def forwardable_def server_limits device_packets_def server_packets_def map_filter_rules
            ok_value_def server_packet_def case_prod_beta)
  next
    case (Err e)
    then have "server_packets (fst (read_task os io T (x # reads))) = []"
      using x by (auto simp: on_read_def server_packets_def map_filter_rules server_packet_def error_message_def Let_def)
    then show ?thesis by simp
  qed
qed (simp add: server_packets_def map_filter_rules)

subsection \<open>Examples\<close>

definition sample_sent :: "client_message list" where
  "sample_sent = [\<lparr>client_payload = None\<rparr>, packet_message [69, 0], packet_message []]"

definition sample_input :: in_stream where
  "sample_input = \<lparr>pending = concat (map (\<lambda>m. frame (sample_client_encode m)) sample_sent), ending = Eof\<rparr>"

definition empty_sink :: out_stream where
  "empty_sink = \<lparr>written = [], fail_after = None, flush_result = Ok ()\<rparr>"

lemma sample_sent_fits: "\<forall>m \<in> set sample_sent. fits (sample_client_encode m) \<and> sample_client_decode (sample_client_encode m) = Ok m"
  by (simp add: sample_sent_def packet_message_def sample_client_encode_def sample_client_decode_def fits_def)

lemma sample_to_session:
  "tl (to_session (serve_connection sample_text sample_encode sample_client_decode 9 sample_env sample_input empty_sink)) =
     map Ok (tl sample_sent)"
proof -
  let ?i = "sample_input\<lparr>pending := concat (map (\<lambda>m. frame (sample_client_encode m)) (tl sample_sent))\<rparr>"
  have first: "read_frame sample_client_decode sample_input = (Ok (Some \<lparr>client_payload = None\<rparr>), ?i)"
    using read_payload_frame [of "sample_client_encode (hd sample_sent)" sample_input] sample_sent_fits
    by (simp add: read_frame_def sample_input_def sample_sent_def)
  have rest: "read_side sample_client_decode (rounds sample_env) ?i = (map Ok (tl sample_sent), Some (Ok ()))"
    using sample_sent_fits by (intro read_side_all) (auto simp: sample_input_def sample_env_def sample_sent_def)
  have "write_frame sample_encode (ready_message 9) empty_sink =
      (Ok (), empty_sink\<lparr>written := frame (sample_encode (ready_message 9))\<rparr>)"
    by (subst write_frame_ok) (simp_all add: sample_encode_def ready_message_def fits_def empty_sink_def)
  then have "timed_write sample_encode (ready_wait sample_env) (ready_message 9) empty_sink =
      (WroteAll, empty_sink\<lparr>written := frame (sample_encode (ready_message 9))\<rparr>)"
    by (simp add: timed_write_def sample_env_def Let_def)
  then show ?thesis
    using first rest by (simp add: serve_connection_def case_prod_beta) (simp add: sample_env_def case_prod_beta)
qed

text \<open>A codec for messages with packets, and a connection that is cut off inside the second packet.\<close>

definition packet_encode :: "server_message \<Rightarrow> bytes" where
  "packet_encode m =
     (case server_payload m of Some (IncomingPacket q) \<Rightarrow> 3 # q | Some (Started n) \<Rightarrow> [2] | _ \<Rightarrow> [1])"

definition packet_decode :: "bytes \<Rightarrow> (server_message, string) result" where
  "packet_decode bs =
     Ok (if bs = [1] then ready_message 9
         else \<lparr>server_payload = Some (if bs = [2] then Started ''utun1'' else IncomingPacket (tl bs))\<rparr>)"

definition started_message :: server_message where
  "started_message = \<lparr>server_payload = Some (Started ''utun1'')\<rparr>"

definition sample_packet :: "byte list \<Rightarrow> server_message" where
  "sample_packet q = \<lparr>server_payload = Some (IncomingPacket q)\<rparr>"

definition packet_env :: connection_env where
  "packet_env = sample_env\<lparr>answers := [Respond (Ok started_message) WriteDone, Respond (Ok (sample_packet [69])) WriteDone,
     Respond (Ok (sample_packet [96, 1])) (WriteTimeout 5)]\<rparr>"

definition sample_reads :: "((byte list, io_error) result \<times> bool) list" where
  "sample_reads = [(Ok [69], True), (Ok [], True), (Ok [96, 1], True)]"

lemma sample_reads_messages: "fst (read_task os io T sample_reads) = [sample_packet [69], sample_packet [96, 1]]"
  by (simp add: sample_reads_def on_read_def server_limits sample_packet_def)

section \<open>Properties\<close>

text \<open>
  C12: Packets of the client, from the wire to the device. Whatever bytes a client sends, well-formed or not, whatever times
  out and however the session ends: if the session loop takes a beginning of what the connection passes to the session
  behind its first message, then what the device is given is, in order and unchanged, a beginning of the packets in the client's
  frames behind the first, without the empty and the oversized ones; and while the loop runs it is exactly those
  of the messages it has taken.
\<close>

theorem client_packets_reach_device:
  assumes "prefix (taken polls) (tl (to_session (serve_connection T encode decode p env input sink)))"
    and "records D t sent" and "write_loop D io t polls s = (r, s')"
  shows "\<exists>qs. sent s' = sent s @ qs \<and> prefix qs (client_packets (tl (fst (read_messages decode input)))) \<and>
    (r = None \<longrightarrow> qs = client_packets (List.map_filter ok_value (taken polls)))"
proof -
  obtain qs where qs: "sent s' = sent s @ qs" "prefix qs (client_packets (List.map_filter ok_value (taken polls)))"
      "r = None \<longrightarrow> qs = client_packets (List.map_filter ok_value (taken polls))"
    using write_loop_writes [OF assms(2,3)] by blast
  have "prefix (List.map_filter ok_value (taken polls)) (tl (fst (read_messages decode input)))"
    using prefix_map_filter [OF assms(1)] to_session_prefix by (rule prefix_order.trans)
  then have "prefix (client_packets (List.map_filter ok_value (taken polls))) (client_packets (tl (fst (read_messages decode input))))"
    unfolding client_packets_def by (intro prefix_filter prefix_map_filter)
  with qs show ?thesis using prefix_order.trans by blast
qed

theorem client_packets_reach_device_witness:
  "\<exists>qs. snd (write_loop sample_device (\<lambda>_. []) sample_session [incoming_poll (packet_message [69, 0])] []) = qs \<and>
     qs = [[69, 0]] \<and> prefix qs (client_packets (tl (fst (read_messages sample_client_decode sample_input))))"
proof -
  let ?polls = "[incoming_poll (packet_message [69, 0])]"
  have taken: "taken ?polls = [Ok (packet_message [69, 0])]" by (simp add: taken_def map_filter_rules incoming_poll_def)
  have "prefix (taken ?polls)
      (tl (to_session (serve_connection sample_text sample_encode sample_client_decode 9 sample_env sample_input empty_sink)))"
    unfolding sample_to_session taken by (simp add: sample_sent_def)
  moreover have "records sample_device sample_session (\<lambda>s. s)"
    by (simp add: records_def write_packet_def sample_device_def)
  moreover have "write_loop sample_device (\<lambda>_. []) sample_session ?polls [] = (None, [[69, 0]])"
    by (simp add: incoming_poll_def select_def on_message_def packet_message_def server_limits write_packet_def sample_device_def)
  ultimately show ?thesis
    using client_packets_reach_device [where polls = ?polls and sent = "\<lambda>s. s" and s = "[]"] by fastforce
qed

text \<open>
  C13: Packets of the device, from the device to the client. If the responses of an admitted session are a beginning of its start message,
  what its reader delivers and messages without packets (its reports), then whatever the device
  returns and whatever writes time out, stop or fail, the packets that the client decodes from its stream are, in order and
  unchanged, a beginning of the packets read from the device, without the empty and the oversized ones.
\<close>

theorem device_packets_reach_client:
  assumes "admitted env = Ok ()" and "server_packets (start_message # reports) = []"
    and "prefix (concat (map (event_messages T) (answers env))) (start_message # fst (read_task os io T reads) @ reports)"
    and "\<forall>m \<in> set (meant T p env). fits (encode m) \<and> client_decode (encode m) = Ok m" and "written sink = []"
  shows "prefix (server_packets (fst (read_messages client_decode
      \<lparr>pending = written (wire (serve_connection T encode decode p env input sink)), ending = Eof\<rparr>))) (device_packets reads)"
proof -
  let ?responses = "concat (map (event_messages T) (answers env))"
  obtain bs where bs: "written (wire (serve_connection T encode decode p env input sink)) = bs" "on_wire encode (meant T p env) bs"
    using serve_wire [of T encode decode p env input sink] assms(5) by auto
  obtain k where "fst (read_messages client_decode \<lparr>pending = bs, ending = Eof\<rparr>) = take k (meant T p env)"
    using on_wire_read [OF bs(2) assms(4)] by auto
  moreover have "prefix (server_packets (take k (meant T p env))) (server_packets (meant T p env))"
    unfolding server_packets_def by (intro prefix_map_filter take_is_prefix)
  moreover have "server_packets (meant T p env) = server_packets ?responses"
    using assms(1) by (simp add: meant_def server_packets_def map_filter_rules ready_message_def server_packet_def)
  moreover have "prefix (server_packets ?responses) (server_packets (start_message # fst (read_task os io T reads) @ reports))"
    unfolding server_packets_def by (rule prefix_map_filter [OF assms(3)])
  moreover have "server_packets (start_message # fst (read_task os io T reads) @ reports) = server_packets (fst (read_task os io T reads))"
    using assms(2) by (auto simp: server_packets_def map_filter_rules split: option.splits)
  ultimately show ?thesis unfolding bs(1) using read_task_prefix [of os io T reads] by (metis prefix_order.trans)
qed

theorem device_packets_reach_client_witness:
  "prefix (server_packets (fst (read_messages packet_decode
     \<lparr>pending = written (wire (serve_connection sample_text packet_encode sample_client_decode 9 packet_env sample_input empty_sink)),
      ending = Eof\<rparr>))) [[69], [96, 1]]"
proof -
  have meant: "meant sample_text 9 packet_env = [ready_message 9, started_message, sample_packet [69], sample_packet [96, 1]]"
    by (simp add: meant_def packet_env_def sample_env_def response_message_def)
  have "\<forall>m \<in> set (meant sample_text 9 packet_env). fits (packet_encode m) \<and> packet_decode (packet_encode m) = Ok m"
    unfolding meant by (simp add: packet_encode_def packet_decode_def ready_message_def started_message_def sample_packet_def fits_def)
  moreover have "prefix (concat (map (event_messages sample_text) (answers packet_env)))
      (started_message # fst (read_task Linux (\<lambda>_. []) sample_text sample_reads) @ [])"
    unfolding sample_reads_messages by (simp add: packet_env_def response_message_def)
  moreover have "admitted packet_env = Ok ()" "server_packets [started_message] = []" "written empty_sink = []"
      "device_packets sample_reads = [[69], [96, 1]]"
    by (simp_all add: packet_env_def sample_env_def server_packets_def map_filter_rules server_packet_def started_message_def
        empty_sink_def device_packets_def sample_reads_def ok_value_def forwardable_def)
  ultimately show ?thesis
    using device_packets_reach_client [of packet_env started_message "[]" sample_text Linux "\<lambda>_. []" sample_reads 9 packet_encode
        packet_decode empty_sink] by simp
qed

end
