(* ===== verification/Spec2Isabelle.thy ===== *)
theory Spec2Isabelle
  imports Prelude Ip_Util Validation Ipc Routes Command Configure Session Server Service Ip_Text Tunnel Std_Text Logging Owner Listener
    Daemon Connection Endpoint_Linux Route_Socket Routes_Macos Configure_Macos Nrpt Wintun Fixture Packets
begin

text \<open>
  This development verifies the privileged VPN daemon of the repository, the Rust crate under
  \<^verbatim>\<open>src/wg-kotlin-daemon-rust/daemon\<close>, and the WireGuard binding of the client library,
  \<^verbatim>\<open>src/wg-kotlin-uniffi-boringtun\<close>. An unprivileged application starts the daemon, connects over a local
  socket, sends a session configuration, and the daemon creates a TUN device, installs routes and DNS settings,
  and passes packets between the client and the device until either side ends the session; then it
  undoes everything. Paths below are relative to the crate's \<^verbatim>\<open>src\<close> directory.

  \<^bold>\<open>Conventions.\<close> A Rust \<^verbatim>\<open>Result\<close> is the datatype \<open>result\<close>, \<^verbatim>\<open>?\<close> is \<open>and_then\<close> or a
  case distinction, a panic is \<^term>\<open>None\<close> at the outside. Strings are the bytes of their UTF-8 encoding.
  Integers whose width matters are words: the MTU and the prefix lengths are 32-bit, \<open>sint\<close> reads
  the signed one. Error texts are modelled literally. Code outside the repository (the route manager,
  TUN, process, protobuf and tonic crates, the operating systems) is a parameter: a record of calls on an
  abstract system state, or a function; theorems that need its documented behaviour state it as a
  hypothesis, a named predicate such as \<open>route_kernel\<close>, \<open>device_kernel\<close>, \<open>keeps_table\<close>,
  \<open>linux_kernel\<close>, \<open>windows_kernel\<close>, \<open>table_ok\<close>, \<open>store_ok\<close>, \<open>nrpt_ok\<close> or \<open>wintun_ok\<close>, and a witness
  shows that a concrete system satisfies it. What concurrent code finds ready is an input list; interleavings are a
  step relation. The platform that \<^verbatim>\<open>cfg\<close> selects is the argument \<open>target_os\<close>, or a definition per platform.

  \<^bold>\<open>Theories.\<close>

  \<^item> \<open>Prelude\<close>: results, the string functions of the standard library that the daemon uses,
    decimal numbers, big-endian bytes, and the locales for transition systems, invariants and
    simulations. \<open>Std_Text\<close> adds lines, words and paths of text, \<open>Ip_Text\<close> the parser of addresses.
  \<^item> \<open>Ip_Util\<close> (ip_util.rs, ip_addr.proto): addresses of the protocol, their parsing and display.
  \<^item> \<open>Validation\<close> (validation.rs): all checks on a configuration, and \<open>valid_config\<close>, the
    declarative specification they are proved to decide. The locale \<open>indexed_check\<close> is the contract
    of the loops that report an index.
  \<^item> \<open>Ipc\<close> (ipc/mod.rs): length-prefixed frames over streams that end or fail anywhere. The locale
    \<open>framing\<close> derives the transport of whole sequences from the laws of one frame.
  \<^item> \<open>Listener\<close> (ipc/unix.rs, ipc/windows.rs): the socket in its private directory, the named pipe with its
    access list, the peer's number.
  \<^item> \<open>Owner\<close> (owner.rs): opening and checking the process that owns the daemon on the three platforms; the
    locale \<open>owner_gate\<close> is the contract that the accept loop relies on.
  \<^item> \<open>Logging\<close> (logging.rs): callers and the writing thread on a bounded queue.
  \<^item> \<open>Routes\<close> (platform/mod.rs): DNS arguments, the routes of a session, installation, removal and
    rollback.
  \<^item> \<open>Command\<close> (platform/mod.rs): child processes, capped output, lossy UTF-8.
  \<^item> \<open>Configure\<close> (platform/linux.rs, platform/windows.rs, platform/endpoint_windows.rs): what a
    session sets up on Linux and Windows and the hook that undoes it. \<open>Nrpt\<close>: the three PowerShell programs that
    windows.rs embeds.
  \<^item> \<open>Endpoint_Linux\<close> (platform/endpoint_linux.rs): the routes to the peers' endpoints over netlink.
  \<^item> \<open>Route_Socket\<close> (platform/endpoint_macos.rs): the messages of the macOS routing socket. \<open>Routes_Macos\<close>
    (platform/routes_macos.rs): the routing table, and the changes of a session with what they displaced.
    \<open>Configure_Macos\<close> (platform/macos.rs, platform/dns_macos.rs): the resolver entries and the whole setup.
  \<^item> \<open>Wintun\<close> (wintun.rs): unpacking the TUN library on Windows.
  \<^item> \<open>Session\<close> (session.rs): starting a session on a device, packet calls, closing.
  \<^item> \<open>Server\<close> (server.rs): messages, admission of a request, the reader, the writer and the teardown
    of a session. The locale \<open>registry\<close> is the contract of the set of active sessions.
    \<open>Connection\<close>: one connection with its handshake, its timeouts and its two halves.
    \<open>Service\<close>: the tasks of all connections interleaved on the shared set of active
    sessions, with its invariants, its refinement of a registry of slots, and the drain at shutdown.
    \<open>Packets\<close> follows packets through all of these, in both directions.
  \<^item> \<open>Daemon\<close> (main.rs): privileges, start-up, the accept loop, the drain and the exit code. \<open>Fixture\<close>
    (examples/ipc_test_daemon.rs): the daemon that the client library is tested against.
  \<^item> \<open>Tunnel\<close> (lib.rs of the binding): keys, packet methods and their shared buffer.

  \<^bold>\<open>How the parts meet.\<close> \<open>Daemon\<close> accepts what \<open>Listener\<close> delivers and \<open>Owner\<close> authorises, and hands it to
  \<open>Connection\<close>, which frames with \<open>Ipc\<close> and passes messages to a task of \<open>Service\<close>. The task admits the request
  (\<open>Server\<close> after \<open>Validation\<close>) and starts a \<open>Session\<close>, whose \<open>configure\<close> argument is the function of the
  platform. The sections below compose \<open>Server\<close> and \<open>Session\<close> with \<open>Configure\<close> for Linux and Windows
  (\<open>session_leaves_nothing\<close>, \<open>sessions_isolated\<close>), and \<open>Session\<close> with \<open>Configure_Macos\<close> (\<open>macos_session_traceless\<close>).

  \<^bold>\<open>What is shown.\<close> Validation decides its specification, and a validated configuration can be started
  without a panic and with its values unchanged. Framing loses, merges and shortens nothing, and a client never takes a
  broken frame for a message. A session's routes are installed all or not at all, cleanup always runs to its end, and
  a session that is over has left no route, no device and no name behind; on macOS it has also put back what it
  displaced. Sessions do not disturb each other's tunnel routes; \<open>sessions_isolated\<close> shows that the routes to
  endpoints they share are the exception. The resolver entries and
  rules of a session are exactly its own, and those of a daemon that is gone are cleared. Packets are forwarded
  in order and unchanged within the size limits, from the bytes of the client to the device and back. The set of active
  sessions is bounded and, for devices that keep their name, exact; a shutdown drains it. The hypothesis
  on device names is needed: \<open>renamed_device_leaks\<close> shows what happens otherwise. Only the process that
  was pinned as the owner is served, on Linux and on Windows, the socket and the unpacked library are private, and log
  records cannot be forged.

  \<^bold>\<open>Bounds.\<close> The only fuel is in \<open>strip_all\<close>, the loop of \<^verbatim>\<open>str::trim\<close>: each round removes at
  least one byte, so the length of the string is enough. The macOS routing table is read at most three times, as in the
  code (\<open>dump_tries\<close>). Accepting a pipe client may wait for ever; \<open>pipe_connect\<close> is a partial function and
  \<open>pipe_accept_returns\<close> says when it returns. The other loops are structural, or have a
  termination proof (\<open>read_messages\<close>, \<open>utf8_lossy\<close>, \<open>radix_str\<close>, \<open>split_ws\<close>, the scans of netlink
  and routing messages, \<open>answer_messages\<close>). Loops over input events that have not ended yet give \<^term>\<open>None\<close>.

  \<^bold>\<open>Not modelled.\<close> The build script of the protocol crate and the code that prost generates, which has no text in the
  repository: the encoding is a parameter, the messages are modelled with their users. The clap argument
  parser and the signal handlers only pass on what a crate gives. The dispatch of
  \<^verbatim>\<open>platform::configure_session\<close> on the target is the argument \<open>configure\<close> of \<open>start\<close>. Memory
  safety of the foreign calls is outside of the model: they are functions on values.
\<close>

section \<open>Sessions on Linux and Windows, from start to end\<close>

lemma filtered_routes_interface: "r \<in> set (filtered_routes config interface) \<Longrightarrow> if_name r = Some interface"
  by (auto simp: filtered_routes_set)

lemma run_session_loop_state:
  assumes "run_session_loop D io T t polls None rj ms c A s1 = (Some (t', c', A', ls), s2)"
  obtains r s where "close D t s = (r, t', snd (snd (close D t s)))" "s2 = drop_device D (device t) (snd (snd (close D t s)))"
    "A' = A - {session_name t}"
proof -
  obtain w s where "write_loop D io t polls s1 = (Some w, s)"
    using assms by (cases "write_loop D io t polls s1"; cases "fst (write_loop D io t polls s1)") (auto simp: run_session_loop_def)
  moreover obtain r u s3 where "close D t s = (r, u, s3)" by (cases "close D t s")
  ultimately show thesis
    using assms that [of s r] teardown_sessions [of T "session_name t" w r rj ms c A]
    by (auto simp: run_session_loop_def close_task_def split: prod.splits)
qed

text \<open>
  A device for the examples that is visible in the routing table: creating it installs the connected route of its address, and
  dropping it removes that route.
\<close>

definition connected :: "string \<Rightarrow> route" where
  "connected n = (Route_new (IpV4 0x0A000002) 32)\<lparr>if_name := Some n\<rparr>"

definition connected_device :: "(string, unit, route set \<times> ip_addr set) device_ops" where
  "connected_device =
     \<lparr>build_sync = (\<lambda>calls s. case calls of
        BuilderName n # _ \<Rightarrow>
          if connected n \<in> fst s then (Err (OsError 16), s) else (Ok n, (insert (connected n) (fst s), snd s))
      | _ \<Rightarrow> (Err (OsError 22), s)),
      set_nonblocking = (\<lambda>d s. (Ok (), s)), device_name = (\<lambda>d s. (Ok d, s)), interrupt_new = (\<lambda>s. (Ok (), s)),
      interrupt_trigger = (\<lambda>i s. (Ok (), s)), recv_intr = (\<lambda>d i b s. (Err (IoError Interrupted []), b, s)),
      send_intr = (\<lambda>d i p s. (Ok (length p), s)), drop_device = (\<lambda>d s. (fst s - {connected d}, snd s))\<rparr>"

definition second_config :: tun_session_config where
  "second_config = sample_config\<lparr>interface_name := ''utun8''\<rparr>"

lemma config_names: "interface_name sample_config = ''utun07''" "interface_name second_config = ''utun8''"
  by (simp_all add: sample_config_def second_config_def)

lemma connected_inject [simp]: "connected m = connected n \<longleftrightarrow> m = n"
  by (simp add: connected_def Route_new_def)

lemma connected_kernel: "device_kernel connected_device (\<lambda>s. {n. connected n \<in> fst s})"
  by (auto simp: device_kernel_def connected_device_def split: list.split builder_call.split)

lemma connected_working: "connected n \<notin> fst s \<Longrightarrow> working_device connected_device n s (insert (connected n) (fst s), snd s)"
  by (simp add: working_device_def connected_device_def)

lemma second_config_valid: "valid_config Linux second_config"
proof -
  have "validate_interface_name Linux ''utun8'' = Ok ()"
    by (simp add: validate_interface_name_def validation_limits name_eval)
  then show ?thesis
    using sample_config_valid [of Linux] unfolding validate_interface_name_ok by (simp add: valid_config_def second_config_def)
qed

lemma sample_rm_new_ok: "is_ok (fst (rm_new (route_mgr sample_platform) s))"
  by (simp add: sample_rm_new sample_platform_simps)

lemma sample_platform_kernel: "route_kernel (route_mgr sample_platform) (endpoints sample_platform) fst snd"
  unfolding sample_platform_simps by (rule Routes.sample_kernel)





section \<open>Sessions on macOS, from start to close\<close>

text \<open>Device calls and route lookups that leave a part of the system state alone.\<close>

definition device_keeps :: "('dev, 'intr, 'os) device_ops \<Rightarrow> ('os \<Rightarrow> 'v) \<Rightarrow> bool" where
  "device_keeps D v \<longleftrightarrow>
     (\<forall>calls s. v (snd (build_sync D calls s)) = v s) \<and> (\<forall>d s. v (snd (set_nonblocking D d s)) = v s) \<and>
     (\<forall>d s. v (snd (device_name D d s)) = v s) \<and> (\<forall>s. v (snd (interrupt_new D s)) = v s) \<and>
     (\<forall>i s. v (snd (interrupt_trigger D i s)) = v s) \<and> (\<forall>d s. v (drop_device D d s) = v s)"

definition lookups_keep :: "('ep, 'os) platform \<Rightarrow> ('os \<Rightarrow> 'v) \<Rightarrow> bool" where
  "lookups_keep X v \<longleftrightarrow> (\<forall>ip s. v (snd (ep_lookup (endpoints X) ip s)) = v s)"

text \<open>The part of a platform that \<open>start\<close> uses of it on macOS: the lookups and the error texts.\<close>

definition lookups_only :: "('ep, 'os) platform \<Rightarrow> ('ep, 'os) platform" where
  "lookups_only X =
     X\<lparr>route_mgr := \<lparr>rm_new = (\<lambda>s. (Ok (), s)), rm_add = (\<lambda>_ s. (Ok (), s)), rm_delete = (\<lambda>_ s. (Ok (), s)),
                     rm_find = (\<lambda>_ s. (Ok None, s))\<rparr>,
       endpoints := (endpoints X)\<lparr>ep_replace := (\<lambda>_ s. (Ok (), s)), ep_delete := (\<lambda>_ s. (Ok (), s))\<rparr>,
       processes := \<lparr>new_runtime = (\<lambda>s. (Ok (), s)), geteuid = (\<lambda>_. 0), spawn = (\<lambda>_ s. (Err (OsError 0), s))\<rparr>\<rparr>"

text \<open>A platform for the example: every lookup finds the same route.\<close>

definition sample_lookups :: "(endpoint_route, sample_os) platform" where
  "sample_lookups =
     \<lparr>io_str = (\<lambda>_. []), to_lowercase = (\<lambda>s. s),
      route_mgr = mac_route_mgr sample_macos,
      endpoints = \<lparr>ep_lookup = (\<lambda>ip s. (Ok sample_endpoint, s)), ep_replace = (\<lambda>e s. (Ok (), s)), ep_delete = (\<lambda>e s. (Ok (), s))\<rparr>,
      processes = \<lparr>new_runtime = (\<lambda>s. (Ok (), s)), geteuid = (\<lambda>s. 0), spawn = (\<lambda>cmd s. (Err (OsError 2), s))\<rparr>\<rparr>"

definition sample_mac_config :: tun_session_config where
  "sample_mac_config = sample_config\<lparr>peer_allowed_ips := []\<rparr>"

lemma lookups_only_keeps: "lookups_keep X v \<Longrightarrow> platform_keeps (lookups_only X) v"
  by (simp add: platform_keeps_def keeps_table_def lookups_only_def lookups_keep_def)

lemma resolve_lookups_only:
  "resolve_endpoint_routes io (endpoints (lookups_only X)) config s = resolve_endpoint_routes io (endpoints X) config s"
proof -
  have "resolve_loop io (endpoints (lookups_only X)) addrs s = resolve_loop io (endpoints X) addrs s" for addrs s
    by (induction addrs arbitrary: s) (simp_all add: lookups_only_def split: option.split prod.split result.split)
  then show ?thesis by (simp add: resolve_endpoint_routes_def)
qed

lemma start_lookups_only:
  "start Macos D (lookups_only X) script dll configure config cleared s = start Macos D X script dll configure config cleared s"
proof -
  have io: "io_str (lookups_only X) = io_str X" by (simp add: lookups_only_def)
  have prepare: "prepare_session_start Macos (lookups_only X) = prepare_session_start Macos X"
    by (intro ext) (simp add: prepare_session_start_def)
  have device: "start_on_device Macos D (lookups_only X) configure config eps dev s = start_on_device Macos D X configure config eps dev s"
    for eps dev s unfolding start_on_device_def io ..
  show ?thesis unfolding start_def resolve_lookups_only io prepare device ..
qed

text \<open>What \<open>start\<close> returns on macOS is what configuring the session returned, if it got that far.\<close>

lemma macos_start_cases:
  assumes "start Macos D X script dll configure config cleared s0 = (r, cleared', s1)"
    and "valid_config os config" and "lookups_keep X v" and "device_keeps D v"
  obtains (early) e where "r = Some (Err e)" "v s1 = v s0"
  | (configured) name eps s c s2 where "v s = v s0" "configure config name eps s = (c, s2)" "v s1 = v s2"
      "case c of None \<Rightarrow> r = None | Some (Err e) \<Rightarrow> r = Some (Err (''failed to configure platform session: '' @ e))
       | Some (Ok hook) \<Rightarrow> \<exists>t. r = Some (Ok t) \<and> session_name t = name \<and> \<not> closed t \<and> cleanup_hook t = Some hook"
  using assms(1) [folded start_lookups_only [of D X]] assms(2) lookups_only_keeps [OF assms(3)]
proof (cases rule: start_cases)
  case (no_device e calls s e')
  then have "v s1 = v s0" using assms(4) unfolding device_keeps_def by (metis snd_conv)
  then show thesis using early no_device by blast
next
  case (device eps sa sb sc calls dev)
  have keep: "v sc = v s0" using assms(4) device unfolding device_keeps_def by (metis snd_conv)
  obtain nr s2 nm s3 ir s4 iface c s5 where
    calls: "(if Macos = Windows then (Ok (), sc) else set_nonblocking D dev sc) = (nr, s2)"
      "device_name D dev s2 = (nm, s3)" "interrupt_new D s3 = (ir, s4)" "configure config iface eps s4 = (c, s5)"
    and run: "start_on_device Macos D (lookups_only X) configure config eps dev sc =
      device_outcome D (lookups_only X) dev (nr, s2) (ir, s4) iface (c, s5)"
    by (rule start_on_device_steps)
  have v: "v s2 = v s0" "v s3 = v s0" "v s4 = v s0"
    using assms(4) calls(1-3) keep unfolding device_keeps_def by (simp, metis snd_conv)+
  have drop: "v (drop_device D dev s) = v s" "v (snd (interrupt_trigger D i s)) = v s" for i s
    using assms(4) by (simp_all add: device_keeps_def)
  note out = run [unfolded device(4) device_outcome_def prod.case]
  show thesis
  proof (cases "is_ok nr \<and> is_ok ir")
    case True
    with out show thesis
      by (cases nr; cases ir; cases c; cases "the c") (auto intro!: configured [OF v(3) calls(4)] simp: drop)
  next
    case False
    then obtain e where "nr = Err e \<or> is_ok nr \<and> ir = Err e" by (cases nr; cases ir) auto
    then obtain msg where "r = Some (Err msg)" "s1 = drop_device D dev s2 \<or> s1 = drop_device D dev s4"
      using out by (cases nr) auto
    with v drop show thesis by (intro early) auto
  qed
qed (use early in blast)

lemma sample_mac_config_valid: "valid_config os sample_mac_config"
  using sample_config_valid [of os] by (simp add: valid_config_def sample_mac_config_def)

lemma sample_mac_started:
  "\<exists>t c s1. start Macos plain_device sample_lookups (\<lambda>_. []) None (macos_configure_session sample_macos)
      sample_mac_config False (Map.empty, Map.empty) = (Some (Ok t), c, s1) \<and> session_name t = ''utun07'' \<and>
    sample_tab (fst s1) (host_key (IpV4 7)) \<noteq> None \<and> fst (close plain_device t s1) = Ok ()"
proof -
  let ?c = sample_mac_config and ?s = "(Map.empty, Map.empty) :: sample_os"
  have name: "validate_interface_name Macos (interface_name ?c) = Ok ()" "interface_name ?c = ''utun07''"
    using sample_mac_config_valid [of Macos] unfolding validate_interface_name_ok valid_config_def
    by (simp_all add: sample_mac_config_def sample_config_def)
  obtain ips where ips: "ips_to_args (config_servers ?c) = Some ips" using ips_to_args_valid [OF sample_mac_config_valid] by blast
  obtain addrs where addrs: "address_calls (tun_session_config.addresses ?c) = Some addrs"
    using address_calls_valid [of "tun_session_config.addresses ?c"] sample_mac_config_valid [of Macos] unfolding valid_config_def by metis
  have "filtered_routes ?c ''utun07'' = []" by (simp add: filtered_routes_def List.map_filter_def sample_mac_config_def)
  then obtain hook s1 where run: "macos_configure_session sample_macos ?c ''utun07'' [sample_endpoint] ?s = (Some (Ok hook), s1)"
      "sample_tab (fst s1) (host_key (IpV4 7)) \<noteq> None" "fst (hook s1) = Ok ()"
    using sample_macos_run [OF _ ips] by blast
  have eps: "resolve_endpoint_routes (io_str sample_lookups) (endpoints sample_lookups) ?c ?s = (Ok [sample_endpoint], ?s)"
    by (simp add: resolve_endpoint_routes_def sample_mac_config_def sample_config_def parse_proto_ip_def sample_lookups_def)
  let ?t = "\<lparr>session_name = ''utun07'', device = ''utun07'', interrupt = (), closed = False, cleanup_hook = Some hook\<rparr>"
  have "start_on_device Macos plain_device sample_lookups (macos_configure_session sample_macos) ?c [sample_endpoint] ''utun07'' ?s =
      (Some (Ok ?t), s1)"
    using run(1) by (simp add: start_on_device_def plain_device_def Let_def)
  moreover have "build_sync plain_device (BuilderName x # cs) s = (Ok x, s)" for x cs and s :: sample_os
    by (simp add: plain_device_def)
  ultimately have "start Macos plain_device sample_lookups (\<lambda>_. []) None (macos_configure_session sample_macos) ?c False ?s =
      (Some (Ok ?t), False, s1)"
    using name eps addrs by (simp add: start_def prepare_session_start_def wintun_calls_def)
  moreover have "fst (close plain_device ?t s1) = Ok ()" using run(3) by (simp add: close_open plain_device_def)
  ultimately show ?thesis using run(2) by (intro exI [of _ ?t] exI [of _ False] exI [of _ s1]) simp
qed

text \<open>
  C8: A session on macOS leaves no trace. Starting one for a validated configuration does not panic; if it
  fails, the routing table is as before and no resolver entry of the session is left, unless the error
  reports that undoing failed. If it starts, the resolver entries of its interface show exactly the servers
  and domains of the configuration and no other entry changed; then, whatever happened to the rest of the
  system while the routes stayed, a close that reports success puts back every route the session added or displaced and removes its
  resolver entries, and touches no other entry.
\<close>

theorem macos_session_traceless:
  assumes "valid_config os config" and "macos_ok M tab p vals"
    and "lookups_keep X (\<lambda>s. (tab s, vals s))" and "device_keeps D (\<lambda>s. (tab s, vals s))"
    and "start Macos D X script dll (macos_configure_session M) config cleared s0 = (r, cleared', s1)"
  shows "case r of
      None \<Rightarrow> False
    | Some (Err e) \<Rightarrow>
        tab s1 = tab s0 \<and> (vals s1 = vals s0 \<or> (\<exists>name. entries_gone name (vals s1) \<and> others_kept name (vals s0) (vals s1))) \<or>
        (\<exists>a c. e = a @ ''; cleanup failed: '' @ c)
    | Some (Ok t) \<Rightarrow>
        (\<exists>ips. ips_to_args (config_servers config) = Some ips \<and>
           map (vals s1) (resolver_keys (session_name t)) =
             shown_entries (session_name t) ips (normalize_domains (config_domains config))) \<and>
        others_kept (session_name t) (vals s0) (vals s1) \<and>
        (\<forall>s t' s2. tab s = tab s1 \<longrightarrow> close D t s = (Ok (), t', s2) \<longrightarrow>
           tab s2 = tab s0 \<and> entries_gone (session_name t) (vals s2) \<and> others_kept (session_name t) (vals s) (vals s2))"
  using assms(5,1,3,4)
proof (cases rule: macos_start_cases)
  case (configured name eps s c s2)
  obtain ips where "ips_to_args (config_servers config) = Some ips" using ips_to_args_valid [OF assms(1)] by blast
  then have "c \<noteq> None"
    using configured(2) by (auto simp: macos_configure_session_def case_prod_beta Let_def split: result.splits)
  then obtain q where c: "c = Some q" by blast
  note undone = macos_configure_undone [OF assms(2) configured(2) [unfolded c]]
  have v: "tab s = tab s0" "vals s = vals s0" "tab s1 = tab s2" "vals s1 = vals s2" using configured by simp_all
  show ?thesis
  proof (cases q)
    case (Ok hook)
    then obtain t where t: "r = Some (Ok t)" "session_name t = name" "\<not> closed t" "cleanup_hook t = Some hook"
      using configured(4) c by auto
    have tr: "tab (snd (interrupt_trigger D i s)) = tab s" "vals (snd (interrupt_trigger D i s)) = vals s" for i s
      using assms(4) by (simp_all add: device_keeps_def)
    show ?thesis
      unfolding t(1) option.case result.case
    proof (intro conjI allI impI)
      show "\<exists>ips. ips_to_args (config_servers config) = Some ips \<and> map (vals s1) (resolver_keys (session_name t)) =
          shown_entries (session_name t) ips (normalize_domains (config_domains config))"
        using undone unfolding Ok result.case t(2) v by blast
      show "others_kept (session_name t) (vals s0) (vals s1)" using undone unfolding t(2) v by blast
    next
      fix sa t' sb
      assume "tab sa = tab s1" and cl: "close D t sa = (Ok (), t', sb)"
      let ?s = "snd (interrupt_trigger D (interrupt t) sa)"
      have "hook ?s = (Ok (), sb)" using cl t(3,4) by (simp add: close_open prod_eq_iff)
      moreover have "tab ?s = tab s2" using \<open>tab sa = tab s1\<close> v(3) tr by simp
      ultimately have "tab sb = tab s0 \<and> entries_gone name (vals sb) \<and> others_kept name (vals ?s) (vals sb)"
        using undone unfolding Ok result.case v(1) by blast
      then show "tab sb = tab s0" "entries_gone (session_name t) (vals sb)" "others_kept (session_name t) (vals sa) (vals sb)"
        unfolding t(2) tr by blast+
    qed
  next
    case (Err e)
    then have r: "r = Some (Err (''failed to configure platform session: '' @ e))" using configured(4) c by simp
    show ?thesis using undone unfolding Err r option.case result.case v by (metis append_assoc)
  qed
qed simp

theorem macos_session_traceless_witness:
  "\<exists>t c s1 t' s2. start Macos plain_device sample_lookups (\<lambda>_. []) None (macos_configure_session sample_macos)
      sample_mac_config False (Map.empty, Map.empty) = (Some (Ok t), c, s1) \<and>
    sample_tab (fst s1) (host_key (IpV4 7)) \<noteq> None \<and>
    close plain_device t s1 = (Ok (), t', s2) \<and> sample_tab (fst s2) = sample_tab Map.empty \<and> entries_gone ''utun07'' (snd s2)"
proof -
  obtain t c s1 where t: "start Macos plain_device sample_lookups (\<lambda>_. []) None (macos_configure_session sample_macos)
        sample_mac_config False (Map.empty, Map.empty) = (Some (Ok t), c, s1)"
      "session_name t = ''utun07''" "sample_tab (fst s1) (host_key (IpV4 7)) \<noteq> None" "fst (close plain_device t s1) = Ok ()"
    using sample_mac_started by blast
  obtain t' s2 where cl: "close plain_device t s1 = (Ok (), t', s2)" using t(4) by (metis prod.collapse)
  have keeps: "lookups_keep sample_lookups v" "device_keeps plain_device v" for v :: "sample_os \<Rightarrow> 'v"
    by (simp_all add: lookups_keep_def device_keeps_def sample_lookups_def plain_device_def)
  note * = macos_session_traceless [OF sample_mac_config_valid sample_macos_ok keeps t(1), unfolded option.case result.case]
  have "(sample_tab \<circ> fst) s2 = (sample_tab \<circ> fst) ((Map.empty, Map.empty) :: sample_os) \<and> entries_gone (session_name t) (snd s2)"
    using *[THEN conjunct2, THEN conjunct2, rule_format, OF refl cl] by blast
  then have "sample_tab (fst s2) = sample_tab Map.empty" "entries_gone ''utun07'' (snd s2)" using t(2) by simp_all
  with t cl show ?thesis by blast
qed

end
